(* ===== verification/Prelude.thy ===== *)
theory Prelude
  imports Main "HOL-Library.Word" "HOL-Library.Sublist"
begin

text \<open>
  The shared vocabulary of the development: machine integers at their Rust widths, the
  result of a fallible computation that may also panic, state passing with early return
  (the \<^verbatim>\<open>?\<close> operator), and the byte buffer operations the sources use.

  A \<^verbatim>\<open>Bytes\<close> / \<^verbatim>\<open>BytesMut\<close> is its contents, a list of bytes. The accessors
  \<open>get_u8\<close>, \<open>get_u16\<close>, \<open>copy_to_slice\<close>, \<open>advance\<close> and \<open>split_to\<close> follow the documented
  contracts of the \<^verbatim>\<open>Buf\<close>, \<^verbatim>\<open>BufMut\<close> and \<^verbatim>\<open>BytesMut\<close> interfaces: integers
  are big endian, and a read past the end panics. Panics are values of the model
  (\<open>None\<close> of an accessor, \<open>Panic\<close> of a computation), so that their absence is a
  statement to prove and their presence can be exhibited.
\<close>

unbundle bit_operations_syntax

section \<open>Machine types\<close>

type_synonym u8 = "8 word"
type_synonym u16 = "16 word"
type_synonym u32 = "32 word"
type_synonym u64 = "64 word"
type_synonym bytes = "u8 list"

abbreviation usize_bits :: nat where
  "usize_bits \<equiv> 64"

section \<open>Collections of facts\<close>

named_theorems wire_simps \<open>evaluation of buffer accessors on concrete prefixes\<close>
named_theorems codec_simps \<open>evaluation of encoders and decoders\<close>

section \<open>Results\<close>

datatype ('a, 'e) result = Ok 'a | Err 'e | Panic

fun map_err :: "('e \<Rightarrow> 'f) \<Rightarrow> ('a, 'e) result \<Rightarrow> ('a, 'f) result" where
  "map_err f (Ok a) = Ok a"
| "map_err f (Err e) = Err (f e)"
| "map_err f Panic = Panic"

fun is_err :: "('a, 'e) result \<Rightarrow> bool" where
  "is_err (Err e) = True"
| "is_err _ = False"

lemma map_err_eq_Ok [simp]: "map_err f r = Ok a \<longleftrightarrow> r = Ok a"
  by (cases r) auto

lemma map_err_eq_Panic [simp]: "map_err f r = Panic \<longleftrightarrow> r = Panic"
  by (cases r) auto

text \<open>
  Sequencing of stateful computations with early return: \<^verbatim>\<open>let x = m?; ...\<close>. The state
  reached at the failure is kept, as mutations made before a \<^verbatim>\<open>?\<close> are.
\<close>

type_synonym ('s, 'a, 'e) comp = "'s \<Rightarrow> ('a, 'e) result \<times> 's"

definition and_then :: "('s, 'a, 'e) comp \<Rightarrow> ('a \<Rightarrow> ('s, 'b, 'e) comp) \<Rightarrow> ('s, 'b, 'e) comp" where
  "and_then m f s = (case m s of
     (Ok a, s') \<Rightarrow> f a s'
   | (Err e, s') \<Rightarrow> (Err e, s')
   | (Panic, s') \<Rightarrow> (Panic, s'))"

definition pure :: "'a \<Rightarrow> ('s, 'a, 'e) comp" where
  "pure a s = (Ok a, s)"

definition fail :: "'e \<Rightarrow> ('s, 'a, 'e) comp" where
  "fail e s = (Err e, s)"

lemma and_then_Ok [simp]: "m s = (Ok a, s') \<Longrightarrow> and_then m f s = f a s'"
  by (simp add: and_then_def)

lemma and_then_Err [simp]: "m s = (Err e, s') \<Longrightarrow> and_then m f s = (Err e, s')"
  by (simp add: and_then_def)

lemma and_then_Panic [simp]: "m s = (Panic, s') \<Longrightarrow> and_then m f s = (Panic, s')"
  by (simp add: and_then_def)

lemma pure_apply [simp]: "pure a s = (Ok a, s)"
  by (simp add: pure_def)

lemma fail_apply [simp]: "fail e s = (Err e, s)"
  by (simp add: fail_def)

lemma and_then_eq_Ok:
  "and_then m f s = (Ok b, s'') \<longleftrightarrow> (\<exists>a s'. m s = (Ok a, s') \<and> f a s' = (Ok b, s''))"
  by (auto simp: and_then_def split: prod.splits result.splits)

lemma and_then_assoc:
  "and_then (and_then m f) g = and_then m (\<lambda>a. and_then (f a) g)"
  by (rule ext) (simp add: and_then_def split: prod.splits result.splits)

text \<open>
  \<open>lift_result\<close> is a computation without effect, \<open>zoom\<close> runs a computation on a part of
  the state, \<open>mapping_err\<close> is \<^verbatim>\<open>.map_err(f)\<close>.
\<close>

definition lift_result :: "('a, 'e) result \<Rightarrow> ('s, 'a, 'e) comp" where
  "lift_result r s = (r, s)"

definition zoom :: "('s \<Rightarrow> 't) \<Rightarrow> ('t \<Rightarrow> 's \<Rightarrow> 's) \<Rightarrow> ('t, 'a, 'e) comp \<Rightarrow> ('s, 'a, 'e) comp" where
  "zoom part put m s = (let (r, t) = m (part s) in (r, put t s))"

definition mapping_err :: "('e \<Rightarrow> 'f) \<Rightarrow> ('s, 'a, 'e) comp \<Rightarrow> ('s, 'a, 'f) comp" where
  "mapping_err f m s = (let (r, s') = m s in (map_err f r, s'))"

lemma lift_result_apply [simp]: "lift_result r s = (r, s)"
  by (simp add: lift_result_def)

lemma zoom_apply [simp]: "m (part s) = (r, t) \<Longrightarrow> zoom part put m s = (r, put t s)"
  by (simp add: zoom_def)

lemma mapping_err_apply [simp]: "m s = (r, s') \<Longrightarrow> mapping_err f m s = (map_err f r, s')"
  by (simp add: mapping_err_def)

section \<open>Unsigned subtraction\<close>

text \<open>
  \<^verbatim>\<open>a - b\<close> on \<^verbatim>\<open>usize\<close> values below \<open>2 ^ usize_bits\<close>: with overflow checks (the profile of a
  debug build) an underflow panics, without them (a release build) it wraps around.
\<close>

definition usize_sub :: "bool \<Rightarrow> nat \<Rightarrow> nat \<Rightarrow> nat option" where
  "usize_sub overflow_checks a b =
     (if b \<le> a then Some (a - b) else if overflow_checks then None else Some (2 ^ usize_bits + a - b))"

lemma usize_sub_le [simp]: "b \<le> a \<Longrightarrow> usize_sub oc a b = Some (a - b)"
  by (simp add: usize_sub_def)

section \<open>Big-endian integers\<close>

definition u16_to_be_bytes :: "u16 \<Rightarrow> bytes" where
  "u16_to_be_bytes w = [ucast (drop_bit 8 w), ucast w]"

definition u16_from_be_bytes :: "u8 \<Rightarrow> u8 \<Rightarrow> u16" where
  "u16_from_be_bytes hi lo = push_bit 8 (ucast hi) OR ucast lo"

lemma u16_from_to_be_bytes [simp]:
  "u16_from_be_bytes (ucast (drop_bit 8 w)) (ucast w) = w"
  unfolding u16_from_be_bytes_def by (rule bit_word_eqI) (auto simp: bit_simps)

lemma u16_to_from_be_bytes [simp]: "u16_to_be_bytes (u16_from_be_bytes a b) = [a, b]"
proof -
  have "(ucast (drop_bit 8 (u16_from_be_bytes a b)) :: u8) = a"
    unfolding u16_from_be_bytes_def
    by (rule bit_word_eqI) (auto simp: bit_simps dest: bit_imp_le_length)
  moreover have "(ucast (u16_from_be_bytes a b) :: u8) = b"
    unfolding u16_from_be_bytes_def by (rule bit_word_eqI) (auto simp: bit_simps)
  ultimately show ?thesis by (simp add: u16_to_be_bytes_def)
qed

lemma length_u16_to_be_bytes [simp]: "length (u16_to_be_bytes w) = 2"
  by (simp add: u16_to_be_bytes_def)

lemma u16_to_be_bytes_inject [simp]: "u16_to_be_bytes v = u16_to_be_bytes w \<longleftrightarrow> v = w"
  by (metis list.inject u16_from_to_be_bytes u16_to_be_bytes_def)

section \<open>Reading a buffer\<close>

fun get_u8 :: "bytes \<Rightarrow> (u8 \<times> bytes) option" where
  "get_u8 [] = None"
| "get_u8 (b # bs) = Some (b, bs)"

fun get_u16 :: "bytes \<Rightarrow> (u16 \<times> bytes) option" where
  "get_u16 (a # b # bs) = Some (u16_from_be_bytes a b, bs)"
| "get_u16 _ = None"

definition copy_to_slice :: "nat \<Rightarrow> bytes \<Rightarrow> (bytes \<times> bytes) option" where
  "copy_to_slice n bs = (if n \<le> length bs then Some (take n bs, drop n bs) else None)"

definition advance :: "nat \<Rightarrow> bytes \<Rightarrow> bytes option" where
  "advance n bs = (if n \<le> length bs then Some (drop n bs) else None)"

text \<open>\<open>split_to\<close> of \<^verbatim>\<open>BytesMut\<close> and \<^verbatim>\<open>copy_to_bytes\<close> of \<^verbatim>\<open>Buf\<close> have one contract.\<close>

definition split_to :: "nat \<Rightarrow> bytes \<Rightarrow> (bytes \<times> bytes) option" where
  "split_to n bs = (if n \<le> length bs then Some (take n bs, drop n bs) else None)"

definition index_at :: "'a list \<Rightarrow> nat \<Rightarrow> 'a option" where
  "index_at xs i = (if i < length xs then Some (xs ! i) else None)"

lemma index_at_Cons_0 [simp]: "index_at (x # xs) 0 = Some x"
  by (simp add: index_at_def)

lemma index_at_Cons_Suc [simp]: "index_at (x # xs) (Suc i) = index_at xs i"
  by (simp add: index_at_def)

lemma index_at_in_range [simp]: "i < length xs \<Longrightarrow> index_at xs i = Some (xs ! i)"
  by (simp add: index_at_def)

lemma get_u8_eq_None [simp]: "get_u8 bs = None \<longleftrightarrow> bs = []"
  by (cases bs) auto

lemma get_u16_wire [wire_simps, simp]: "get_u16 (u16_to_be_bytes w @ bs) = Some (w, bs)"
  by (simp add: u16_to_be_bytes_def)

lemma get_u16_Some_iff: "get_u16 bs = Some (w, bs') \<longleftrightarrow> bs = u16_to_be_bytes w @ bs'"
proof
  assume "get_u16 bs = Some (w, bs')"
  then show "bs = u16_to_be_bytes w @ bs'"
    by (cases bs rule: get_u16.cases) auto
qed simp

lemma get_u16_long: "2 \<le> length bs \<Longrightarrow> \<exists>w bs'. get_u16 bs = Some (w, bs')"
  by (cases bs rule: get_u16.cases) auto

lemma copy_to_slice_wire [wire_simps]:
  "length xs = n \<Longrightarrow> copy_to_slice n (xs @ bs) = Some (xs, bs)"
  by (simp add: copy_to_slice_def)

lemma split_to_wire [wire_simps]:
  "length xs = n \<Longrightarrow> split_to n (xs @ bs) = Some (xs, bs)"
  by (simp add: split_to_def)

lemma split_to_Some_iff:
  "split_to n bs = Some (xs, ys) \<longleftrightarrow> bs = xs @ ys \<and> length xs = n"
  by (auto simp: split_to_def append_eq_conv_conj)

lemma split_to_None_iff: "split_to n bs = None \<longleftrightarrow> length bs < n"
  by (auto simp: split_to_def)

section \<open>Lists\<close>

lemma length_at_least_2: "2 \<le> length xs \<Longrightarrow> \<exists>a b ys. xs = a # b # ys"
  by (cases xs; cases "tl xs") auto

lemma strict_prefix_length_less: "strict_prefix xs ys \<Longrightarrow> length xs < length ys"
  by (rule prefix_length_less)

lemma strict_prefix_decomp:
  "strict_prefix p w \<Longrightarrow> \<exists>q. w = p @ q \<and> q \<noteq> []"
  by (auto simp: strict_prefix_def prefix_def)

text \<open>
  Strings are their UTF-8 bytes: \<open>char\<close> is a byte, and \<^verbatim>\<open>String::len\<close> counts bytes.
\<close>

definition as_bytes :: "string \<Rightarrow> bytes" where
  "as_bytes s = map of_char s"

definition bytes_to_string :: "bytes \<Rightarrow> string" where
  "bytes_to_string bs = map (\<lambda>b. char_of (unat b)) bs"

lemma length_as_bytes [simp]: "length (as_bytes s) = length s"
  by (simp add: as_bytes_def)

lemma unat_of_char [simp]: "unat (of_char c :: u8) = of_char c"
proof -
  have "(of_char c :: u8) = of_nat (of_char c)"
    by (simp add: of_char_def)
  then have "unat (of_char c :: u8) = of_char c mod 256"
    by (simp add: unat_of_nat)
  moreover have "(of_char c :: nat) < 256"
    by simp
  ultimately show ?thesis by simp
qed

lemma bytes_to_string_as_bytes [simp]: "bytes_to_string (as_bytes s) = s"
  by (simp add: as_bytes_def bytes_to_string_def comp_def)

lemma of_char_char_of_u8 [simp]: "(of_char (char_of (unat b)) :: u8) = b"
proof -
  have "(of_char (char_of (unat b)) :: u8) = of_nat (of_char (char_of (unat b)))"
    by (simp add: of_char_def)
  also have "\<dots> = of_nat (unat b mod 256)"
    by simp
  also have "\<dots> = b"
  proof -
    have "unat b < 256"
      using unsigned_less [where w = b and 'a = nat] by simp
    then show ?thesis by simp
  qed
  finally show ?thesis .
qed

lemma as_bytes_bytes_to_string [simp]: "as_bytes (bytes_to_string bs) = bs"
  by (simp add: as_bytes_def bytes_to_string_def comp_def map_idI)

lemma as_bytes_inject [simp]: "as_bytes s = as_bytes t \<longleftrightarrow> s = t"
  by (metis bytes_to_string_as_bytes)

lemma as_bytes_append [simp]: "as_bytes (s @ t) = as_bytes s @ as_bytes t"
  by (simp add: as_bytes_def)

text \<open>Small numbers as single bytes.\<close>

lemma unat_of_nat_u8: "n \<le> 255 \<Longrightarrow> unat (of_nat n :: u8) = n"
  by (simp add: unat_of_nat)

lemma unat_u8_le: "unat (b :: u8) \<le> 255"
  using unsigned_less [where w = b and 'a = nat] by simp

lemma of_nat_u8_eq_iff: "n \<le> 255 \<Longrightarrow> of_nat n = b \<longleftrightarrow> n = unat (b :: u8)"
  using unat_of_nat_u8 [of n] by auto

lemma split_to_append [simp]: "split_to (length xs) (xs @ ys) = Some (xs, ys)"
  by (simp add: split_to_def)

lemma unat_of_nat_u16: "n < 65536 \<Longrightarrow> unat (of_nat n :: u16) = n"
  by (simp add: unat_of_nat)

text \<open>A part of the state that neither of two computations changes is not changed by their sequence.\<close>

lemma and_then_frame:
  assumes "\<And>s. f (snd (m s)) = f s" and "\<And>x s. f (snd (g x s)) = f s"
  shows "f (snd (and_then m g s)) = f s"
  using assms by (auto simp: and_then_def split: prod.split result.split) (metis snd_conv)+

end
