(* ===== verification/Net_Types.thy ===== *)
theory Net_Types
  imports Prelude
begin

text \<open>
  The address types of \<^verbatim>\<open>std::net\<close> the program passes around and the \<open>TargetAddr\<close> of
  \<^verbatim>\<open>crates/wind-core/src/types.rs\<close>, with the conversions between them that are spread
  over the crates: \<^verbatim>\<open>From<SocketAddr> for TargetAddr\<close>, the SOCKS5 conversions of
  \<^verbatim>\<open>wind-socks\<close> and \<^verbatim>\<open>target_addr_to_socket_addr\<close> of \<^verbatim>\<open>wind\<close>. A domain is a
  \<open>string\<close> of UTF-8 bytes.
\<close>

section \<open>Addresses of the standard library\<close>

datatype Ipv4Addr = Ipv4Addr u8 u8 u8 u8

text \<open>An IPv6 address by its eight segments; \<open>octets6\<close> is its network representation.\<close>

datatype Ipv6Addr = Ipv6Addr u16 u16 u16 u16 u16 u16 u16 u16

datatype IpAddr = IpV4 Ipv4Addr | IpV6 Ipv6Addr

text \<open>A socket address; the IPv6 form carries flow information and a scope id.\<close>

datatype SocketAddr = SockV4 Ipv4Addr u16 | SockV6 Ipv6Addr u16 u32 u32

fun octets4 :: "Ipv4Addr \<Rightarrow> bytes" where
  "octets4 (Ipv4Addr a b c d) = [a, b, c, d]"

fun octets6 :: "Ipv6Addr \<Rightarrow> bytes" where
  "octets6 (Ipv6Addr a b c d e f g h) =
     u16_to_be_bytes a @ u16_to_be_bytes b @ u16_to_be_bytes c @ u16_to_be_bytes d @
     u16_to_be_bytes e @ u16_to_be_bytes f @ u16_to_be_bytes g @ u16_to_be_bytes h"

text \<open>
  \<^verbatim>\<open>Ipv4Addr::from([u8; 4])\<close> and \<^verbatim>\<open>Ipv6Addr::from([u8; 16])\<close>. The array type fixes the
  length; other lengths do not occur and are mapped to the unspecified address.
\<close>

definition ipv4_unspecified :: Ipv4Addr where
  "ipv4_unspecified = Ipv4Addr 0 0 0 0"

definition ipv6_unspecified :: Ipv6Addr where
  "ipv6_unspecified = Ipv6Addr 0 0 0 0 0 0 0 0"

fun ipv4_from_octets :: "bytes \<Rightarrow> Ipv4Addr" where
  "ipv4_from_octets [a, b, c, d] = Ipv4Addr a b c d"
| "ipv4_from_octets _ = ipv4_unspecified"

fun ipv6_from_octets :: "bytes \<Rightarrow> Ipv6Addr" where
  "ipv6_from_octets [a1, a2, b1, b2, c1, c2, d1, d2, e1, e2, f1, f2, g1, g2, h1, h2] =
     Ipv6Addr (u16_from_be_bytes a1 a2) (u16_from_be_bytes b1 b2) (u16_from_be_bytes c1 c2)
       (u16_from_be_bytes d1 d2) (u16_from_be_bytes e1 e2) (u16_from_be_bytes f1 f2)
       (u16_from_be_bytes g1 g2) (u16_from_be_bytes h1 h2)"
| "ipv6_from_octets _ = ipv6_unspecified"

fun ip :: "SocketAddr \<Rightarrow> IpAddr" where
  "ip (SockV4 a p) = IpV4 a"
| "ip (SockV6 a p fi sc) = IpV6 a"

fun port :: "SocketAddr \<Rightarrow> u16" where
  "port (SockV4 a p) = p"
| "port (SockV6 a p fi sc) = p"

fun SocketAddr_new :: "IpAddr \<Rightarrow> u16 \<Rightarrow> SocketAddr" where
  "SocketAddr_new (IpV4 a) p = SockV4 a p"
| "SocketAddr_new (IpV6 a) p = SockV6 a p 0 0"

lemma length_octets4 [simp]: "length (octets4 a) = 4"
  by (cases a) simp

lemma length_octets6 [simp]: "length (octets6 a) = 16"
  by (cases a) simp

lemma ipv4_from_octets_octets4 [simp]: "ipv4_from_octets (octets4 a) = a"
  by (cases a) simp

lemma ipv6_from_octets_octets6 [simp]: "ipv6_from_octets (octets6 a) = a"
  by (cases a) (simp add: u16_to_be_bytes_def)

lemma octets4_ipv4_from_octets [simp]: "length bs = 4 \<Longrightarrow> octets4 (ipv4_from_octets bs) = bs"
  by (cases bs rule: ipv4_from_octets.cases) simp_all

lemma octets6_ipv6_from_octets [simp]: "length bs = 16 \<Longrightarrow> octets6 (ipv6_from_octets bs) = bs"
  by (cases bs rule: ipv6_from_octets.cases) simp_all

section \<open>Target addresses\<close>

datatype TargetAddr =
    TDomain string u16
  | TIPv4 Ipv4Addr u16
  | TIPv6 Ipv6Addr u16

text \<open>\<^verbatim>\<open>impl From<SocketAddr> for TargetAddr\<close>\<close>

fun TargetAddr_from :: "SocketAddr \<Rightarrow> TargetAddr" where
  "TargetAddr_from (SockV4 a p) = TIPv4 a p"
| "TargetAddr_from (SockV6 a p fi sc) = TIPv6 a p"

fun target_port :: "TargetAddr \<Rightarrow> u16" where
  "target_port (TDomain d p) = p"
| "target_port (TIPv4 a p) = p"
| "target_port (TIPv6 a p) = p"

end
