(* ===== verification/Utf8.thy ===== *)
theory Utf8
  imports Prelude
begin

text \<open>
  The parts of Rust's string library that the sources rely on when bytes from the network
  become a \<^verbatim>\<open>String\<close>: \<^verbatim>\<open>str::from_utf8\<close> (used by the TUIC address decoder) and
  \<^verbatim>\<open>String::from_utf8_lossy\<close> (used by the SOCKS5 UDP parser). \<open>utf8_width\<close> is one
  round of the validation loop: the number of bytes of the scalar value at the front of the
  input, by the table of well-formed byte sequences of the Unicode standard. \<open>utf8_bad\<close>
  is the length of the ill-formed prefix that one replacement character stands for.
\<close>

definition is_cont :: "u8 \<Rightarrow> bool" where
  "is_cont b \<longleftrightarrow> 0x80 \<le> b \<and> b \<le> 0xBF"

text \<open>The second byte of a three-byte and of a four-byte sequence depends on the first.\<close>

definition second_of_3 :: "u8 \<Rightarrow> u8 \<Rightarrow> bool" where
  "second_of_3 a b \<longleftrightarrow>
     a = 0xE0 \<and> 0xA0 \<le> b \<and> b \<le> 0xBF
   \<or> 0xE1 \<le> a \<and> a \<le> 0xEC \<and> is_cont b
   \<or> a = 0xED \<and> 0x80 \<le> b \<and> b \<le> 0x9F
   \<or> 0xEE \<le> a \<and> a \<le> 0xEF \<and> is_cont b"

definition second_of_4 :: "u8 \<Rightarrow> u8 \<Rightarrow> bool" where
  "second_of_4 a b \<longleftrightarrow>
     a = 0xF0 \<and> 0x90 \<le> b \<and> b \<le> 0xBF
   \<or> 0xF1 \<le> a \<and> a \<le> 0xF3 \<and> is_cont b
   \<or> a = 0xF4 \<and> 0x80 \<le> b \<and> b \<le> 0x8F"

definition utf8_char_width :: "u8 \<Rightarrow> nat" where
  "utf8_char_width a =
     (if a < 0x80 then 1
      else if 0xC2 \<le> a \<and> a \<le> 0xDF then 2
      else if 0xE0 \<le> a \<and> a \<le> 0xEF then 3
      else if 0xF0 \<le> a \<and> a \<le> 0xF4 then 4
      else 0)"

definition utf8_width :: "bytes \<Rightarrow> nat option" where
  "utf8_width bs = (case bs of
     [] \<Rightarrow> None
   | a # r \<Rightarrow>
       if utf8_char_width a = 1 then Some 1
       else if utf8_char_width a = 2 then
         (case r of b # _ \<Rightarrow> if is_cont b then Some 2 else None | [] \<Rightarrow> None)
       else if utf8_char_width a = 3 then
         (case r of b # c # _ \<Rightarrow> if second_of_3 a b \<and> is_cont c then Some 3 else None | _ \<Rightarrow> None)
       else if utf8_char_width a = 4 then
         (case r of b # c # d # _ \<Rightarrow>
            if second_of_4 a b \<and> is_cont c \<and> is_cont d then Some 4 else None | _ \<Rightarrow> None)
       else None)"

definition utf8_bad :: "bytes \<Rightarrow> nat" where
  "utf8_bad bs = (case bs of
     a # b # r \<Rightarrow>
       if second_of_3 a b then 2
       else if second_of_4 a b then
         (case r of c # _ \<Rightarrow> if is_cont c then 3 else 2 | [] \<Rightarrow> 2)
       else 1
   | _ \<Rightarrow> 1)"

lemma utf8_width_bounds:
  assumes "utf8_width bs = Some n"
  shows "0 < n \<and> n \<le> length bs"
  using assms unfolding utf8_width_def by (auto split: list.split_asm if_split_asm)

lemma utf8_bad_pos [simp]: "0 < utf8_bad bs"
  by (simp add: utf8_bad_def split: list.split)

function utf8_valid :: "bytes \<Rightarrow> bool" where
  "utf8_valid bs \<longleftrightarrow> (bs = [] \<or> (case utf8_width bs of
     None \<Rightarrow> False
   | Some n \<Rightarrow> utf8_valid (drop n bs)))"
  by pat_completeness auto
termination
  by (relation "measure length") (auto dest: utf8_width_bounds)

declare utf8_valid.simps [simp del]

definition from_utf8 :: "bytes \<Rightarrow> string option" where
  "from_utf8 bs = (if utf8_valid bs then Some (bytes_to_string bs) else None)"

definition replacement :: bytes where
  "replacement = [0xEF, 0xBF, 0xBD]"

function utf8_lossy :: "bytes \<Rightarrow> bytes" where
  "utf8_lossy bs = (if bs = [] then [] else (case utf8_width bs of
     Some n \<Rightarrow> take n bs @ utf8_lossy (drop n bs)
   | None \<Rightarrow> replacement @ utf8_lossy (drop (utf8_bad bs) bs)))"
  by pat_completeness auto
termination
  by (relation "measure length") (auto dest: utf8_width_bounds)

declare utf8_lossy.simps [simp del]

definition from_utf8_lossy :: "bytes \<Rightarrow> string" where
  "from_utf8_lossy bs = bytes_to_string (utf8_lossy bs)"

section \<open>Validation\<close>

lemma utf8_valid_Nil [simp]: "utf8_valid []"
  by (simp add: utf8_valid.simps)

lemma utf8_width_Nil [simp]: "utf8_width [] = None"
  by (simp add: utf8_width_def)

lemma utf8_valid_step: "utf8_width bs = Some n \<Longrightarrow> utf8_valid bs \<longleftrightarrow> utf8_valid (drop n bs)"
  unfolding utf8_valid.simps [of bs] by auto

text \<open>A scalar value is recognised by its own bytes alone.\<close>

lemma utf8_width_append:
  assumes "utf8_width bs = Some n"
  shows "utf8_width (bs @ cs) = Some n"
  using assms unfolding utf8_width_def by (auto split: list.split_asm if_split_asm)

lemma utf8_width_take:
  assumes "utf8_width bs = Some n"
  shows "utf8_width (take n bs @ cs) = Some n"
proof (cases "utf8_char_width (hd bs) = 1")
  case True
  with assms have "n = 1"
    by (cases bs) (simp_all add: utf8_width_def)
  with True assms show ?thesis
    by (cases bs) (simp_all add: utf8_width_def)
next
  case False
  with assms show ?thesis
    unfolding utf8_width_def by (auto split: list.split_asm if_split_asm)
qed

lemma utf8_valid_append:
  "utf8_valid bs \<Longrightarrow> utf8_valid (bs @ cs) \<longleftrightarrow> utf8_valid cs"
proof (induction bs rule: utf8_valid.induct)
  case (1 bs)
  show ?case
  proof (cases "bs = []")
    case True
    then show ?thesis by simp
  next
    case False
    with "1.prems" obtain n where n: "utf8_width bs = Some n"
      by (subst (asm) utf8_valid.simps) (auto split: option.splits)
    from n "1.prems" have "utf8_valid (drop n bs)"
      by (simp only: utf8_valid_step [OF n])
    with "1.IH" [OF n] have "utf8_valid (drop n bs @ cs) \<longleftrightarrow> utf8_valid cs"
      by simp
    moreover have "drop n (bs @ cs) = drop n bs @ cs"
      using utf8_width_bounds [OF n] by simp
    ultimately show ?thesis
      using utf8_valid_step [OF utf8_width_append [OF n]] by simp
  qed
qed

text \<open>ASCII text is UTF-8.\<close>

lemma utf8_valid_ascii: "(\<And>b. b \<in> set bs \<Longrightarrow> b < 0x80) \<Longrightarrow> utf8_valid bs"
proof (induction bs)
  case (Cons b bs)
  then have w: "utf8_width (b # bs) = Some 1"
    by (simp add: utf8_width_def utf8_char_width_def)
  from Cons show ?case
    by (simp add: utf8_valid_step [OF w])
qed simp

lemma utf8_valid_replacement [simp]: "utf8_valid (replacement @ bs) \<longleftrightarrow> utf8_valid bs"
proof -
  have w: "utf8_width (replacement @ bs) = Some 3"
    by (simp add: utf8_width_def utf8_char_width_def replacement_def second_of_3_def is_cont_def)
  show ?thesis
    unfolding utf8_valid_step [OF w] by (simp add: replacement_def)
qed

section \<open>Lossy conversion\<close>

lemma utf8_lossy_valid: "utf8_valid (utf8_lossy bs)"
proof (induction bs rule: utf8_lossy.induct)
  case (1 bs)
  show ?case
  proof (cases "utf8_width bs")
    case None
    with "1.IH"(1) show ?thesis
      unfolding utf8_lossy.simps [of bs] by simp
  next
    case (Some n)
    then have ne: "bs \<noteq> []"
      by auto
    have w: "utf8_width (take n bs @ utf8_lossy (drop n bs)) = Some n"
      using Some by (rule utf8_width_take)
    have "utf8_valid (utf8_lossy (drop n bs))"
      using "1.IH"(2) [OF ne Some] .
    then have "utf8_valid (take n bs @ utf8_lossy (drop n bs))"
      unfolding utf8_valid_step [OF w] using utf8_width_bounds [OF Some] by simp
    with Some ne show ?thesis
      unfolding utf8_lossy.simps [of bs] by simp
  qed
qed

lemma utf8_lossy_id: "utf8_valid bs \<Longrightarrow> utf8_lossy bs = bs"
proof (induction bs rule: utf8_lossy.induct)
  case (1 bs)
  show ?case
  proof (cases "bs = []")
    case True
    then show ?thesis by (simp add: utf8_lossy.simps)
  next
    case False
    with "1.prems" obtain n where n: "utf8_width bs = Some n"
      by (subst (asm) utf8_valid.simps) (auto split: option.splits)
    with "1.prems" have "utf8_valid (drop n bs)"
      by (simp only: utf8_valid_step [OF n])
    with "1.IH"(2) [OF False n] have "utf8_lossy (drop n bs) = drop n bs"
      by simp
    with n False show ?thesis
      unfolding utf8_lossy.simps [of bs] by simp
  qed
qed

lemma from_utf8_Some_iff: "from_utf8 bs = Some s \<longleftrightarrow> utf8_valid bs \<and> bs = as_bytes s"
  by (auto simp: from_utf8_def)

lemma from_utf8_as_bytes [simp]: "utf8_valid (as_bytes s) \<Longrightarrow> from_utf8 (as_bytes s) = Some s"
  by (simp add: from_utf8_def)

lemma from_utf8_lossy_agrees: "from_utf8 bs = Some s \<Longrightarrow> from_utf8_lossy bs = s"
  by (auto simp: from_utf8_Some_iff from_utf8_lossy_def utf8_lossy_id)

lemma utf8_valid_ascii_list: "list_all (\<lambda>b. b < 0x80) bs \<Longrightarrow> utf8_valid bs"
  by (rule utf8_valid_ascii) (simp add: list_all_iff)

end
