(* ===== verification/Codec.thy ===== *)
theory Codec
  imports Net_Types Utf8
begin

text \<open>
  The interface between the TUIC codecs and their clients. The sources implement
  \<^verbatim>\<open>tokio_util\<close>'s \<^verbatim>\<open>Encoder\<close> and \<^verbatim>\<open>Decoder\<close> for a header, a command and an address
  (\<^verbatim>\<open>crates/wind-tuic/src/proto\<close>); \<open>ProtoError\<close> is the error type they share.
  The locale \<open>codec\<close> states what a client relies on: an accepted item is appended as
  its wire form, the wire form decodes to the item and leaves what follows it, only wire
  forms decode, a proper prefix asks for more bytes and consumes nothing, and no input makes
  the decoder panic. Its consequences are proved here once and reach each codec by
  interpretation.
\<close>

section \<open>Errors\<close>

text \<open>
  \<^verbatim>\<open>ProtoError\<close> of \<^verbatim>\<open>proto/error.rs\<close>, without the captured backtraces. \<open>FailParseDomain\<close>
  keeps the offending bytes themselves where the source keeps their hexadecimal rendering.
\<close>

datatype ProtoError =
    VersionDismatch u8 u8
  | UnknownCommandType u8
  | UnknownAddressType u8
  | FailParseDomain bytes
  | DomainTooLong string
  | BytesRemaining
  | Io string
  | NumericOverflow string string
  | ReadToEnd string

text \<open>The conversion of an I/O error panics in a debug build.\<close>

definition ProtoError_from :: "bool \<Rightarrow> string \<Rightarrow> (ProtoError, 'e) result" where
  "ProtoError_from debug_assertions source = (if debug_assertions then Panic else Ok (Io source))"

text \<open>
  The crate's \<^verbatim>\<open>Error\<close> is \<^verbatim>\<open>eyre::Report\<close>: a wrapped protocol error, a message made with
  \<^verbatim>\<open>eyre!\<close>, or an error of the QUIC implementation.
\<close>

datatype Error = EProto ProtoError | EMsg string | EQuic string

text \<open>
  \<^verbatim>\<open>codec.decode(buf)?.ok_or_else(|| eyre!(...))\<close>: a decoder that must find a whole item.
\<close>

definition complete :: "(bytes, 'i option, ProtoError) comp \<Rightarrow> string \<Rightarrow> (bytes, 'i, Error) comp" where
  "complete dec msg buf = (case dec buf of
     (Ok (Some i), buf') \<Rightarrow> (Ok i, buf')
   | (Ok None, buf') \<Rightarrow> (Err (EMsg msg), buf')
   | (Err e, buf') \<Rightarrow> (Err (EProto e), buf')
   | (Panic, buf') \<Rightarrow> (Panic, buf'))"

section \<open>Decoding at the end of the input\<close>

text \<open>The three \<^verbatim>\<open>decode_eof\<close> methods turn a request for more bytes into \<open>BytesRemaining\<close>.\<close>

definition eof_of :: "(bytes, 'i option, ProtoError) comp \<Rightarrow> (bytes, 'i option, ProtoError) comp" where
  "eof_of dec buf = (case dec buf of
     (Ok None, buf') \<Rightarrow> (Err BytesRemaining, buf')
   | v \<Rightarrow> v)"

text \<open>Items decoded one after the other from one buffer.\<close>

fun decode_seq :: "(bytes, 'i option, 'e) comp \<Rightarrow> nat \<Rightarrow> (bytes, 'i list, 'e) comp" where
  "decode_seq dec 0 buf = (Ok [], buf)"
| "decode_seq dec (Suc n) buf = (case dec buf of
     (Ok None, buf') \<Rightarrow> (Ok [], buf')
   | (Ok (Some i), buf') \<Rightarrow> and_then (decode_seq dec n) (\<lambda>is. pure (i # is)) buf'
   | (Err e, buf') \<Rightarrow> (Err e, buf')
   | (Panic, buf') \<Rightarrow> (Panic, buf'))"

fun encode_seq :: "('i \<Rightarrow> (bytes, unit, 'e) comp) \<Rightarrow> 'i list \<Rightarrow> (bytes, unit, 'e) comp" where
  "encode_seq enc [] dst = (Ok (), dst)"
| "encode_seq enc (i # is) dst = and_then (enc i) (\<lambda>_. encode_seq enc is) dst"

section \<open>The interface\<close>

locale codec =
  fixes encode :: "'i \<Rightarrow> (bytes, unit, ProtoError) comp"
    and decode :: "(bytes, 'i option, ProtoError) comp"
    and accepts :: "'i \<Rightarrow> bool"
    and wire :: "'i \<Rightarrow> bytes"
  assumes encode_wire: "accepts i \<Longrightarrow> encode i dst = (Ok (), dst @ wire i)"
    and decode_wire: "accepts i \<Longrightarrow> decode (wire i @ rest) = (Ok (Some i), rest)"
    and decode_sound: "decode src = (Ok (Some i), rest) \<Longrightarrow> accepts i \<and> src = wire i @ rest"
    and decode_short: "accepts i \<Longrightarrow> strict_prefix p (wire i) \<Longrightarrow> decode p = (Ok None, p)"
    and decode_wait: "decode src = (Ok None, rest) \<Longrightarrow> rest = src"
    and decode_no_panic: "fst (decode src) \<noteq> Panic"
begin

text \<open>What one side encodes the other side decodes, whatever follows it in the buffer.\<close>

lemma round_trip:
  assumes "accepts i"
  shows "decode (snd (encode i []) @ rest) = (Ok (Some i), rest)"
  using assms by (simp add: encode_wire decode_wire)

text \<open>The wire forms are uniquely decodable.\<close>

lemma prefix_free:
  assumes "accepts i" and "accepts j" and "wire i @ r = wire j @ s"
  shows "i = j \<and> r = s"
proof -
  have "decode (wire i @ r) = (Ok (Some i), r)"
    using assms(1) by (rule decode_wire)
  moreover have "decode (wire i @ r) = (Ok (Some j), s)"
    unfolding assms(3) using assms(2) by (rule decode_wire)
  ultimately show ?thesis by simp
qed

lemma decode_iff: "decode src = (Ok (Some i), rest) \<longleftrightarrow> accepts i \<and> src = wire i @ rest"
  by (auto simp: decode_wire dest: decode_sound)

text \<open>
  Bytes may arrive in any two portions: the decoder waits for the rest, keeps what it
  has, and then yields the item.
\<close>

lemma split_arrival:
  assumes "accepts i" and "wire i = p @ q" and "q \<noteq> []"
  shows "decode p = (Ok None, p) \<and> decode (p @ q @ rest) = (Ok (Some i), rest)"
proof -
  have "strict_prefix p (wire i)"
    using assms(2,3) by (simp add: strict_prefix_def prefix_def)
  with assms(1) have "decode p = (Ok None, p)"
    by (rule decode_short)
  moreover have "decode (p @ q @ rest) = (Ok (Some i), rest)"
    using decode_wire [OF assms(1), of rest] assms(2) by simp
  ultimately show ?thesis by simp
qed

text \<open>At the end of the input a partial item is reported and a whole one is not.\<close>

lemma eof_short:
  "accepts i \<Longrightarrow> strict_prefix p (wire i) \<Longrightarrow> eof_of decode p = (Err BytesRemaining, p)"
  by (simp add: eof_of_def decode_short)

lemma complete_wire: "accepts i \<Longrightarrow> complete decode msg (wire i @ rest) = (Ok i, rest)"
  by (simp add: complete_def decode_wire)

lemma complete_short:
  "accepts i \<Longrightarrow> strict_prefix p (wire i) \<Longrightarrow> complete decode msg p = (Err (EMsg msg), p)"
  by (simp add: complete_def decode_short)

lemma complete_no_panic: "fst (complete decode msg buf) \<noteq> Panic"
  using decode_no_panic [of buf]
  by (auto simp: complete_def split: prod.splits result.splits option.splits)

lemma complete_Ok_iff: "complete decode msg buf = (Ok i, rest) \<longleftrightarrow> accepts i \<and> buf = wire i @ rest"
proof
  assume "complete decode msg buf = (Ok i, rest)"
  then have "decode buf = (Ok (Some i), rest)"
    by (auto simp: complete_def split: prod.splits result.splits option.splits)
  then show "accepts i \<and> buf = wire i @ rest"
    by (rule decode_sound)
qed (simp add: complete_wire)

lemma eof_wire: "accepts i \<Longrightarrow> eof_of decode (wire i @ rest) = (Ok (Some i), rest)"
  by (simp add: eof_of_def decode_wire)

text \<open>A sequence of items survives encoding into one buffer and decoding from it.\<close>

lemma encode_seq_wire:
  "(\<And>i. i \<in> set is \<Longrightarrow> accepts i) \<Longrightarrow> encode_seq encode is dst = (Ok (), dst @ concat (map wire is))"
  by (induction "is" arbitrary: dst) (simp_all add: encode_wire)

lemma decode_seq_wire:
  "(\<And>i. i \<in> set is \<Longrightarrow> accepts i) \<Longrightarrow>
     decode_seq decode (length is) (concat (map wire is) @ rest) = (Ok is, rest)"
  by (induction "is") (simp_all add: decode_wire)

lemma seq_round_trip:
  assumes "\<And>i. i \<in> set is \<Longrightarrow> accepts i"
  shows "decode_seq decode (length is) (snd (encode_seq encode is []) @ rest) = (Ok is, rest)"
  using assms by (simp add: encode_seq_wire decode_seq_wire)

end

end
