(* ===== verification/Header_Codec.thy ===== *)
theory Header_Codec
  imports Codec
begin

text \<open>
  \<^verbatim>\<open>crates/wind-tuic/src/proto/header.rs\<close>: the two-byte header that starts every TUIC
  message, and its codec. The derived \<^verbatim>\<open>FromPrimitive\<close> / \<^verbatim>\<open>IntoPrimitive\<close> of \<open>CmdType\<close>
  are the discriminants of the enumeration with \<open>TyOther\<close> as the catch-all.
\<close>

definition VER :: u8 where
  "VER = 5"

datatype CmdType = TyAuth | TyConnect | TyPacket | TyDissociate | TyHeartbeat | TyOther u8

record Header =
  version :: u8
  command :: CmdType

definition CmdType_from :: "u8 \<Rightarrow> CmdType" where
  "CmdType_from v =
     (if v = 0 then TyAuth
      else if v = 1 then TyConnect
      else if v = 2 then TyPacket
      else if v = 3 then TyDissociate
      else if v = 4 then TyHeartbeat
      else TyOther v)"

fun CmdType_into :: "CmdType \<Rightarrow> u8" where
  "CmdType_into TyAuth = 0"
| "CmdType_into TyConnect = 1"
| "CmdType_into TyPacket = 2"
| "CmdType_into TyDissociate = 3"
| "CmdType_into TyHeartbeat = 4"
| "CmdType_into (TyOther v) = v"

definition Header_new :: "CmdType \<Rightarrow> Header" where
  "Header_new c = \<lparr>version = VER, command = c\<rparr>"

definition HeaderCodec_decode :: "(bytes, Header option, ProtoError) comp" where
  "HeaderCodec_decode src =
     (if length src < 2 then (Ok None, src)
      else case get_u8 src of
        None \<Rightarrow> (Panic, src)
      | Some (ver, src1) \<Rightarrow>
          if ver \<noteq> VER then (Err (VersionDismatch VER ver), src1)
          else (case get_u8 src1 of
              None \<Rightarrow> (Panic, src1)
            | Some (c, src2) \<Rightarrow>
                (case CmdType_from c of
                  TyOther v \<Rightarrow> (Err (UnknownCommandType (CmdType_into (TyOther v))), src2)
                | cmd \<Rightarrow> (Ok (Some (Header_new cmd)), src2))))"

definition HeaderCodec_decode_eof :: "(bytes, Header option, ProtoError) comp" where
  "HeaderCodec_decode_eof buf = eof_of HeaderCodec_decode buf"

definition HeaderCodec_encode :: "Header \<Rightarrow> (bytes, unit, ProtoError) comp" where
  "HeaderCodec_encode item dst = (Ok (), (dst @ [version item]) @ [CmdType_into (command item)])"

section \<open>Discriminants\<close>

fun known_type :: "CmdType \<Rightarrow> bool" where
  "known_type (TyOther v) = False"
| "known_type _ = True"

lemma CmdType_from_into [simp]: "known_type t \<Longrightarrow> CmdType_from (CmdType_into t) = t"
  by (cases t) (simp_all add: CmdType_from_def)

lemma CmdType_into_from [simp]: "CmdType_into (CmdType_from v) = v"
  by (simp add: CmdType_from_def)

lemma CmdType_from_cases:
  "known_type (CmdType_from v) \<longleftrightarrow> v \<le> 4"
proof -
  have "v \<le> 4 \<longleftrightarrow> unat v \<le> 4"
    by (simp add: word_le_nat_alt)
  also have "\<dots> \<longleftrightarrow> unat v \<in> {0, 1, 2, 3, 4}"
    by auto
  also have "\<dots> \<longleftrightarrow> v = 0 \<or> v = 1 \<or> v = 2 \<or> v = 3 \<or> v = 4"
    by (simp add: word_unat_eq_iff)
  finally show ?thesis
    by (simp add: CmdType_from_def)
qed

lemma CmdType_from_unknown: "\<not> known_type (CmdType_from v) \<Longrightarrow> CmdType_from v = TyOther v"
  by (simp add: CmdType_from_def split: if_splits)

section \<open>The codec contract\<close>

definition header_ok :: "Header \<Rightarrow> bool" where
  "header_ok h \<longleftrightarrow> version h = VER \<and> known_type (command h)"

definition header_wire :: "Header \<Rightarrow> bytes" where
  "header_wire h = [version h, CmdType_into (command h)]"

lemma header_ok_new [simp]: "header_ok (Header_new t) \<longleftrightarrow> known_type t"
  by (simp add: header_ok_def Header_new_def)

lemma header_wire_new: "header_wire (Header_new t) = [VER, CmdType_into t]"
  by (simp add: header_wire_def Header_new_def)

text \<open>The decoder on every input of at least two bytes.\<close>

lemma HeaderCodec_decode_Cons2:
  "HeaderCodec_decode (v # c # rest) =
     (if v \<noteq> VER then (Err (VersionDismatch VER v), c # rest)
      else if known_type (CmdType_from c) then (Ok (Some (Header_new (CmdType_from c))), rest)
      else (Err (UnknownCommandType c), rest))"
  by (cases "CmdType_from c")
     (auto simp: HeaderCodec_decode_def dest: arg_cong [where f = CmdType_into])

lemma HeaderCodec_decode_short: "length src < 2 \<Longrightarrow> HeaderCodec_decode src = (Ok None, src)"
  by (simp add: HeaderCodec_decode_def)

lemma header_cases [case_names short long]:
  fixes src :: bytes
  obtains "length src < 2" | v c rest where "src = v # c # rest"
  by (cases src rule: get_u16.cases) auto

lemma Header_new_command [simp]: "version h = VER \<Longrightarrow> Header_new (command h) = h"
  by (simp add: Header_new_def)

interpretation header: codec HeaderCodec_encode HeaderCodec_decode header_ok header_wire
proof
  fix i dst
  show "HeaderCodec_encode i dst = (Ok (), dst @ header_wire i)"
    by (simp add: HeaderCodec_encode_def header_wire_def)
next
  fix i rest
  assume "header_ok i"
  then show "HeaderCodec_decode (header_wire i @ rest) = (Ok (Some i), rest)"
    by (simp add: header_wire_def header_ok_def HeaderCodec_decode_Cons2)
next
  fix src i rest
  assume "HeaderCodec_decode src = (Ok (Some i), rest)"
  then show "header_ok i \<and> src = header_wire i @ rest"
    by (cases src rule: header_cases)
       (auto simp: HeaderCodec_decode_short HeaderCodec_decode_Cons2 header_wire_new split: if_splits)
next
  fix i p
  assume "strict_prefix p (header_wire i)"
  then have "length p < 2"
    by (auto dest: strict_prefix_length_less simp: header_wire_def)
  then show "HeaderCodec_decode p = (Ok None, p)"
    by (rule HeaderCodec_decode_short)
next
  fix src rest
  assume "HeaderCodec_decode src = (Ok None, rest)"
  then show "rest = src"
    by (cases src rule: header_cases)
       (auto simp: HeaderCodec_decode_short HeaderCodec_decode_Cons2 split: if_splits)
next
  fix src
  show "fst (HeaderCodec_decode src) \<noteq> Panic"
    by (cases src rule: header_cases)
       (auto simp: HeaderCodec_decode_short HeaderCodec_decode_Cons2)
qed

text \<open>
  The header decoder on every input. Fewer than two bytes ask for more and are kept. Otherwise a
  wrong version is refused after one byte is consumed, an unknown command type after two, and
  the rest is a header that leaves exactly what follows it.
\<close>

theorem HeaderCodec_decode_every_input:
  "HeaderCodec_decode src = (case src of
     v # c # rest \<Rightarrow>
       if v \<noteq> VER then (Err (VersionDismatch VER v), c # rest)
       else if c \<le> 4 then (Ok (Some \<lparr>version = VER, command = CmdType_from c\<rparr>), rest)
       else (Err (UnknownCommandType c), rest)
   | _ \<Rightarrow> (Ok None, src))"
  by (cases src rule: get_u16.cases)
     (simp_all add: HeaderCodec_decode_Cons2 HeaderCodec_decode_short CmdType_from_cases Header_new_def)

text \<open>
  The end-of-input variant of the header decoder: a header that was encoded decodes to itself,
  and every proper prefix of it, which the streaming decoder waits on, is an error.
\<close>

theorem HeaderCodec_decode_eof_round_trip:
  assumes "header_ok h" and "strict_prefix p (snd (HeaderCodec_encode h []))"
  shows "HeaderCodec_decode_eof (snd (HeaderCodec_encode h []) @ rest) = (Ok (Some h), rest) \<and>
    HeaderCodec_decode p = (Ok None, p) \<and> HeaderCodec_decode_eof p = (Err BytesRemaining, p)"
  using assms by (simp add: HeaderCodec_decode_eof_def header.encode_wire header.eof_wire header.eof_short header.decode_short)

theorem HeaderCodec_decode_eof_round_trip_witness:
  "HeaderCodec_decode_eof ([5, 3] @ [9]) = (Ok (Some (Header_new TyDissociate)), [9]) \<and>
   HeaderCodec_decode_eof [5] = (Err BytesRemaining, [5])"
  using HeaderCodec_decode_eof_round_trip [of "Header_new TyDissociate" "[5]" "[9]"]
  by (simp add: header.encode_wire header_wire_new VER_def strict_prefix_def)

end
