(* ===== verification/Cmd_Codec.thy ===== *)
theory Cmd_Codec
  imports Header_Codec
begin

text \<open>
  \<^verbatim>\<open>crates/wind-tuic/src/proto/cmd.rs\<close>: the commands and the codec selected by a command
  type. A \<^verbatim>\<open>Uuid\<close> is its 16 bytes and a token its 32 bytes; \<open>command_wf\<close> states those
  lengths, which the array types of the source guarantee.
\<close>

type_synonym uuid = bytes
type_synonym token = bytes

datatype Command =
    Auth (cmd_uuid: uuid) (cmd_token: token)
  | Connect
  | Packet (cmd_assoc_id: u16) (cmd_pkt_id: u16) (cmd_frag_total: u8) (cmd_frag_id: u8) (cmd_size: u16)
  | Dissociate (cmd_assoc: u16)
  | Heartbeat

text \<open>\<^verbatim>\<open>impl From<&Command> for CmdType\<close> of \<^verbatim>\<open>header.rs\<close>.\<close>

fun CmdType_of_Command :: "Command \<Rightarrow> CmdType" where
  "CmdType_of_Command (Auth u t) = TyAuth"
| "CmdType_of_Command Connect = TyConnect"
| "CmdType_of_Command (Packet a p ft fi s) = TyPacket"
| "CmdType_of_Command (Dissociate a) = TyDissociate"
| "CmdType_of_Command Heartbeat = TyHeartbeat"

definition decode_auth :: "(bytes, Command option, ProtoError) comp" where
  "decode_auth src =
     (if length src < 16 + 32 then (Ok None, src)
      else case copy_to_slice 16 src of
        None \<Rightarrow> (Panic, src)
      | Some (uuid, src1) \<Rightarrow>
          (case copy_to_slice 32 src1 of
            None \<Rightarrow> (Panic, src1)
          | Some (token, src2) \<Rightarrow> (Ok (Some (Auth uuid token)), src2)))"

definition decode_packet :: "(bytes, Command option, ProtoError) comp" where
  "decode_packet src =
     (if length src < 8 then (Ok None, src)
      else case get_u16 src of
        None \<Rightarrow> (Panic, src)
      | Some (assoc_id, src1) \<Rightarrow>
          (case get_u16 src1 of
            None \<Rightarrow> (Panic, src1)
          | Some (pkt_id, src2) \<Rightarrow>
              (case get_u8 src2 of
                None \<Rightarrow> (Panic, src2)
              | Some (frag_total, src3) \<Rightarrow>
                  (case get_u8 src3 of
                    None \<Rightarrow> (Panic, src3)
                  | Some (frag_id, src4) \<Rightarrow>
                      (case get_u16 src4 of
                        None \<Rightarrow> (Panic, src4)
                      | Some (sz, src5) \<Rightarrow>
                          (Ok (Some (Packet assoc_id pkt_id frag_total frag_id sz)), src5))))))"

definition decode_dissociate :: "(bytes, Command option, ProtoError) comp" where
  "decode_dissociate src =
     (if length src < 2 then (Ok None, src)
      else case get_u16 src of
        None \<Rightarrow> (Panic, src)
      | Some (assoc_id, src1) \<Rightarrow> (Ok (Some (Dissociate assoc_id)), src1))"

fun CmdCodec_decode :: "CmdType \<Rightarrow> (bytes, Command option, ProtoError) comp" where
  "CmdCodec_decode TyAuth src = decode_auth src"
| "CmdCodec_decode TyConnect src = (Ok (Some Connect), src)"
| "CmdCodec_decode TyPacket src = decode_packet src"
| "CmdCodec_decode TyDissociate src = decode_dissociate src"
| "CmdCodec_decode TyHeartbeat src = (Ok (Some Heartbeat), src)"
| "CmdCodec_decode (TyOther value) src = (Err (UnknownCommandType value), src)"

definition CmdCodec_decode_eof :: "CmdType \<Rightarrow> (bytes, Command option, ProtoError) comp" where
  "CmdCodec_decode_eof t buf = eof_of (CmdCodec_decode t) buf"

text \<open>The encoder looks at the command only, not at the type the codec was made for.\<close>

fun CmdCodec_encode :: "CmdType \<Rightarrow> Command \<Rightarrow> (bytes, unit, ProtoError) comp" where
  "CmdCodec_encode t (Auth uuid token) dst = (Ok (), (dst @ uuid) @ token)"
| "CmdCodec_encode t Connect dst = (Ok (), dst)"
| "CmdCodec_encode t (Packet assoc_id pkt_id frag_total frag_id sz) dst =
     (Ok (), ((((dst @ u16_to_be_bytes assoc_id) @ u16_to_be_bytes pkt_id) @ [frag_total])
        @ [frag_id]) @ u16_to_be_bytes sz)"
| "CmdCodec_encode t (Dissociate assoc_id) dst = (Ok (), dst @ u16_to_be_bytes assoc_id)"
| "CmdCodec_encode t Heartbeat dst = (Ok (), dst)"

section \<open>The codec contract\<close>

fun command_wf :: "Command \<Rightarrow> bool" where
  "command_wf (Auth u t) \<longleftrightarrow> length u = 16 \<and> length t = 32"
| "command_wf _ \<longleftrightarrow> True"

definition cmd_ok :: "CmdType \<Rightarrow> Command \<Rightarrow> bool" where
  "cmd_ok t c \<longleftrightarrow> CmdType_of_Command c = t \<and> command_wf c"

fun cmd_wire :: "Command \<Rightarrow> bytes" where
  "cmd_wire (Auth u t) = u @ t"
| "cmd_wire Connect = []"
| "cmd_wire (Packet a p ft fi s) =
     u16_to_be_bytes a @ u16_to_be_bytes p @ [ft, fi] @ u16_to_be_bytes s"
| "cmd_wire (Dissociate a) = u16_to_be_bytes a"
| "cmd_wire Heartbeat = []"

lemma known_type_of_Command [simp]: "known_type (CmdType_of_Command c)"
  by (cases c) simp_all

lemma cmd_ok_type [simp]: "cmd_ok (CmdType_of_Command c) c \<longleftrightarrow> command_wf c"
  by (simp add: cmd_ok_def)

lemma cmd_ok_iff [simp]:
  "cmd_ok t (Auth u k) \<longleftrightarrow> t = TyAuth \<and> length u = 16 \<and> length k = 32"
  "cmd_ok t Connect \<longleftrightarrow> t = TyConnect"
  "cmd_ok t (Packet a p ft fi s) \<longleftrightarrow> t = TyPacket"
  "cmd_ok t (Dissociate a) \<longleftrightarrow> t = TyDissociate"
  "cmd_ok t Heartbeat \<longleftrightarrow> t = TyHeartbeat"
  by (auto simp: cmd_ok_def)

lemma CmdCodec_encode_wire [simp]: "CmdCodec_encode t c dst = (Ok (), dst @ cmd_wire c)"
  by (cases c) simp_all

text \<open>How many bytes each command type asks for.\<close>

fun cmd_len :: "CmdType \<Rightarrow> nat" where
  "cmd_len TyAuth = 48"
| "cmd_len TyPacket = 8"
| "cmd_len TyDissociate = 2"
| "cmd_len _ = 0"

lemma length_cmd_wire: "cmd_ok t c \<Longrightarrow> length (cmd_wire c) = cmd_len t"
  by (cases c) auto

lemma decode_auth_enough:
  "48 \<le> length src \<Longrightarrow>
     decode_auth src = (Ok (Some (Auth (take 16 src) (take 32 (drop 16 src)))), drop 48 src)"
  by (simp add: decode_auth_def copy_to_slice_def add.commute)

lemma decode_packet_wire:
  "decode_packet (u16_to_be_bytes a @ u16_to_be_bytes p @ ft # fi # u16_to_be_bytes s @ rest) =
     (Ok (Some (Packet a p ft fi s)), rest)"
  by (simp add: decode_packet_def)

lemma packet_fields:
  assumes "8 \<le> length src"
  obtains a p ft fi s rest where
    "src = u16_to_be_bytes a @ u16_to_be_bytes p @ ft # fi # u16_to_be_bytes s @ rest"
proof -
  obtain b1 b2 b3 b4 b5 b6 b7 b8 rest where "src = b1 # b2 # b3 # b4 # b5 # b6 # b7 # b8 # rest"
    using assms by (auto simp: numeral_eq_Suc Suc_le_length_iff)
  then have "src = u16_to_be_bytes (u16_from_be_bytes b1 b2) @ u16_to_be_bytes (u16_from_be_bytes b3 b4)
      @ b5 # b6 # u16_to_be_bytes (u16_from_be_bytes b7 b8) @ rest"
    by simp
  then show thesis by (rule that)
qed

lemma CmdCodec_decode_short:
  "known_type t \<Longrightarrow> length src < cmd_len t \<Longrightarrow> CmdCodec_decode t src = (Ok None, src)"
  by (cases t) (simp_all add: decode_auth_def decode_packet_def decode_dissociate_def)

text \<open>With enough bytes a known command type always decodes.\<close>

lemma CmdCodec_decode_enough:
  assumes "known_type t" and "cmd_len t \<le> length src"
  obtains c rest where "CmdCodec_decode t src = (Ok (Some c), rest)"
    and "cmd_ok t c" and "src = cmd_wire c @ rest"
proof (cases t)
  case TyAuth
  have "src = (take 16 src @ take 32 (drop 16 src)) @ drop 48 src"
    using take_add [of 16 32 src] append_take_drop_id [of 48 src] by simp
  with TyAuth assms(2) show thesis
    by (intro that [of "Auth (take 16 src) (take 32 (drop 16 src))" "drop 48 src"])
       (simp_all add: decode_auth_enough)
next
  case TyPacket
  with assms(2) obtain a p ft fi s rest where
    "src = u16_to_be_bytes a @ u16_to_be_bytes p @ ft # fi # u16_to_be_bytes s @ rest"
    by (auto elim: packet_fields)
  with TyPacket show thesis
    by (intro that [of "Packet a p ft fi s" rest]) (simp_all add: decode_packet_wire)
next
  case TyDissociate
  with assms(2) obtain a rest where "get_u16 src = Some (a, rest)"
    using get_u16_long [of src] by auto
  with TyDissociate assms(2) show thesis
    by (intro that [of "Dissociate a" rest]) (simp_all add: decode_dissociate_def get_u16_Some_iff)
qed (use assms that [of Connect src] that [of Heartbeat src] in simp_all)

lemma CmdCodec_decode_cases:
  "fst (CmdCodec_decode t src) \<noteq> Panic \<and>
   (CmdCodec_decode t src = (Ok (Some c), rest) \<longrightarrow> cmd_ok t c \<and> src = cmd_wire c @ rest) \<and>
   (CmdCodec_decode t src = (Ok None, rest) \<longrightarrow> rest = src)"
proof (cases "known_type t \<and> cmd_len t \<le> length src")
  case True
  then obtain c' rest' where "CmdCodec_decode t src = (Ok (Some c'), rest')"
    and "cmd_ok t c'" and "src = cmd_wire c' @ rest'"
    by (auto elim: CmdCodec_decode_enough)
  then show ?thesis by auto
next
  case False
  then consider "known_type t" "length src < cmd_len t" | v where "t = TyOther v"
    by (cases t) auto
  then show ?thesis
    by cases (auto simp: CmdCodec_decode_short)
qed

lemma CmdCodec_decode_wire:
  assumes "cmd_ok t c"
  shows "CmdCodec_decode t (cmd_wire c @ rest) = (Ok (Some c), rest)"
proof (cases c)
  case (Auth u k)
  with assms show ?thesis by (simp add: decode_auth_def copy_to_slice_def)
next
  case (Dissociate a)
  with assms show ?thesis by (simp add: decode_dissociate_def)
qed (use assms in \<open>simp_all add: decode_packet_wire\<close>)

interpretation cmd: codec "CmdCodec_encode t" "CmdCodec_decode t" "cmd_ok t" cmd_wire
  for t
proof
  fix i p
  assume ok: "cmd_ok t i" and "strict_prefix p (cmd_wire i)"
  then have "length p < cmd_len t"
    using length_cmd_wire [OF ok] by (auto dest: strict_prefix_length_less)
  moreover have "known_type t"
    using ok by (auto simp: cmd_ok_def)
  ultimately show "CmdCodec_decode t p = (Ok None, p)"
    by (simp add: CmdCodec_decode_short)
qed (use CmdCodec_decode_cases CmdCodec_decode_wire in auto)

text \<open>
  C22. The command decoder accepts exactly what the command encoder produces. For every command type
  and every input, the decoder yields a command and leaves a rest if and only if the command
  belongs to the type and the input is its encoding followed by that rest.
\<close>

theorem CmdCodec_decode_exact:
  "CmdCodec_decode t src = (Ok (Some c), rest) \<longleftrightarrow>
     cmd_ok t c \<and> src = snd (CmdCodec_encode t c []) @ rest"
  by (simp add: cmd.decode_iff)

text \<open>
  Commands survive any split of the byte stream. When an encoded command arrives in two portions,
  the decoder waits on the first without consuming it, and yields the command once the second is
  there, whatever follows.
\<close>

theorem CmdCodec_split_arrival:
  assumes "cmd_ok t c" and "snd (CmdCodec_encode t c []) = p @ q" and "q \<noteq> []"
  shows "CmdCodec_decode t p = (Ok None, p) \<and> CmdCodec_decode t (p @ q @ rest) = (Ok (Some c), rest) \<and>
    CmdCodec_decode_eof t p = (Err BytesRemaining, p)"
  using cmd.split_arrival [of t c p q rest] assms by (simp add: CmdCodec_decode_eof_def eof_of_def)

theorem CmdCodec_split_arrival_witness:
  "CmdCodec_decode TyPacket [0, 5, 1] = (Ok None, [0, 5, 1]) \<and>
   CmdCodec_decode TyPacket ([0, 5, 1] @ [2, 1, 0, 0, 4] @ [9]) = (Ok (Some (Packet 5 258 1 0 4)), [9])"
  using CmdCodec_split_arrival [of TyPacket "Packet 5 258 1 0 4" "[0, 5, 1]" "[2, 1, 0, 0, 4]" "[9]"]
  by (simp add: u16_to_be_bytes_def)

end
