(* ===== verification/Addr_Codec.thy ===== *)
theory Addr_Codec
  imports Codec
begin

text \<open>
  \<^verbatim>\<open>crates/wind-tuic/src/proto/addr.rs\<close>: TUIC addresses and their codec. The decoder
  peeks at the type and length bytes before it consumes anything, so that a partial address
  leaves the buffer as it was.
\<close>

datatype Address =
    NoAddr
  | Domain string u16
  | IPv4 Ipv4Addr u16
  | IPv6 Ipv6Addr u16

datatype AddressType = AtNone | AtDomain | AtIPv4 | AtIPv6 | AtOther u8

definition AddressType_from :: "u8 \<Rightarrow> AddressType" where
  "AddressType_from v =
     (if v = 255 then AtNone
      else if v = 0 then AtDomain
      else if v = 1 then AtIPv4
      else if v = 2 then AtIPv6
      else AtOther v)"

fun AddressType_into :: "AddressType \<Rightarrow> u8" where
  "AddressType_into AtNone = 255"
| "AddressType_into AtDomain = 0"
| "AddressType_into AtIPv4 = 1"
| "AddressType_into AtIPv6 = 2"
| "AddressType_into (AtOther v) = v"

text \<open>\<^verbatim>\<open>impl From<TargetAddr> for Address\<close>\<close>

fun Address_from :: "TargetAddr \<Rightarrow> Address" where
  "Address_from (TDomain s p) = Domain s p"
| "Address_from (TIPv4 a p) = IPv4 a p"
| "Address_from (TIPv6 a p) = IPv6 a p"

definition decode_ip :: "nat \<Rightarrow> (bytes \<Rightarrow> u16 \<Rightarrow> Address) \<Rightarrow> (bytes, Address option, ProtoError) comp" where
  "decode_ip n mk src =
     (if length src < 1 + n + 2 then (Ok None, src)
      else case advance 1 src of
        None \<Rightarrow> (Panic, src)
      | Some src1 \<Rightarrow>
          (case copy_to_slice n src1 of
            None \<Rightarrow> (Panic, src1)
          | Some (octets, src2) \<Rightarrow>
              (case get_u16 src2 of
                None \<Rightarrow> (Panic, src2)
              | Some (pt, src3) \<Rightarrow> (Ok (Some (mk octets pt)), src3))))"

definition decode_domain :: "(bytes, Address option, ProtoError) comp" where
  "decode_domain src =
     (if length src < 1 + 1 then (Ok None, src)
      else case index_at src 1 of
        None \<Rightarrow> (Panic, src)
      | Some len_byte \<Rightarrow>
          let domain_len = unat len_byte in
          if length src < 1 + 1 + domain_len + 2 then (Ok None, src)
          else (case advance 2 src of
            None \<Rightarrow> (Panic, src)
          | Some src1 \<Rightarrow>
              let domain = take domain_len src1 in
              (case from_utf8 domain of
                None \<Rightarrow> (Err (FailParseDomain domain), src1)
              | Some s \<Rightarrow>
                  (case advance domain_len src1 of
                    None \<Rightarrow> (Panic, src1)
                  | Some src2 \<Rightarrow>
                      (case get_u16 src2 of
                        None \<Rightarrow> (Panic, src2)
                      | Some (pt, src3) \<Rightarrow> (Ok (Some (Domain s pt)), src3))))))"

definition AddressCodec_decode :: "(bytes, Address option, ProtoError) comp" where
  "AddressCodec_decode src =
     (if src = [] then (Ok None, src)
      else case index_at src 0 of
        None \<Rightarrow> (Panic, src)
      | Some b \<Rightarrow>
          (case AddressType_from b of
            AtOther v \<Rightarrow> (Err (UnknownAddressType (AddressType_into (AtOther v))), src)
          | AtNone \<Rightarrow>
              (case advance 1 src of
                None \<Rightarrow> (Panic, src)
              | Some src1 \<Rightarrow> (Ok (Some NoAddr), src1))
          | AtIPv4 \<Rightarrow> decode_ip 4 (\<lambda>o4 pt. IPv4 (ipv4_from_octets o4) pt) src
          | AtIPv6 \<Rightarrow> decode_ip 16 (\<lambda>o6 pt. IPv6 (ipv6_from_octets o6) pt) src
          | AtDomain \<Rightarrow> decode_domain src))"

definition AddressCodec_decode_eof :: "(bytes, Address option, ProtoError) comp" where
  "AddressCodec_decode_eof buf = eof_of AddressCodec_decode buf"

fun AddressCodec_encode :: "Address \<Rightarrow> (bytes, unit, ProtoError) comp" where
  "AddressCodec_encode NoAddr dst = (Ok (), dst @ [AddressType_into AtNone])"
| "AddressCodec_encode (IPv4 a pt) dst =
     (Ok (), ((dst @ [AddressType_into AtIPv4]) @ octets4 a) @ u16_to_be_bytes pt)"
| "AddressCodec_encode (IPv6 a pt) dst =
     (Ok (), ((dst @ [AddressType_into AtIPv6]) @ octets6 a) @ u16_to_be_bytes pt)"
| "AddressCodec_encode (Domain domain pt) dst =
     (if length domain > 255 then (Err (DomainTooLong domain), dst)
      else (Ok (), (((dst @ [AddressType_into AtDomain]) @ [of_nat (length domain)])
          @ as_bytes domain) @ u16_to_be_bytes pt))"

section \<open>The codec contract\<close>

text \<open>
  A \<^verbatim>\<open>String\<close> is UTF-8 by construction; what the encoder itself checks is the length.
\<close>

fun addr_ok :: "Address \<Rightarrow> bool" where
  "addr_ok (Domain d p) \<longleftrightarrow> length d \<le> 255 \<and> utf8_valid (as_bytes d)"
| "addr_ok _ \<longleftrightarrow> True"

fun addr_wire :: "Address \<Rightarrow> bytes" where
  "addr_wire NoAddr = [255]"
| "addr_wire (IPv4 a p) = 1 # octets4 a @ u16_to_be_bytes p"
| "addr_wire (IPv6 a p) = 2 # octets6 a @ u16_to_be_bytes p"
| "addr_wire (Domain d p) = 0 # of_nat (length d) # as_bytes d @ u16_to_be_bytes p"

fun addr_size :: "Address \<Rightarrow> nat" where
  "addr_size NoAddr = 1"
| "addr_size (IPv4 a p) = 7"
| "addr_size (IPv6 a p) = 19"
| "addr_size (Domain d p) = 4 + length d"

lemma length_addr_wire: "length (addr_wire a) = addr_size a"
  by (cases a) simp_all

lemma AddressCodec_encode_wire:
  "addr_ok a \<Longrightarrow> AddressCodec_encode a dst = (Ok (), dst @ addr_wire a)"
  by (cases a) simp_all

lemma AddressCodec_encode_too_long:
  "255 < length d \<Longrightarrow> AddressCodec_encode (Domain d p) dst = (Err (DomainTooLong d), dst)"
  by simp

section \<open>The two address shapes\<close>

lemma decode_ip_short: "length src < 3 + n \<Longrightarrow> decode_ip n mk src = (Ok None, src)"
  by (simp add: decode_ip_def)

lemma decode_ip_wire:
  "length octets = n \<Longrightarrow> decode_ip n mk (t # octets @ u16_to_be_bytes p @ rest) = (Ok (Some (mk octets p)), rest)"
  by (simp add: decode_ip_def advance_def copy_to_slice_def)

lemma ip_fields:
  assumes "3 + n \<le> length (t # src)"
  obtains octets p rest where "src = octets @ u16_to_be_bytes p @ rest" and "length octets = n"
proof -
  have "2 \<le> length (drop n src)"
    using assms by simp
  then obtain p rest where "get_u16 (drop n src) = Some (p, rest)"
    using get_u16_long by blast
  then have "src = take n src @ u16_to_be_bytes p @ rest"
    using append_take_drop_id [of n src] by (simp add: get_u16_Some_iff)
  moreover have "length (take n src) = n"
    using assms by simp
  ultimately show thesis by (rule that)
qed

lemma decode_domain_wire:
  assumes "length d = unat l"
  shows "decode_domain (t # l # d @ u16_to_be_bytes p @ rest) = (case from_utf8 d of
      None \<Rightarrow> (Err (FailParseDomain d), d @ u16_to_be_bytes p @ rest)
    | Some s \<Rightarrow> (Ok (Some (Domain s p)), rest))"
  using assms
  by (simp add: decode_domain_def advance_def Let_def numeral_2_eq_2 split: option.split)

lemma decode_domain_short1: "length src < 2 \<Longrightarrow> decode_domain src = (Ok None, src)"
  by (simp add: decode_domain_def)

lemma decode_domain_short2:
  "length src < unat l + 2 \<Longrightarrow> decode_domain (t # l # src) = (Ok None, t # l # src)"
  by (simp add: decode_domain_def Let_def)

text \<open>Every input of the domain decoder is one of three.\<close>

lemma domain_cases [case_names short1 short2 wire]:
  fixes src :: bytes
  obtains "length (t # src) < 2"
  | l src' where "src = l # src'" and "length src' < unat l + 2"
  | l d p rest where "src = l # d @ u16_to_be_bytes p @ rest" and "length d = unat l"
proof (cases src)
  case Nil
  then show thesis by (simp add: that(1))
next
  case (Cons l src')
  show thesis
  proof (cases "length src' < unat l + 2")
    case True
    with Cons show thesis by (rule that(2))
  next
    case False
    then obtain d p rest where "src' = d @ u16_to_be_bytes p @ rest" and "length d = unat l"
      using ip_fields [of "unat l" l src'] by auto
    with Cons show thesis by (intro that(3)) simp_all
  qed
qed

section \<open>The decoder by the first byte\<close>

lemma AddressType_from_values [simp]:
  "AddressType_from 255 = AtNone" "AddressType_from 0 = AtDomain"
  "AddressType_from 1 = AtIPv4" "AddressType_from 2 = AtIPv6"
  by (simp_all add: AddressType_from_def)

lemma AddressType_into_from [simp]: "AddressType_into (AddressType_from v) = v"
  by (simp add: AddressType_from_def)

lemma AddressType_from_eq:
  "AddressType_from v = AtNone \<longleftrightarrow> v = 255"
  "AddressType_from v = AtDomain \<longleftrightarrow> v = 0"
  "AddressType_from v = AtIPv4 \<longleftrightarrow> v = 1"
  "AddressType_from v = AtIPv6 \<longleftrightarrow> v = 2"
  by (auto simp: AddressType_from_def)

lemma AddressCodec_decode_Nil [simp]: "AddressCodec_decode [] = (Ok None, [])"
  by (simp add: AddressCodec_decode_def)

lemma AddressCodec_decode_Cons:
  "AddressCodec_decode (t # src) = (case AddressType_from t of
      AtOther v \<Rightarrow> (Err (UnknownAddressType t), t # src)
    | AtNone \<Rightarrow> (Ok (Some NoAddr), src)
    | AtIPv4 \<Rightarrow> decode_ip 4 (\<lambda>o4 pt. IPv4 (ipv4_from_octets o4) pt) (t # src)
    | AtIPv6 \<Rightarrow> decode_ip 16 (\<lambda>o6 pt. IPv6 (ipv6_from_octets o6) pt) (t # src)
    | AtDomain \<Rightarrow> decode_domain (t # src))"
  by (auto simp: AddressCodec_decode_def advance_def split: AddressType.split
      dest: arg_cong [where f = AddressType_into])

lemma AddressCodec_decode_wire:
  "addr_ok a \<Longrightarrow> AddressCodec_decode (addr_wire a @ rest) = (Ok (Some a), rest)"
  by (cases a)
     (simp_all add: AddressCodec_decode_Cons decode_ip_wire decode_domain_wire unat_of_nat_u8)

text \<open>The outcomes of the decoder: wait with the buffer kept, an item, or an error.\<close>

lemma decode_ip_outcomes [case_names wait item]:
  obtains "decode_ip n mk (t # src) = (Ok None, t # src)"
  | octets p rest where "decode_ip n mk (t # src) = (Ok (Some (mk octets p)), rest)"
      and "length octets = n" and "src = octets @ u16_to_be_bytes p @ rest"
proof (cases "3 + n \<le> length (t # src)")
  case True
  then obtain octets p rest where "src = octets @ u16_to_be_bytes p @ rest" and "length octets = n"
    by (rule ip_fields)
  then show thesis by (intro that(2)) (simp_all add: decode_ip_wire)
qed (use that(1) in \<open>simp add: decode_ip_short\<close>)

lemma AddressCodec_decode_outcomes [case_names wait item error]:
  obtains "AddressCodec_decode src = (Ok None, src)"
  | a rest where "AddressCodec_decode src = (Ok (Some a), rest)"
      and "addr_ok a" and "src = addr_wire a @ rest"
  | e rest where "AddressCodec_decode src = (Err e, rest)"
proof (cases src)
  case Nil
  then show thesis by (simp add: that(1))
next
  case (Cons t src')
  note dec = AddressCodec_decode_Cons [of t src'] and tag = AddressType_from_eq [of t]
  show thesis
  proof (cases "AddressType_from t")
    case AtNone
    with Cons dec tag show thesis by (intro that(2) [of NoAddr src']) simp_all
  next
    case AtDomain
    show thesis
    proof (cases src' rule: domain_cases [where t = t])
      case short1
      with Cons dec AtDomain show thesis by (intro that(1)) (simp add: decode_domain_short1)
    next
      case (short2 l s)
      with Cons dec AtDomain show thesis by (intro that(1)) (simp add: decode_domain_short2)
    next
      case (wire l d p rest)
      show thesis
      proof (cases "from_utf8 d")
        case None
        with wire Cons dec AtDomain show thesis
          by (intro that(3)) (simp add: decode_domain_wire)
      next
        case (Some s)
        then have "utf8_valid (as_bytes s)" and "d = as_bytes s"
          by (auto simp: from_utf8_Some_iff)
        moreover from this(2) wire(2) have "length s = unat l"
          by simp
        ultimately show thesis
          using Some wire Cons dec AtDomain tag unat_u8_le [of l]
          by (intro that(2) [of "Domain s p" rest]) (simp_all add: decode_domain_wire)
      qed
    qed
  next
    case AtIPv4
    show thesis
    proof (cases rule: decode_ip_outcomes [of 4 "\<lambda>o4 pt. IPv4 (ipv4_from_octets o4) pt" t src'])
      case wait
      with Cons dec AtIPv4 show thesis by (intro that(1)) simp
    next
      case (item octets p rest)
      with Cons dec AtIPv4 tag show thesis
        by (intro that(2) [of "IPv4 (ipv4_from_octets octets) p" rest]) simp_all
    qed
  next
    case AtIPv6
    show thesis
    proof (cases rule: decode_ip_outcomes [of 16 "\<lambda>o6 pt. IPv6 (ipv6_from_octets o6) pt" t src'])
      case wait
      with Cons dec AtIPv6 show thesis by (intro that(1)) simp
    next
      case (item octets p rest)
      with Cons dec AtIPv6 tag show thesis
        by (intro that(2) [of "IPv6 (ipv6_from_octets octets) p" rest]) simp_all
    qed
  next
    case (AtOther v)
    with Cons dec show thesis by (intro that(3)) simp
  qed
qed

lemma AddressCodec_decode_short:
  assumes ok: "addr_ok a" and pre: "strict_prefix p (addr_wire a)"
  shows "AddressCodec_decode p = (Ok None, p)"
proof (cases p)
  case (Cons t p')
  obtain q where q: "addr_wire a = t # p' @ q"
    using strict_prefix_decomp [OF pre] Cons by auto
  have len: "length (t # p') < addr_size a"
    using strict_prefix_length_less [OF pre] Cons by (simp add: length_addr_wire)
  show ?thesis
  proof (cases a)
    case (Domain d pt)
    show ?thesis
    proof (cases p')
      case Nil
      with Cons Domain q show ?thesis
        by (simp add: AddressCodec_decode_Cons decode_domain_short1)
    next
      case (Cons l p'')
      with \<open>p = t # p'\<close> Domain q len ok show ?thesis
        by (auto simp: AddressCodec_decode_Cons decode_domain_short2 unat_of_nat_u8)
    qed
  qed (use Cons q len in \<open>simp_all add: AddressCodec_decode_Cons decode_ip_short\<close>)
qed simp

interpretation addr: codec AddressCodec_encode AddressCodec_decode addr_ok addr_wire
proof
  fix src a rest
  assume "AddressCodec_decode src = (Ok (Some a), rest)"
  then show "addr_ok a \<and> src = addr_wire a @ rest"
    by (cases src rule: AddressCodec_decode_outcomes) simp_all
next
  fix src rest
  assume "AddressCodec_decode src = (Ok None, rest)"
  then show "rest = src"
    by (cases src rule: AddressCodec_decode_outcomes) simp_all
next
  fix src
  show "fst (AddressCodec_decode src) \<noteq> Panic"
    by (cases src rule: AddressCodec_decode_outcomes) simp_all
qed (simp_all add: AddressCodec_encode_wire AddressCodec_decode_wire AddressCodec_decode_short)

text \<open>
  C21. The address decoder accepts exactly what the address encoder produces. On every input it yields
  an address and leaves a rest if and only if the address is one the encoder takes (a domain has
  at most 255 bytes) and the input is its encoding followed by that rest; it never panics.
\<close>

theorem AddressCodec_decode_exact:
  "(AddressCodec_decode src = (Ok (Some a), rest) \<longleftrightarrow>
      addr_ok a \<and> src = snd (AddressCodec_encode a []) @ rest) \<and>
   fst (AddressCodec_decode src) \<noteq> Panic"
proof -
  have "addr_ok a \<Longrightarrow> snd (AddressCodec_encode a []) = addr_wire a"
    by (simp add: addr.encode_wire)
  then show ?thesis
    using addr.decode_iff [of src a rest] addr.decode_no_panic [of src] by auto
qed

text \<open>
  Addresses survive any split of the byte stream: the decoder waits on a first portion without
  consuming it and yields the address once the second is there, whatever follows. At the end of
  the input the first portion alone is an error.
\<close>

theorem AddressCodec_split_arrival:
  assumes "addr_ok a" and "snd (AddressCodec_encode a []) = p @ q" and "q \<noteq> []"
  shows "AddressCodec_decode p = (Ok None, p) \<and> AddressCodec_decode (p @ q @ rest) = (Ok (Some a), rest) \<and>
    AddressCodec_decode_eof p = (Err BytesRemaining, p)"
  using addr.split_arrival [of a p q rest] assms
  by (simp add: addr.encode_wire AddressCodec_decode_eof_def eof_of_def)

theorem AddressCodec_split_arrival_witness:
  "AddressCodec_decode [0, 3, 97] = (Ok None, [0, 3, 97]) \<and>
   AddressCodec_decode ([0, 3, 97] @ [46, 98, 0, 80] @ [1, 2]) = (Ok (Some (Domain ''a.b'' 80)), [1, 2])"
  using AddressCodec_split_arrival [of "Domain ''a.b'' 80" "[0, 3, 97]" "[46, 98, 0, 80]" "[1, 2]"]
  by (simp add: as_bytes_def u16_to_be_bytes_def utf8_valid_ascii_list)

end
