(* ===== verification/Copy_Io.thy ===== *)
theory Copy_Io
  imports Prelude
begin

text \<open>
  \<^verbatim>\<open>copy_io\<close> of \<^verbatim>\<open>crates/wind-core/src/io.rs\<close>: the relay between two byte streams. Each
  turn of its loop waits for whichever stream is readable first; the environment is the
  sequence of turns, each with what the read returned and how the write of those bytes
  went. A run that has not met a \<^verbatim>\<open>break\<close> when the sequence ends is still relaying.
\<close>

definition BUFFER_SIZE :: nat where
  "BUFFER_SIZE = 16 * 1024"

type_synonym io_error = string

datatype read_result = ReadOk bytes | ReadErr io_error

datatype io_turn =
    A2B read_result "(io_error \<times> nat) option"
  | B2A read_result "(io_error \<times> nat) option"

record relay =
  a2b_num :: nat
  b2a_num :: nat
  last_err :: "io_error option"
  to_a :: bytes
  to_b :: bytes

definition relay_start :: relay where
  "relay_start = \<lparr>a2b_num = 0, b2a_num = 0, last_err = None, to_a = [], to_b = []\<rparr>"

text \<open>
  One turn: the new state and whether the loop goes on. A \<^verbatim>\<open>write_all\<close> that fails may
  have delivered some first bytes of the chunk; the environment says how many.
\<close>

fun relay_turn :: "relay \<Rightarrow> io_turn \<Rightarrow> relay \<times> bool" where
  "relay_turn s (A2B (ReadOk bs) w) =
     (if length bs = 0 then (s, False)
      else let s1 = s\<lparr>a2b_num := a2b_num s + length bs\<rparr> in
        (case w of
          Some (err, n) \<Rightarrow> (s1\<lparr>last_err := Some err, to_b := to_b s @ take n bs\<rparr>, False)
        | None \<Rightarrow> (s1\<lparr>to_b := to_b s @ bs\<rparr>, True)))"
| "relay_turn s (A2B (ReadErr err) w) = (s\<lparr>last_err := Some err\<rparr>, False)"
| "relay_turn s (B2A (ReadOk bs) w) =
     (if length bs = 0 then (s, False)
      else let s1 = s\<lparr>b2a_num := b2a_num s + length bs\<rparr> in
        (case w of
          Some (err, n) \<Rightarrow> (s1\<lparr>last_err := Some err, to_a := to_a s @ take n bs\<rparr>, False)
        | None \<Rightarrow> (s1\<lparr>to_a := to_a s @ bs\<rparr>, True)))"
| "relay_turn s (B2A (ReadErr err) w) = (s\<lparr>last_err := Some err\<rparr>, False)"

fun relay_loop :: "relay \<Rightarrow> io_turn list \<Rightarrow> relay \<times> bool" where
  "relay_loop s [] = (s, True)"
| "relay_loop s (t # ts) =
     (case relay_turn s t of
        (s', True) \<Rightarrow> relay_loop s' ts
      | (s', False) \<Rightarrow> (s', False))"

text \<open>The result, once the loop has been left.\<close>

definition copy_io :: "io_turn list \<Rightarrow> (nat \<times> nat \<times> io_error option) option" where
  "copy_io turns = (case relay_loop relay_start turns of
     (s, True) \<Rightarrow> None
   | (s, False) \<Rightarrow> Some (a2b_num s, b2a_num s, last_err s))"

section \<open>What the relay has forwarded\<close>

text \<open>Bytes read from either side, in order, up to the first turn that ends the loop.\<close>

fun ends :: "io_turn \<Rightarrow> bool" where
  "ends (A2B (ReadOk bs) w) \<longleftrightarrow> bs = [] \<or> w \<noteq> None"
| "ends (B2A (ReadOk bs) w) \<longleftrightarrow> bs = [] \<or> w \<noteq> None"
| "ends _ \<longleftrightarrow> True"

fun from_a :: "io_turn \<Rightarrow> bytes" where
  "from_a (A2B (ReadOk bs) w) = bs"
| "from_a _ = []"

fun from_b :: "io_turn \<Rightarrow> bytes" where
  "from_b (B2A (ReadOk bs) w) = bs"
| "from_b _ = []"

fun turn_err :: "io_turn \<Rightarrow> io_error option" where
  "turn_err (A2B (ReadErr e) w) = Some e"
| "turn_err (B2A (ReadErr e) w) = Some e"
| "turn_err (A2B (ReadOk bs) w) = (if bs = [] then None else map_option fst w)"
| "turn_err (B2A (ReadOk bs) w) = (if bs = [] then None else map_option fst w)"

text \<open>What the last turn still delivered.\<close>

fun tail_to_b :: "io_turn \<Rightarrow> bytes" where
  "tail_to_b (A2B (ReadOk bs) (Some (e, n))) = take n bs"
| "tail_to_b _ = []"

fun tail_to_a :: "io_turn \<Rightarrow> bytes" where
  "tail_to_a (B2A (ReadOk bs) (Some (e, n))) = take n bs"
| "tail_to_a _ = []"

lemma tail_to_b_prefix: "prefix (tail_to_b t) (from_a t)"
  by (induction t rule: tail_to_b.induct) (auto simp: take_is_prefix)

lemma tail_to_a_prefix: "prefix (tail_to_a t) (from_b t)"
  by (induction t rule: tail_to_a.induct) (auto simp: take_is_prefix)

lemma relay_turn_goes_on: "snd (relay_turn s t) \<longleftrightarrow> \<not> ends t"
  by (induction s t rule: relay_turn.induct) (auto simp: Let_def split: option.splits)

lemma relay_turn_continue:
  "\<not> ends t \<Longrightarrow> relay_turn s t =
     (s\<lparr>a2b_num := a2b_num s + length (from_a t), b2a_num := b2a_num s + length (from_b t),
        to_b := to_b s @ from_a t, to_a := to_a s @ from_b t\<rparr>, True)"
  by (induction s t rule: relay_turn.induct) (auto simp: Let_def split: option.splits)

lemma relay_turn_end:
  "ends t \<Longrightarrow> relay_turn s t =
     (s\<lparr>a2b_num := a2b_num s + length (from_a t), b2a_num := b2a_num s + length (from_b t),
        last_err := (case turn_err t of None \<Rightarrow> last_err s | Some e \<Rightarrow> Some e),
        to_b := to_b s @ tail_to_b t, to_a := to_a s @ tail_to_a t\<rparr>, False)"
  by (induction s t rule: relay_turn.induct) (auto simp: Let_def split: option.split)

lemma relay_loop_running:
  "\<forall>t \<in> set ts. \<not> ends t \<Longrightarrow> relay_loop s ts =
     (s\<lparr>a2b_num := a2b_num s + length (concat (map from_a ts)),
        b2a_num := b2a_num s + length (concat (map from_b ts)),
        to_b := to_b s @ concat (map from_a ts), to_a := to_a s @ concat (map from_b ts)\<rparr>, True)"
  by (induction ts arbitrary: s) (simp_all add: relay_turn_continue)

lemma relay_loop_append:
  "\<forall>t \<in> set ts. \<not> ends t \<Longrightarrow> relay_loop s (ts @ us) = relay_loop (fst (relay_loop s ts)) us"
  by (induction ts arbitrary: s) (simp_all add: relay_turn_continue)

lemma relay_loop_ended:
  assumes "\<forall>t \<in> set ts. \<not> ends t" and "ends u"
  shows "relay_loop s (ts @ u # us) =
     (s\<lparr>a2b_num := a2b_num s + length (concat (map from_a (ts @ [u]))),
        b2a_num := b2a_num s + length (concat (map from_b (ts @ [u]))),
        last_err := (case turn_err u of None \<Rightarrow> last_err s | Some e \<Rightarrow> Some e),
        to_b := to_b s @ concat (map from_a ts) @ tail_to_b u,
        to_a := to_a s @ concat (map from_b ts) @ tail_to_a u\<rparr>, False)"
  using assms
  by (cases s) (simp add: relay_loop_append relay_loop_running relay_turn_end add.assoc split: option.split)

text \<open>Every sequence of turns either never ends the loop or splits at the turn that does.\<close>

lemma turns_split [case_names running ended]:
  obtains "\<forall>t \<in> set ts. \<not> ends t"
  | us u vs where "ts = us @ u # vs" and "\<forall>t \<in> set us. \<not> ends t" and "ends u"
  using split_list_first_prop [of ts ends] by blast

text \<open>
  C24. The relay forwards exactly what it reads. As long as no turn ends the loop, both sides have
  received all bytes read from the other, in order, and \<open>copy_io\<close> has not returned. At the first
  turn that ends it (end of stream, a read error or a write error) \<open>copy_io\<close> returns the numbers of
  bytes read from each side and the error of that turn, if it has one; what was delivered is then
  all that had been read before that turn, followed by what the failing write still delivered.
\<close>

theorem copy_io_forwards:
  assumes "\<forall>t \<in> set us. \<not> ends t" and "ends u"
  shows "copy_io us = None \<and>
    to_b (fst (relay_loop relay_start us)) = concat (map from_a us) \<and>
    to_a (fst (relay_loop relay_start us)) = concat (map from_b us) \<and>
    copy_io (us @ u # vs) = Some (length (concat (map from_a (us @ [u]))), length (concat (map from_b (us @ [u]))), turn_err u) \<and>
    to_b (fst (relay_loop relay_start (us @ u # vs))) = concat (map from_a us) @ tail_to_b u \<and>
    to_a (fst (relay_loop relay_start (us @ u # vs))) = concat (map from_b us) @ tail_to_a u"
  using assms
  by (cases "turn_err u") (simp_all add: copy_io_def relay_loop_running relay_loop_ended relay_start_def)

theorem copy_io_forwards_witness:
  "copy_io [A2B (ReadOk [1, 2]) None, B2A (ReadOk [7]) None, A2B (ReadOk [3]) (Some (''reset'', 0)), B2A (ReadOk []) None] =
     Some (3, 1, Some ''reset'')"
  using copy_io_forwards [of "[A2B (ReadOk [1, 2]) None, B2A (ReadOk [7]) None]"
    "A2B (ReadOk [3]) (Some (''reset'', 0))" "[B2A (ReadOk []) None]"]
  by simp


end
