(* ===== verification/Proto.thy ===== *)
theory Proto
  imports Cmd_Codec Addr_Codec Copy_Io
begin

text \<open>
  \<^verbatim>\<open>crates/wind-tuic/src/proto/mod.rs\<close>: the decoding helpers and the operations a client
  performs on a QUIC connection. The connection is \<^verbatim>\<open>quinn\<close>'s and a parameter of the model:
  a record of what the program observes of it. \<open>outcome\<close> tells, from the operations that have
  succeeded so far, whether the next one fails; \<open>max_datagram_size\<close> may change in the same
  way; \<open>export_keying_material\<close> is the TLS exporter of the session. The state of a
  connection is the log of the operations that succeeded, and the handle of a stream is the
  position of the operation that opened it.
\<close>

section \<open>The connection\<close>

datatype quic_op =
    OpenUni
  | OpenBi
  | WriteChunk nat bytes
  | WriteAllChunks nat "bytes list"
  | SendDatagram bytes
  | Close u32 bytes

type_synonym log = "quic_op list"

record quinn =
  outcome :: "log \<Rightarrow> quic_op \<Rightarrow> string option"
  max_datagram_size :: "log \<Rightarrow> nat option"
  export_keying_material :: "nat \<Rightarrow> bytes \<Rightarrow> bytes \<Rightarrow> bytes option"

definition perform :: "quinn \<Rightarrow> quic_op \<Rightarrow> (log, nat, Error) comp" where
  "perform q x log = (case outcome q log x of
     None \<Rightarrow> (Ok (length log), log @ [x])
   | Some e \<Rightarrow> (Err (EQuic e), log))"

text \<open>An encoder run on a local buffer inside an operation on the connection.\<close>

definition buffered :: "(unit, ProtoError) result \<times> bytes \<Rightarrow> (log, bytes, Error) comp" where
  "buffered rb log = (case rb of
     (Ok _, buf) \<Rightarrow> (Ok buf, log)
   | (Err e, _) \<Rightarrow> (Err (EProto e), log)
   | (Panic, _) \<Rightarrow> (Panic, log))"

section \<open>Decoding helpers\<close>

definition decode_header :: "string \<Rightarrow> (bytes, Header, Error) comp" where
  "decode_header ctxt = complete HeaderCodec_decode (''Incomplete header in '' @ ctxt)"

definition decode_command :: "CmdType \<Rightarrow> string \<Rightarrow> (bytes, Command, Error) comp" where
  "decode_command cmd_type ctxt = complete (CmdCodec_decode cmd_type) (''Incomplete command in '' @ ctxt)"

definition decode_address :: "string \<Rightarrow> (bytes, Address, Error) comp" where
  "decode_address ctxt = complete AddressCodec_decode (''Incomplete address in '' @ ctxt)"

fun address_to_target :: "Address \<Rightarrow> (TargetAddr, Error) result" where
  "address_to_target (Domain d p) = Ok (TDomain d p)"
| "address_to_target (IPv4 a p) = Ok (TIPv4 a p)"
| "address_to_target (IPv6 a p) = Ok (TIPv6 a p)"
| "address_to_target NoAddr = Err (EMsg ''Address::None cannot be converted to TargetAddr'')"

section \<open>Client operations\<close>

definition encode_and_send_uni :: "quinn \<Rightarrow> CmdType \<Rightarrow> Command \<Rightarrow> Address option \<Rightarrow> (log, unit, Error) comp" where
  "encode_and_send_uni q cmd_type cmd address =
     and_then (buffered (HeaderCodec_encode (Header_new cmd_type) [])) (\<lambda>buf.
     and_then (buffered (CmdCodec_encode cmd_type cmd buf)) (\<lambda>buf.
     and_then (case address of
         Some addr \<Rightarrow> buffered (AddressCodec_encode addr buf)
       | None \<Rightarrow> pure buf) (\<lambda>buf.
     and_then (perform q OpenUni) (\<lambda>send.
     and_then (perform q (WriteChunk send buf)) (\<lambda>_. pure ())))))"

definition send_auth :: "quinn \<Rightarrow> uuid \<Rightarrow> bytes \<Rightarrow> (log, unit, Error) comp" where
  "send_auth q uuid secret =
     and_then (case export_keying_material q 32 uuid secret of
         None \<Rightarrow> fail (EMsg ''export_keying_material requested output length is too large.'')
       | Some token \<Rightarrow> pure token) (\<lambda>token.
     and_then (buffered (HeaderCodec_encode (Header_new TyAuth) [])) (\<lambda>buf.
     and_then (buffered (CmdCodec_encode TyAuth (Auth uuid token) buf)) (\<lambda>buf.
     and_then (perform q OpenUni) (\<lambda>send.
     and_then (perform q (WriteChunk send buf)) (\<lambda>_. pure ())))))"

text \<open>
  \<open>open_tcp\<close> opens the stream before it encodes the request. It returns when the relay does;
  \<open>Ok None\<close> is a relay that is still running.
\<close>

definition open_tcp :: "quinn \<Rightarrow> TargetAddr \<Rightarrow> io_turn list \<Rightarrow> (log, (nat \<times> nat) option, Error) comp" where
  "open_tcp q addr turns =
     and_then (perform q OpenBi) (\<lambda>send.
     and_then (buffered (HeaderCodec_encode (Header_new TyConnect) [])) (\<lambda>buf.
     and_then (buffered (CmdCodec_encode TyConnect Connect buf)) (\<lambda>buf.
     and_then (buffered (AddressCodec_encode (Address_from addr) buf)) (\<lambda>buf.
     and_then (perform q (WriteChunk send buf)) (\<lambda>_.
       (case copy_io turns of
          None \<Rightarrow> pure None
        | Some (a, b, Some e) \<Rightarrow> fail (EMsg e)
        | Some (a, b, None) \<Rightarrow> pure (Some (a, b))))))))"

definition send_udp :: "quinn \<Rightarrow> u16 \<Rightarrow> u16 \<Rightarrow> TargetAddr \<Rightarrow> bytes \<Rightarrow> bool \<Rightarrow> (log, unit, Error) comp" where
  "send_udp q assoc_id pkt_id addr payload datagram =
     and_then (buffered (HeaderCodec_encode (Header_new TyPacket) [])) (\<lambda>buf.
     and_then (buffered (CmdCodec_encode TyPacket
         (Packet assoc_id pkt_id 1 0 (of_nat (length payload))) buf)) (\<lambda>buf.
     and_then (buffered (AddressCodec_encode (Address_from addr) buf)) (\<lambda>buf.
       if datagram then
         and_then (perform q (SendDatagram (buf @ payload))) (\<lambda>_. pure ())
       else
         and_then (perform q OpenUni) (\<lambda>send.
         and_then (perform q (WriteAllChunks send [buf, payload])) (\<lambda>_. pure ())))))"

definition drop_udp :: "quinn \<Rightarrow> u16 \<Rightarrow> (log, unit, Error) comp" where
  "drop_udp q assoc_id =
     and_then (perform q OpenUni) (\<lambda>send.
     and_then (buffered (HeaderCodec_encode (Header_new TyDissociate) [])) (\<lambda>buf.
     and_then (buffered (CmdCodec_encode TyDissociate (Dissociate assoc_id) buf)) (\<lambda>buf.
     and_then (perform q (WriteChunk send buf)) (\<lambda>_. pure ()))))"

definition send_heartbeat :: "quinn \<Rightarrow> (log, unit, Error) comp" where
  "send_heartbeat q =
     and_then (buffered (HeaderCodec_encode (Header_new TyHeartbeat) [])) (\<lambda>buf.
     and_then (perform q (SendDatagram buf)) (\<lambda>_. pure ()))"

section \<open>Messages on the wire\<close>

text \<open>A message: the header of its command, the command, and an address where it has one.\<close>

definition message :: "Command \<Rightarrow> Address option \<Rightarrow> bytes" where
  "message c a = [VER, CmdType_into (CmdType_of_Command c)] @ cmd_wire c @
     (case a of None \<Rightarrow> [] | Some x \<Rightarrow> addr_wire x)"

definition packet_datagram :: "u16 \<Rightarrow> u16 \<Rightarrow> u8 \<Rightarrow> u8 \<Rightarrow> Address \<Rightarrow> bytes \<Rightarrow> bytes" where
  "packet_datagram assoc_id pkt_id frag_total frag_id addr payload =
     message (Packet assoc_id pkt_id frag_total frag_id (of_nat (length payload))) (Some addr) @ payload"

fun target_ok :: "TargetAddr \<Rightarrow> bool" where
  "target_ok (TDomain d p) \<longleftrightarrow> length d \<le> 255 \<and> utf8_valid (as_bytes d)"
| "target_ok _ \<longleftrightarrow> True"

lemma addr_ok_Address_from [simp]: "addr_ok (Address_from t) \<longleftrightarrow> target_ok t"
  by (cases t) simp_all

lemma address_to_target_Address_from [simp]: "address_to_target (Address_from t) = Ok t"
  by (cases t) simp_all

lemma address_to_target_Ok_iff: "address_to_target a = Ok t \<longleftrightarrow> a = Address_from t"
  by (cases a; cases t) auto

lemma address_to_target_no_panic: "address_to_target a \<noteq> Panic"
  by (cases a) simp_all

lemma buffered_simps [simp]:
  "buffered (Ok (), buf) log = (Ok buf, log)"
  "buffered (Err e, buf) log = (Err (EProto e), log)"
  by (simp_all add: buffered_def)

lemma header_bytes [simp]:
  "HeaderCodec_encode (Header_new t) dst = (Ok (), dst @ [VER, CmdType_into t])"
  by (simp add: HeaderCodec_encode_def Header_new_def)

lemma perform_cases:
  obtains e where "outcome q log x = Some e" and "perform q x log = (Err (EQuic e), log)"
  | "outcome q log x = None" and "perform q x log = (Ok (length log), log @ [x])"
  by (cases "outcome q log x") (simp_all add: perform_def)

lemma perform_Ok [simp]:
  "outcome q log x = None \<Longrightarrow> perform q x log = (Ok (length log), log @ [x])"
  by (simp add: perform_def)

lemma perform_Err [simp]:
  "outcome q log x = Some e \<Longrightarrow> perform q x log = (Err (EQuic e), log)"
  by (simp add: perform_def)

text \<open>Decoding a message part by part.\<close>

lemma decode_header_wire:
  "known_type t \<Longrightarrow> decode_header ctxt (VER # CmdType_into t # rest) = (Ok (Header_new t), rest)"
  using header.complete_wire [of "Header_new t" _ rest]
  by (simp add: decode_header_def header_wire_new)

lemma decode_command_wire:
  "cmd_ok t c \<Longrightarrow> decode_command t ctxt (cmd_wire c @ rest) = (Ok c, rest)"
  by (simp add: decode_command_def cmd.complete_wire)

lemma decode_address_wire:
  "addr_ok a \<Longrightarrow> decode_address ctxt (addr_wire a @ rest) = (Ok a, rest)"
  by (simp add: decode_address_def addr.complete_wire)

lemmas decode_wires = decode_header_wire decode_command_wire decode_address_wire

lemma decode_no_panic:
  "fst (decode_header ctxt buf) \<noteq> Panic"
  "fst (decode_command t ctxt buf) \<noteq> Panic"
  "fst (decode_address ctxt buf) \<noteq> Panic"
  by (simp_all add: decode_header_def decode_command_def decode_address_def
      header.complete_no_panic cmd.complete_no_panic addr.complete_no_panic)

text \<open>Header and command together.\<close>

lemma decode_head:
  "and_then (decode_header c) (\<lambda>h. decode_command (command h) c) data = (Ok cmd, rest) \<longleftrightarrow>
     command_wf cmd \<and> data = message cmd None @ rest"
proof
  assume "and_then (decode_header c) (\<lambda>h. decode_command (command h) c) data = (Ok cmd, rest)"
  then obtain h buf where "decode_header c data = (Ok h, buf)" and "decode_command (command h) c buf = (Ok cmd, rest)"
    by (auto simp: and_then_eq_Ok)
  then have "header_ok h" "data = header_wire h @ buf" "cmd_ok (command h) cmd" "buf = cmd_wire cmd @ rest"
    by (simp_all add: decode_header_def decode_command_def header.complete_Ok_iff cmd.complete_Ok_iff)
  then show "command_wf cmd \<and> data = message cmd None @ rest"
    by (auto simp: message_def header_ok_def header_wire_def cmd_ok_def)
next
  assume "command_wf cmd \<and> data = message cmd None @ rest"
  then show "and_then (decode_header c) (\<lambda>h. decode_command (command h) c) data = (Ok cmd, rest)"
    by (simp add: message_def decode_wires Header_new_def)
qed

lemma decode_head_no_panic:
  "fst (and_then (decode_header c) (\<lambda>h. decode_command (command h) c) data) \<noteq> Panic"
  using decode_no_panic(1) [of c data] decode_no_panic(2)
  by (auto simp: and_then_def split: prod.splits result.splits)

lemma decode_head_cases:
  obtains cmd rest where "command_wf cmd" and "data = message cmd None @ rest"
  | e rest where "and_then (decode_header c) (\<lambda>h. decode_command (command h) c) data = (Err e, rest)"
proof (cases "and_then (decode_header c) (\<lambda>h. decode_command (command h) c) data")
  case (Pair r rest)
  then show thesis
    using that decode_head [of c data _ rest] decode_head_no_panic [of c data] by (cases r) auto
qed

text \<open>What each client operation puts on the connection when nothing fails.\<close>

lemma send_udp_datagram_log:
  assumes "target_ok addr"
  shows "send_udp q assoc_id pkt_id addr payload True log =
     and_then (perform q (SendDatagram (packet_datagram assoc_id pkt_id 1 0 (Address_from addr) payload)))
       (\<lambda>_. pure ()) log"
  using assms
  by (simp add: send_udp_def packet_datagram_def message_def and_then_def AddressCodec_encode_wire)

lemma send_auth_log:
  assumes "export_keying_material q 32 uuid secret = Some token"
    and "outcome q log OpenUni = None"
    and "outcome q (log @ [OpenUni]) (WriteChunk (length log) (message (Auth uuid token) None)) = None"
  shows "send_auth q uuid secret log =
     (Ok (), log @ [OpenUni, WriteChunk (length log) (message (Auth uuid token) None)])"
  using assms by (simp add: send_auth_def message_def and_then_def)

text \<open>A connection that takes everything, for evaluation on concrete inputs.\<close>

definition sample_quinn :: "nat \<Rightarrow> quinn" where
  "sample_quinn limit = \<lparr>outcome = (\<lambda>l x. None), max_datagram_size = (\<lambda>l. Some limit),
     export_keying_material = (\<lambda>n l c. Some (replicate n 7))\<rparr>"

end
