(* ===== verification/Moka.thy ===== *)
theory Moka
  imports Prelude "HOL-Library.AList"
begin

text \<open>
  The concurrent cache the program keeps fragments and UDP sessions in is the third-party
  crate \<^verbatim>\<open>moka\<close>. It is a parameter of the model: a record of the operations the sources
  call, over an arbitrary type of cache states. \<open>moka_ok\<close> collects the documented behaviour
  the program relies on, relative to the contents and the capacity of a cache: a lookup,
  a removal and an insertion act on the contents like a map as long as the capacity is not
  exceeded, and the entry count is exact after the pending tasks have run. Nothing is said of
  a full cache, where any entry may be evicted or refused.

  \<open>alist_cache\<close> is a concrete cache that satisfies these laws, for evaluation on concrete
  inputs.
\<close>

record ('k, 'v, 'c) cache_ops =
  cache_new :: "nat \<Rightarrow> 'c"
  cache_get :: "'k \<Rightarrow> 'c \<Rightarrow> 'v option \<times> 'c"
  cache_insert :: "'k \<Rightarrow> 'v \<Rightarrow> 'c \<Rightarrow> 'c"
  cache_or_insert_with :: "'k \<Rightarrow> 'v \<Rightarrow> 'c \<Rightarrow> 'v \<times> 'c"
  cache_remove :: "'k \<Rightarrow> 'c \<Rightarrow> 'v option \<times> 'c"
  cache_run_pending :: "'c \<Rightarrow> 'c"
  cache_entry_count :: "'c \<Rightarrow> nat"
  cache_invalidate_if :: "('k \<Rightarrow> 'v \<Rightarrow> bool) \<Rightarrow> 'c \<Rightarrow> (unit, string) result \<times> 'c"

section \<open>Documented behaviour\<close>

definition moka_ok :: "('k, 'v, 'c) cache_ops \<Rightarrow> ('c \<Rightarrow> nat) \<Rightarrow> ('c \<Rightarrow> 'k \<rightharpoonup> 'v) \<Rightarrow> bool" where
  "moka_ok ops cap con \<longleftrightarrow>
     (\<forall>n. con (cache_new ops n) = Map.empty \<and> cap (cache_new ops n) = n) \<and>
     (\<forall>c. finite (dom (con c))) \<and>
     (\<forall>k c. fst (cache_get ops k c) = con c k \<and>
        con (snd (cache_get ops k c)) = con c \<and> cap (snd (cache_get ops k c)) = cap c) \<and>
     (\<forall>k v c. cap (cache_insert ops k v c) = cap c) \<and>
     (\<forall>k v c. card (insert k (dom (con c))) \<le> cap c \<longrightarrow> con (cache_insert ops k v c) = (con c)(k \<mapsto> v)) \<and>
     (\<forall>k v c. cap (snd (cache_or_insert_with ops k v c)) = cap c) \<and>
     (\<forall>k v c w. con c k = Some w \<longrightarrow>
        fst (cache_or_insert_with ops k v c) = w \<and> con (snd (cache_or_insert_with ops k v c)) = con c) \<and>
     (\<forall>k v c. con c k = None \<longrightarrow> card (dom (con c)) < cap c \<longrightarrow>
        fst (cache_or_insert_with ops k v c) = v \<and>
        con (snd (cache_or_insert_with ops k v c)) = (con c)(k \<mapsto> v)) \<and>
     (\<forall>k c. fst (cache_remove ops k c) = con c k \<and>
        con (snd (cache_remove ops k c)) = (con c)(k := None) \<and>
        cap (snd (cache_remove ops k c)) = cap c) \<and>
     (\<forall>c. cap (cache_run_pending ops c) = cap c) \<and>
     (\<forall>c. card (dom (con c)) \<le> cap c \<longrightarrow>
        con (cache_run_pending ops c) = con c \<and>
        cache_entry_count ops (cache_run_pending ops c) = card (dom (con c)))"

text \<open>
  A cache made with \<^verbatim>\<open>Cache::new\<close> has no support for invalidation closures: the call
  reports \<^verbatim>\<open>PredicateError::InvalidationClosuresDisabled\<close> and removes nothing.
\<close>

definition closures_disabled :: "('k, 'v, 'c) cache_ops \<Rightarrow> bool" where
  "closures_disabled ops \<longleftrightarrow>
     (\<forall>p c. cache_invalidate_if ops p c = (Err ''InvalidationClosuresDisabled'', c))"

lemma moka_new:
  assumes "moka_ok ops cap con"
  shows "con (cache_new ops n) = Map.empty" and "cap (cache_new ops n) = n"
  using assms by (simp_all add: moka_ok_def)

lemma moka_finite: "moka_ok ops cap con \<Longrightarrow> finite (dom (con c))"
  by (simp add: moka_ok_def)

lemma moka_fst_snd:
  assumes "moka_ok ops cap con"
  shows "fst (cache_get ops k c) = con c k"
    and "con (snd (cache_get ops k c)) = con c"
    and "fst (cache_remove ops k c) = con c k"
    and "con (snd (cache_remove ops k c)) = (con c)(k := None)"
    and "cap (snd (cache_remove ops k c)) = cap c"
    and "cap (snd (cache_or_insert_with ops k v c)) = cap c"
  using assms unfolding moka_ok_def by simp_all

lemma moka_get:
  assumes "moka_ok ops cap con"
  obtains c' where "cache_get ops k c = (con c k, c')" and "con c' = con c"
  using moka_fst_snd(1,2) [OF assms, of k c] by (cases "cache_get ops k c") simp

lemma moka_insert:
  assumes "moka_ok ops cap con"
  shows "cap (cache_insert ops k v c) = cap c"
    and "card (insert k (dom (con c))) \<le> cap c \<Longrightarrow> con (cache_insert ops k v c) = (con c)(k \<mapsto> v)"
  using assms unfolding moka_ok_def by simp_all

lemma moka_or_insert_present:
  assumes "moka_ok ops cap con" and "con c k = Some w"
  obtains c' where "cache_or_insert_with ops k v c = (w, c')" and "con c' = con c" and "cap c' = cap c"
proof -
  have "fst (cache_or_insert_with ops k v c) = w" and "con (snd (cache_or_insert_with ops k v c)) = con c"
    using assms unfolding moka_ok_def by simp_all
  with moka_fst_snd(6) [OF assms(1), of k v c] show thesis
    using that by (cases "cache_or_insert_with ops k v c") simp
qed

lemma moka_or_insert_absent:
  assumes "moka_ok ops cap con" and "con c k = None" and "card (dom (con c)) < cap c"
  obtains c' where "cache_or_insert_with ops k v c = (v, c')"
    and "con c' = (con c)(k \<mapsto> v)" and "cap c' = cap c"
proof -
  have "fst (cache_or_insert_with ops k v c) = v"
    and "con (snd (cache_or_insert_with ops k v c)) = (con c)(k \<mapsto> v)"
    using assms unfolding moka_ok_def by simp_all
  with moka_fst_snd(6) [OF assms(1), of k v c] show thesis
    using that by (cases "cache_or_insert_with ops k v c") simp
qed

lemma moka_remove:
  assumes "moka_ok ops cap con"
  obtains c' where "cache_remove ops k c = (con c k, c')"
    and "con c' = (con c)(k := None)" and "cap c' = cap c"
  using moka_fst_snd(3-5) [OF assms, of k c] by (cases "cache_remove ops k c") simp

lemma moka_run_pending:
  assumes "moka_ok ops cap con"
  shows "cap (cache_run_pending ops c) = cap c"
    and "card (dom (con c)) \<le> cap c \<Longrightarrow> con (cache_run_pending ops c) = con c"
    and "card (dom (con c)) \<le> cap c \<Longrightarrow>
      cache_entry_count ops (cache_run_pending ops c) = card (dom (con c))"
  using assms unfolding moka_ok_def by simp_all

section \<open>A concrete cache\<close>

text \<open>The capacity and the entries; a new key is refused when the cache is full.\<close>

type_synonym ('k, 'v) alist_state = "nat \<times> ('k \<times> 'v) list"

definition alist_count :: "('k, 'v) alist_state \<Rightarrow> nat" where
  "alist_count c = length (remdups (map fst (snd c)))"

definition alist_insert :: "'k \<Rightarrow> 'v \<Rightarrow> ('k, 'v) alist_state \<Rightarrow> ('k, 'v) alist_state" where
  "alist_insert k v c =
     (if k \<in> set (map fst (snd c)) \<or> alist_count c < fst c
      then (fst c, AList.update k v (snd c)) else c)"

definition alist_or_insert_with :: "'k \<Rightarrow> 'v \<Rightarrow> ('k, 'v) alist_state \<Rightarrow> 'v \<times> ('k, 'v) alist_state" where
  "alist_or_insert_with k v c = (case map_of (snd c) k of
     Some w \<Rightarrow> (w, c)
   | None \<Rightarrow> (v, alist_insert k v c))"

definition alist_cache :: "('k, 'v, ('k, 'v) alist_state) cache_ops" where
  "alist_cache = \<lparr>
     cache_new = (\<lambda>n. (n, [])),
     cache_get = (\<lambda>k c. (map_of (snd c) k, c)),
     cache_insert = alist_insert,
     cache_or_insert_with = alist_or_insert_with,
     cache_remove = (\<lambda>k c. (map_of (snd c) k, (fst c, AList.delete k (snd c)))),
     cache_run_pending = (\<lambda>c. c),
     cache_entry_count = alist_count,
     cache_invalidate_if = (\<lambda>p c. (Err ''InvalidationClosuresDisabled'', c))\<rparr>"

lemma alist_count_eq: "alist_count c = card (dom (map_of (snd c)))"
  by (simp add: alist_count_def dom_map_of_conv_image_fst length_remdups_card_conv)

lemma alist_insert_map_of:
  assumes "card (insert k (dom (map_of (snd c)))) \<le> fst c"
  shows "map_of (snd (alist_insert k v c)) = (map_of (snd c))(k \<mapsto> v)"
proof (cases "k \<in> set (map fst (snd c))")
  case True
  then show ?thesis by (simp add: alist_insert_def update_conv')
next
  case False
  then have "k \<notin> dom (map_of (snd c))"
    by (simp add: dom_map_of_conv_image_fst)
  with assms have "alist_count c < fst c"
    by (simp add: alist_count_eq finite_dom_map_of)
  then show ?thesis by (simp add: alist_insert_def update_conv')
qed

lemma fst_alist_insert [simp]: "fst (alist_insert k v c) = fst c"
  by (simp add: alist_insert_def)

lemma alist_cache_ok: "moka_ok alist_cache fst (\<lambda>c. map_of (snd c))"
proof -
  have absent: "card (insert k (dom (map_of (snd c)))) \<le> fst c"
    if "map_of (snd c) k = None" and "card (dom (map_of (snd c))) < fst c"
    for k and c :: "('a, 'b) alist_state"
    using that by (simp add: finite_dom_map_of domIff)
  show ?thesis
    unfolding moka_ok_def
    by (intro conjI allI impI)
       (simp_all add: alist_cache_def alist_or_insert_with_def alist_insert_map_of alist_count_eq
          finite_dom_map_of delete_conv' absent split: option.split)
qed

lemma alist_cache_closures: "closures_disabled alist_cache"
  by (simp add: closures_disabled_def alist_cache_def)

lemmas alist_cache_simps =
  alist_cache_def alist_insert_def alist_or_insert_with_def alist_count_def

end
