(* ===== verification/Reassembly.thy ===== *)
theory Reassembly
  imports Moka Net_Types
begin

text \<open>
  The fragment reassembly buffer of \<^verbatim>\<open>crates/wind-tuic/src/proto/udp_stream.rs\<close>. The outer
  cache maps an (association, packet) pair to a shared \<^verbatim>\<open>Arc<FragmentMetadata>\<close>, whose inner
  cache is mutated through the shared pointer. The model keeps the metadata in a store
  (\<open>frb_arcs\<close>) and puts the address of a cell, its index, into the outer cache, so that an
  entry that leaves the cache while it is being filled is modelled as in the source.

  The abstract view of a buffer is a map from packet keys to what has been collected for
  them. \<open>add_fragment_refines\<close> shows that the cache-based operation implements the
  operation \<open>spec_add\<close> on that view; the reassembly theorems are proved on the view.
\<close>

section \<open>Data\<close>

record UdpPacket =
  pk_source :: "TargetAddr option"
  pk_target :: TargetAddr
  pk_payload :: bytes

record FragmentInfo =
  fi_assoc_id :: u16
  fi_pkt_id :: u16
  fi_frag_total :: u8
  fi_frag_id :: u8
  fi_source :: "TargetAddr option"
  fi_target :: TargetAddr

record 'i FragmentMetadata =
  fm_frag_total :: u8
  fm_fragments :: 'i
  fm_last_updated :: nat
  fm_source :: "TargetAddr option"
  fm_target :: TargetAddr

record ('o, 'i) FragmentReassemblyBuffer =
  frb_fragments :: 'o
  frb_arcs :: "'i FragmentMetadata list"

type_synonym pkt_key = "u16 \<times> u16"
type_synonym 'o outer_ops = "(pkt_key, nat, 'o) cache_ops"
type_synonym 'i inner_ops = "(u8, bytes, 'i) cache_ops"

definition FRAGMENT_TIMEOUT_MS :: nat where
  "FRAGMENT_TIMEOUT_MS = 30000"

section \<open>Operations\<close>

definition FragmentReassemblyBuffer_new :: "'o outer_ops \<Rightarrow> ('o, 'i) FragmentReassemblyBuffer" where
  "FragmentReassemblyBuffer_new co = \<lparr>frb_fragments = cache_new co 1000, frb_arcs = []\<rparr>"

text \<open>\<^verbatim>\<open>matches!(target, TargetAddr::IPv4(ip, 0) if ip.is_unspecified())\<close>\<close>

fun is_placeholder :: "TargetAddr \<Rightarrow> bool" where
  "is_placeholder (TIPv4 a p) \<longleftrightarrow> p = 0 \<and> a = ipv4_unspecified"
| "is_placeholder _ \<longleftrightarrow> False"

text \<open>The two loops over \<^verbatim>\<open>0..meta.frag_total\<close>.\<close>

definition frag_ids :: "u8 \<Rightarrow> u8 list" where
  "frag_ids n = map of_nat [0..<unat n]"

lemma mem_frag_ids: "i \<in> set (frag_ids n) \<longleftrightarrow> i < n"
proof
  assume "i \<in> set (frag_ids n)"
  then obtain k where "i = of_nat k" and "k < unat n"
    by (auto simp: frag_ids_def)
  then show "i < n"
    using unat_u8_le [of n] by (simp add: word_less_nat_alt unat_of_nat_u8)
next
  assume "i < n"
  then have "i = of_nat (unat i)" and "unat i < unat n"
    by (simp_all add: word_less_nat_alt)
  then show "i \<in> set (frag_ids n)"
    by (auto simp: frag_ids_def image_iff intro: bexI [of _ "unat i"])
qed

lemma card_frag_ids: "card (set (frag_ids n)) = unat n"
proof -
  have "inj_on (of_nat :: nat \<Rightarrow> u8) {0..<unat n}"
    using unat_u8_le [of n] by (intro inj_on_inverseI [of _ unat]) (simp add: unat_of_nat_u8)
  then show ?thesis
    by (simp add: frag_ids_def card_image)
qed

fun total_size_loop :: "'i inner_ops \<Rightarrow> u8 list \<Rightarrow> nat \<Rightarrow> 'i \<Rightarrow> nat option \<times> 'i" where
  "total_size_loop ci [] acc c = (Some acc, c)"
| "total_size_loop ci (i # is) acc c = (case cache_get ci i c of
     (Some fragment, c') \<Rightarrow> total_size_loop ci is (acc + length fragment) c'
   | (None, c') \<Rightarrow> (None, c'))"

fun combine_loop :: "'i inner_ops \<Rightarrow> u8 list \<Rightarrow> bytes \<Rightarrow> 'i \<Rightarrow> bytes option \<times> 'i" where
  "combine_loop ci [] buffer c = (Some buffer, c)"
| "combine_loop ci (i # is) buffer c = (case cache_get ci i c of
     (Some fragment, c') \<Rightarrow> combine_loop ci is (buffer @ fragment) c'
   | (None, c') \<Rightarrow> (None, c'))"

definition reassemble_packet ::
  "'o outer_ops \<Rightarrow> 'i inner_ops \<Rightarrow> pkt_key \<Rightarrow> ('o, 'i) FragmentReassemblyBuffer \<Rightarrow>
     UdpPacket option \<times> ('o, 'i) FragmentReassemblyBuffer" where
  "reassemble_packet co ci key b = (case cache_remove co key (frb_fragments b) of
     (None, outer) \<Rightarrow> (None, b\<lparr>frb_fragments := outer\<rparr>)
   | (Some a, outer) \<Rightarrow>
       let b1 = b\<lparr>frb_fragments := outer\<rparr>;
           meta = frb_arcs b ! a;
           ids = frag_ids (fm_frag_total meta) in
       (case total_size_loop ci ids 0 (fm_fragments meta) of
          (None, c1) \<Rightarrow> (None, b1)
        | (Some total_size, c1) \<Rightarrow>
            (case combine_loop ci ids [] c1 of
               (None, c2) \<Rightarrow> (None, b1)
             | (Some buffer, c2) \<Rightarrow>
                 (Some \<lparr>pk_source = fm_source meta, pk_target = fm_target meta, pk_payload = buffer\<rparr>, b1))))"

text \<open>
  The initialiser of \<^verbatim>\<open>or_insert_with\<close> runs, and a cell is allocated, only when the entry
  is new: when the address the cache returns is the fresh one.
\<close>

definition add_fragment ::
  "'o outer_ops \<Rightarrow> 'i inner_ops \<Rightarrow> nat \<Rightarrow> FragmentInfo \<Rightarrow> bytes \<Rightarrow> ('o, 'i) FragmentReassemblyBuffer \<Rightarrow>
     UdpPacket option \<times> ('o, 'i) FragmentReassemblyBuffer" where
  "add_fragment co ci now info payload b =
     (let key = (fi_assoc_id info, fi_pkt_id info);
          is_placeholder_addr = is_placeholder (fi_target info);
          fresh = length (frb_arcs b);
          (a, outer) = cache_or_insert_with co key fresh (frb_fragments b);
          arcs = (if a = fresh then frb_arcs b @ [\<lparr>
                      fm_frag_total = fi_frag_total info,
                      fm_fragments = cache_new ci (unat (fi_frag_total info)),
                      fm_last_updated = now,
                      fm_source = fi_source info,
                      fm_target = fi_target info\<rparr>]
                  else frb_arcs b);
          meta = arcs ! a;
          meta = (if fi_frag_id info = 0 \<and> \<not> is_placeholder_addr
                  then meta\<lparr>fm_target := fi_target info\<rparr> else meta);
          meta = meta\<lparr>fm_last_updated := now\<rparr>;
          meta = meta\<lparr>fm_fragments := cache_insert ci (fi_frag_id info) payload (fm_fragments meta)\<rparr>;
          meta = meta\<lparr>fm_fragments := cache_run_pending ci (fm_fragments meta)\<rparr>;
          b1 = b\<lparr>frb_fragments := outer, frb_arcs := arcs[a := meta]\<rparr>
      in if cache_entry_count ci (fm_fragments meta) = unat (fm_frag_total meta)
         then reassemble_packet co ci key b1
         else (None, b1))"

text \<open>
  \<open>now_ms\<close> is the time since the program's start. The subtraction of durations panics when
  the stored time lies in the future, which it never does. The result of the invalidation is
  thrown away by the source (\<^verbatim>\<open>let _ = ...\<close>).
\<close>

definition expired :: "nat \<Rightarrow> 'i FragmentMetadata \<Rightarrow> bool" where
  "expired now_ms meta \<longleftrightarrow> FRAGMENT_TIMEOUT_MS \<le> now_ms - fm_last_updated meta * 1000"

definition cleanup_expired ::
  "'o outer_ops \<Rightarrow> nat \<Rightarrow> ('o, 'i) FragmentReassemblyBuffer \<Rightarrow> ('o, 'i) FragmentReassemblyBuffer" where
  "cleanup_expired co now_ms b =
     b\<lparr>frb_fragments := snd (cache_invalidate_if co (\<lambda>k a. expired now_ms (frb_arcs b ! a)) (frb_fragments b))\<rparr>"

section \<open>Specification\<close>

text \<open>What has been collected for one packet.\<close>

record pending =
  p_total :: u8
  p_frags :: "u8 \<rightharpoonup> bytes"
  p_source :: "TargetAddr option"
  p_target :: TargetAddr

definition whole :: "pending \<Rightarrow> bool" where
  "whole p \<longleftrightarrow> (\<forall>i \<in> set (frag_ids (p_total p)). p_frags p i \<noteq> None)"

definition assemble :: "pending \<Rightarrow> UdpPacket option" where
  "assemble p = (if whole p then Some \<lparr>pk_source = p_source p, pk_target = p_target p,
       pk_payload = concat (map (\<lambda>i. the (p_frags p i)) (frag_ids (p_total p)))\<rparr> else None)"

text \<open>One fragment, on what has been collected for its own packet.\<close>

definition slot_put :: "FragmentInfo \<Rightarrow> bytes \<Rightarrow> pending option \<Rightarrow> pending" where
  "slot_put info payload s =
     (let p = (case s of Some p \<Rightarrow> p | None \<Rightarrow> \<lparr>p_total = fi_frag_total info, p_frags = Map.empty,
                 p_source = fi_source info, p_target = fi_target info\<rparr>)
      in p\<lparr>p_frags := (p_frags p)(fi_frag_id info \<mapsto> payload),
           p_target := (if fi_frag_id info = 0 \<and> \<not> is_placeholder (fi_target info)
                        then fi_target info else p_target p)\<rparr>)"

definition slot_add :: "FragmentInfo \<Rightarrow> bytes \<Rightarrow> pending option \<Rightarrow> UdpPacket option \<times> pending option" where
  "slot_add info payload s =
     (let p = slot_put info payload s
      in if card (dom (p_frags p)) = unat (p_total p) then (assemble p, None) else (None, Some p))"

definition info_key :: "FragmentInfo \<Rightarrow> pkt_key" where
  "info_key info = (fi_assoc_id info, fi_pkt_id info)"

definition spec_add :: "FragmentInfo \<Rightarrow> bytes \<Rightarrow> (pkt_key \<rightharpoonup> pending) \<Rightarrow>
    UdpPacket option \<times> (pkt_key \<rightharpoonup> pending)" where
  "spec_add info payload m =
     (let (r, s) = slot_add info payload (m (info_key info)) in (r, m(info_key info := s)))"

section \<open>The view of a buffer\<close>

definition meta_view :: "('i \<Rightarrow> u8 \<rightharpoonup> bytes) \<Rightarrow> 'i FragmentMetadata \<Rightarrow> pending" where
  "meta_view coni meta = \<lparr>p_total = fm_frag_total meta, p_frags = coni (fm_fragments meta),
     p_source = fm_source meta, p_target = fm_target meta\<rparr>"

definition view :: "('o \<Rightarrow> pkt_key \<rightharpoonup> nat) \<Rightarrow> ('i \<Rightarrow> u8 \<rightharpoonup> bytes) \<Rightarrow>
    ('o, 'i) FragmentReassemblyBuffer \<Rightarrow> pkt_key \<rightharpoonup> pending" where
  "view cono coni b key = map_option (\<lambda>a. meta_view coni (frb_arcs b ! a)) (cono (frb_fragments b) key)"

text \<open>A cell that is being filled: it has room for all its fragments and is not full.\<close>

definition meta_ok :: "('i \<Rightarrow> nat) \<Rightarrow> ('i \<Rightarrow> u8 \<rightharpoonup> bytes) \<Rightarrow> 'i FragmentMetadata \<Rightarrow> bool" where
  "meta_ok capi coni meta \<longleftrightarrow>
     capi (fm_fragments meta) = unat (fm_frag_total meta) \<and>
     card (dom (coni (fm_fragments meta))) < unat (fm_frag_total meta)"

text \<open>Entries refer to allocated cells, no two entries share one, and each cell is as above.\<close>

definition buf_ok :: "('o \<Rightarrow> nat) \<Rightarrow> ('o \<Rightarrow> pkt_key \<rightharpoonup> nat) \<Rightarrow> ('i \<Rightarrow> nat) \<Rightarrow> ('i \<Rightarrow> u8 \<rightharpoonup> bytes) \<Rightarrow>
    ('o, 'i) FragmentReassemblyBuffer \<Rightarrow> bool" where
  "buf_ok capo cono capi coni b \<longleftrightarrow>
     capo (frb_fragments b) = 1000 \<and>
     (\<forall>k a. cono (frb_fragments b) k = Some a \<longrightarrow>
        a < length (frb_arcs b) \<and> meta_ok capi coni (frb_arcs b ! a)) \<and>
     inj_on (cono (frb_fragments b)) (dom (cono (frb_fragments b)))"

lemma buf_okD:
  assumes "buf_ok capo cono capi coni b" and "cono (frb_fragments b) k = Some a"
  shows "a < length (frb_arcs b)" and "meta_ok capi coni (frb_arcs b ! a)"
    and "cono (frb_fragments b) k' = Some a \<Longrightarrow> k' = k"
  using assms unfolding buf_ok_def by (blast, blast, metis domI inj_onD)

lemma inj_on_map_upd:
  assumes "inj_on m (dom m)" and "\<And>k'. k' \<noteq> k \<Longrightarrow> m k' \<noteq> Some a"
  shows "inj_on (m(k \<mapsto> a)) (dom (m(k \<mapsto> a)))"
  using assms by (fastforce simp: inj_on_def dom_def)

lemma dom_view: "dom (view cono coni b) = dom (cono (frb_fragments b))"
  by (auto simp: view_def dom_def)

lemma new_buf:
  assumes "moka_ok co capo cono"
  shows "buf_ok capo cono capi coni (FragmentReassemblyBuffer_new co)"
    and "view cono coni (FragmentReassemblyBuffer_new co) = Map.empty"
  using moka_new [OF assms]
  by (auto simp: buf_ok_def FragmentReassemblyBuffer_new_def view_def)

section \<open>Refinement\<close>

lemma total_size_loop_view:
  assumes "moka_ok ci capi coni"
  obtains c' where "total_size_loop ci ids acc c =
      (if \<forall>i \<in> set ids. coni c i \<noteq> None then Some (acc + sum_list (map (\<lambda>i. length (the (coni c i))) ids)) else None, c')"
    and "coni c' = coni c"
proof (induction ids arbitrary: acc c thesis)
  case (Cons i ids)
  obtain c1 where get: "cache_get ci i c = (coni c i, c1)" and con: "coni c1 = coni c"
    using assms by (rule moka_get)
  show ?case
  proof (cases "coni c i")
    case None
    with get con show ?thesis by (intro Cons.prems [of c1]) simp_all
  next
    case (Some fr)
    obtain c2 where "total_size_loop ci ids (acc + length fr) c1 =
        (if \<forall>i \<in> set ids. coni c1 i \<noteq> None then Some (acc + length fr + sum_list (map (\<lambda>i. length (the (coni c1 i))) ids))
         else None, c2)"
      and "coni c2 = coni c1"
      by (rule Cons.IH)
    with get con Some show ?thesis by (intro Cons.prems [of c2]) simp_all
  qed
qed simp

lemma combine_loop_view:
  assumes "moka_ok ci capi coni"
  obtains c' where "combine_loop ci ids buf c =
      (if \<forall>i \<in> set ids. coni c i \<noteq> None then Some (buf @ concat (map (\<lambda>i. the (coni c i)) ids)) else None, c')"
    and "coni c' = coni c"
proof (induction ids arbitrary: buf c thesis)
  case (Cons i ids)
  obtain c1 where get: "cache_get ci i c = (coni c i, c1)" and con: "coni c1 = coni c"
    using assms by (rule moka_get)
  show ?case
  proof (cases "coni c i")
    case None
    with get con show ?thesis by (intro Cons.prems [of c1]) simp_all
  next
    case (Some fr)
    obtain c2 where "combine_loop ci ids (buf @ fr) c1 =
        (if \<forall>i \<in> set ids. coni c1 i \<noteq> None then Some ((buf @ fr) @ concat (map (\<lambda>i. the (coni c1 i)) ids))
         else None, c2)"
      and "coni c2 = coni c1"
      by (rule Cons.IH)
    with get con Some show ?thesis by (intro Cons.prems [of c2]) simp_all
  qed
qed simp

text \<open>The cells of all packets but one are as they should be.\<close>

definition buf_ok_but :: "pkt_key \<Rightarrow> ('o \<Rightarrow> nat) \<Rightarrow> ('o \<Rightarrow> pkt_key \<rightharpoonup> nat) \<Rightarrow> ('i \<Rightarrow> nat) \<Rightarrow>
    ('i \<Rightarrow> u8 \<rightharpoonup> bytes) \<Rightarrow> ('o, 'i) FragmentReassemblyBuffer \<Rightarrow> bool" where
  "buf_ok_but key capo cono capi coni b \<longleftrightarrow>
     capo (frb_fragments b) = 1000 \<and>
     (\<forall>k a. k \<noteq> key \<longrightarrow> cono (frb_fragments b) k = Some a \<longrightarrow>
        a < length (frb_arcs b) \<and> meta_ok capi coni (frb_arcs b ! a)) \<and>
     inj_on (cono (frb_fragments b)) (dom (cono (frb_fragments b)))"

lemma reassemble_packet_view:
  assumes co: "moka_ok co capo cono" and ci: "moka_ok ci capi coni"
    and ok: "buf_ok_but key capo cono capi coni b"
    and a: "cono (frb_fragments b) key = Some a"
  obtains b' where "reassemble_packet co ci key b = (assemble (meta_view coni (frb_arcs b ! a)), b')"
    and "view cono coni b' = (view cono coni b)(key := None)"
    and "buf_ok capo cono capi coni b'"
proof -
  define meta where "meta = frb_arcs b ! a"
  obtain outer where rem: "cache_remove co key (frb_fragments b) = (Some a, outer)"
    and con: "cono outer = (cono (frb_fragments b))(key := None)" and cap: "capo outer = capo (frb_fragments b)"
    using moka_remove [OF co, of key "frb_fragments b"] a by metis
  obtain c1 where size: "total_size_loop ci (frag_ids (fm_frag_total meta)) 0 (fm_fragments meta) =
      (if whole (meta_view coni meta) then Some (0 + sum_list (map (\<lambda>i. length (the (coni (fm_fragments meta) i)))
           (frag_ids (fm_frag_total meta)))) else None, c1)"
    and c1: "coni c1 = coni (fm_fragments meta)"
    using total_size_loop_view [OF ci, of "frag_ids (fm_frag_total meta)" 0 "fm_fragments meta"]
    by (auto simp: whole_def meta_view_def)
  obtain c2 where comb: "combine_loop ci (frag_ids (fm_frag_total meta)) [] c1 =
      (if whole (meta_view coni meta) then Some ([] @ concat (map (\<lambda>i. the (coni c1 i)) (frag_ids (fm_frag_total meta))))
       else None, c2)"
    using combine_loop_view [OF ci, of "frag_ids (fm_frag_total meta)" "[]" c1] c1
    by (auto simp: whole_def meta_view_def)
  define b' where "b' = b\<lparr>frb_fragments := outer\<rparr>"
  have "reassemble_packet co ci key b = (assemble (meta_view coni meta), b')"
    by (simp add: reassemble_packet_def rem Let_def flip: meta_def)
       (simp add: size comb c1 assemble_def meta_view_def b'_def)
  moreover have "view cono coni b' = (view cono coni b)(key := None)"
    by (auto simp: view_def b'_def con)
  moreover have "buf_ok capo cono capi coni b'"
    using ok by (auto simp: buf_ok_def buf_ok_but_def b'_def con cap inj_on_def)
  ultimately show thesis
    using that by (simp add: meta_def)
qed

text \<open>The cell a fragment goes to, found in the cache or newly allocated.\<close>

definition new_meta :: "'i inner_ops \<Rightarrow> nat \<Rightarrow> FragmentInfo \<Rightarrow> 'i FragmentMetadata" where
  "new_meta ci now info = \<lparr>fm_frag_total = fi_frag_total info,
     fm_fragments = cache_new ci (unat (fi_frag_total info)), fm_last_updated = now,
     fm_source = fi_source info, fm_target = fi_target info\<rparr>"

definition new_pending :: "FragmentInfo \<Rightarrow> pending" where
  "new_pending info = \<lparr>p_total = fi_frag_total info, p_frags = Map.empty,
     p_source = fi_source info, p_target = fi_target info\<rparr>"

lemma entry_or_fresh:
  assumes co: "moka_ok co capo cono" and ci: "moka_ok ci capi coni"
    and ok: "buf_ok capo cono capi coni b"
    and pos: "0 < unat (fi_frag_total info)"
    and room: "key \<in> dom (view cono coni b) \<or> card (dom (view cono coni b)) < 1000"
  obtains a outer arcs where
    "cache_or_insert_with co key (length (frb_arcs b)) (frb_fragments b) = (a, outer)"
    and "arcs = (if a = length (frb_arcs b) then frb_arcs b @ [new_meta ci now info] else frb_arcs b)"
    and "cono outer = (cono (frb_fragments b))(key \<mapsto> a)" and "capo outer = 1000"
    and "a < length arcs" and "meta_ok capi coni (arcs ! a)"
    and "meta_view coni (arcs ! a) = (case view cono coni b key of Some p \<Rightarrow> p | None \<Rightarrow> new_pending info)"
    and "\<And>k x. k \<noteq> key \<Longrightarrow> cono (frb_fragments b) k = Some x \<Longrightarrow>
      x < length arcs \<and> x \<noteq> a \<and> arcs ! x = frb_arcs b ! x"
proof (cases "cono (frb_fragments b) key")
  case (Some a)
  then obtain outer where "cache_or_insert_with co key (length (frb_arcs b)) (frb_fragments b) = (a, outer)"
    and "cono outer = cono (frb_fragments b)" and "capo outer = capo (frb_fragments b)"
    using moka_or_insert_present [OF co] by metis
  moreover note buf_okD(1,2) [OF ok Some]
  moreover have "x < length (frb_arcs b) \<and> x \<noteq> a" if "k \<noteq> key" and "cono (frb_fragments b) k = Some x" for k x
    using buf_okD(1) [OF ok that(2)] buf_okD(3) [OF ok Some, of k] that by auto
  ultimately show thesis
    using Some ok by (intro that [of a outer]) (auto simp: buf_ok_def [of capo] view_def)
next
  case None
  then have "card (dom (cono (frb_fragments b))) < capo (frb_fragments b)"
    using room ok by (auto simp: dom_view buf_ok_def)
  then obtain outer where "cache_or_insert_with co key (length (frb_arcs b)) (frb_fragments b) = (length (frb_arcs b), outer)"
    and "cono outer = (cono (frb_fragments b))(key \<mapsto> length (frb_arcs b))" and "capo outer = capo (frb_fragments b)"
    using moka_or_insert_absent [OF co None] by metis
  moreover have "meta_ok capi coni (new_meta ci now info)"
    and "meta_view coni (new_meta ci now info) = new_pending info"
    using pos by (simp_all add: meta_ok_def new_meta_def meta_view_def new_pending_def moka_new [OF ci])
  moreover have "x < Suc (length (frb_arcs b)) \<and> x < length (frb_arcs b)" if "cono (frb_fragments b) k = Some x" for k x
    using buf_okD(1) [OF ok that] by simp
  moreover have "capo (frb_fragments b) = 1000"
    using ok by (simp add: buf_ok_def)
  ultimately show thesis
    using None by (intro that [of "length (frb_arcs b)" outer]) (auto simp: view_def nth_append)
qed

text \<open>Storing the fragment in the cell.\<close>

definition put_fragment :: "'i inner_ops \<Rightarrow> nat \<Rightarrow> FragmentInfo \<Rightarrow> bytes \<Rightarrow> 'i FragmentMetadata \<Rightarrow> 'i FragmentMetadata" where
  "put_fragment ci now info payload meta = meta\<lparr>
     fm_target := (if fi_frag_id info = 0 \<and> \<not> is_placeholder (fi_target info) then fi_target info else fm_target meta),
     fm_last_updated := now,
     fm_fragments := cache_run_pending ci (cache_insert ci (fi_frag_id info) payload (fm_fragments meta))\<rparr>"

lemma put_fragment_view:
  assumes ci: "moka_ok ci capi coni" and ok: "meta_ok capi coni meta"
    and s: "meta_view coni meta = (case s of Some p \<Rightarrow> p | None \<Rightarrow> new_pending info)"
  shows "meta_view coni (put_fragment ci now info payload meta) = slot_put info payload s"
    and "cache_entry_count ci (fm_fragments (put_fragment ci now info payload meta)) =
      card (dom (p_frags (slot_put info payload s)))"
    and "capi (fm_fragments (put_fragment ci now info payload meta)) = unat (fm_frag_total meta)"
    and "card (dom (p_frags (slot_put info payload s))) \<le> unat (fm_frag_total meta)"
proof -
  define c where "c = cache_insert ci (fi_frag_id info) payload (fm_fragments meta)"
  have room: "card (insert (fi_frag_id info) (dom (coni (fm_fragments meta)))) \<le> capi (fm_fragments meta)"
    using ok moka_finite [OF ci, of "fm_fragments meta"]
    by (auto simp: meta_ok_def card_insert_if)
  then have con: "coni c = (coni (fm_fragments meta))(fi_frag_id info \<mapsto> payload)"
    unfolding c_def by (rule moka_insert(2) [OF ci])
  have cap: "capi c = unat (fm_frag_total meta)"
    using ok by (simp add: c_def moka_insert(1) [OF ci] meta_ok_def)
  have card: "card (dom (coni c)) \<le> capi c"
    using room cap ok by (simp add: con meta_ok_def)
  note run = moka_run_pending(2,3) [OF ci card]
  have put: "p_frags (slot_put info payload s) = coni c"
    using s by (cases s) (auto simp: slot_put_def con meta_view_def new_pending_def)
  show "meta_view coni (put_fragment ci now info payload meta) = slot_put info payload s"
    using s by (cases s)
      (auto simp: put_fragment_def meta_view_def slot_put_def run(1) con new_pending_def simp flip: c_def)
  show "cache_entry_count ci (fm_fragments (put_fragment ci now info payload meta)) =
      card (dom (p_frags (slot_put info payload s)))"
    by (simp add: put_fragment_def put run(2) flip: c_def)
  show "capi (fm_fragments (put_fragment ci now info payload meta)) = unat (fm_frag_total meta)"
    by (simp add: put_fragment_def moka_run_pending(1) [OF ci] cap flip: c_def)
  show "card (dom (p_frags (slot_put info payload s))) \<le> unat (fm_frag_total meta)"
    using card cap by (simp add: put)
qed

lemma add_fragment_unfold:
  assumes "cache_or_insert_with co (info_key info) (length (frb_arcs b)) (frb_fragments b) = (a, outer)"
    and "arcs = (if a = length (frb_arcs b) then frb_arcs b @ [new_meta ci now info] else frb_arcs b)"
  shows "add_fragment co ci now info payload b =
     (let meta = put_fragment ci now info payload (arcs ! a);
          b1 = b\<lparr>frb_fragments := outer, frb_arcs := arcs[a := meta]\<rparr>
      in if cache_entry_count ci (fm_fragments meta) = unat (fm_frag_total meta)
         then reassemble_packet co ci (info_key info) b1 else (None, b1))"
proof -
  note arcs = assms(2) [symmetric, unfolded new_meta_def]
  show ?thesis
    using assms(1)
    by (cases "arcs ! a") (simp add: add_fragment_def info_key_def Let_def put_fragment_def arcs)
qed

theorem add_fragment_refines_spec:
  assumes co: "moka_ok co capo cono" and ci: "moka_ok ci capi coni"
    and ok: "buf_ok capo cono capi coni b"
    and pos: "0 < unat (fi_frag_total info)"
    and room: "info_key info \<in> dom (view cono coni b) \<or> card (dom (view cono coni b)) < 1000"
  obtains b' where
    "add_fragment co ci now info payload b = (fst (spec_add info payload (view cono coni b)), b')"
    and "view cono coni b' = snd (spec_add info payload (view cono coni b))"
    and "buf_ok capo cono capi coni b'"
proof -
  let ?key = "info_key info" and ?v = "view cono coni b"
  obtain a outer arcs where
    entry: "cache_or_insert_with co ?key (length (frb_arcs b)) (frb_fragments b) = (a, outer)"
    and arcs: "arcs = (if a = length (frb_arcs b) then frb_arcs b @ [new_meta ci now info] else frb_arcs b)"
    and con: "cono outer = (cono (frb_fragments b))(?key \<mapsto> a)" and cap: "capo outer = 1000"
    and a: "a < length arcs" and meta: "meta_ok capi coni (arcs ! a)"
    and p: "meta_view coni (arcs ! a) = (case ?v ?key of Some p \<Rightarrow> p | None \<Rightarrow> new_pending info)"
    and other: "\<And>k x. k \<noteq> ?key \<Longrightarrow> cono (frb_fragments b) k = Some x \<Longrightarrow>
      x < length arcs \<and> x \<noteq> a \<and> arcs ! x = frb_arcs b ! x"
    using entry_or_fresh [OF co ci ok pos room, where now = now] by blast
  define m where "m = put_fragment ci now info payload (arcs ! a)"
  define b1 where "b1 = b\<lparr>frb_fragments := outer, frb_arcs := arcs[a := m]\<rparr>"
  note put = put_fragment_view(1-3) [OF ci meta p, where now = now and payload = payload, folded m_def]
    put_fragment_view(4) [OF ci meta p, where payload = payload]
  have total: "fm_frag_total m = p_total (slot_put info payload (?v ?key))"
    using arg_cong [OF put(1), of p_total] by (simp add: meta_view_def)
  have total': "fm_frag_total m = fm_frag_total (arcs ! a)"
    by (simp add: m_def put_fragment_def)
  have cells: "x < length arcs \<and> meta_ok capi coni (frb_arcs b ! x) \<and> arcs[a := m] ! x = frb_arcs b ! x"
    if "k \<noteq> ?key" and "cono (frb_fragments b) k = Some x" for k x
    using other [OF that] buf_okD(2) [OF ok that(2)] by simp
  have inj: "inj_on (cono outer) (dom (cono outer))"
    using ok other unfolding con buf_ok_def by (intro inj_on_map_upd) blast+
  have but: "buf_ok_but ?key capo cono capi coni b1"
    using cells cap inj by (simp add: buf_ok_but_def b1_def con)
  have view1: "view cono coni b1 = ?v(?key \<mapsto> slot_put info payload (?v ?key))"
  proof
    fix k
    show "view cono coni b1 k = (?v(?key \<mapsto> slot_put info payload (?v ?key))) k"
    proof (cases "k = ?key")
      case True
      with a put(1) show ?thesis by (simp add: view_def b1_def con)
    next
      case False
      then show ?thesis
        using cells [OF False] by (cases "cono (frb_fragments b) k") (simp_all add: view_def b1_def con)
    qed
  qed
  have step: "add_fragment co ci now info payload b =
     (if card (dom (p_frags (slot_put info payload (?v ?key)))) = unat (p_total (slot_put info payload (?v ?key)))
      then reassemble_packet co ci ?key b1 else (None, b1))"
    using add_fragment_unfold [OF entry arcs, where payload = payload] put(2) total
    by (simp add: Let_def flip: m_def b1_def)
  show thesis
  proof (cases "card (dom (p_frags (slot_put info payload (?v ?key)))) = unat (p_total (slot_put info payload (?v ?key)))")
    case True
    have "cono (frb_fragments b1) ?key = Some a" and "meta_view coni (frb_arcs b1 ! a) = slot_put info payload (?v ?key)"
      using a put(1) by (simp_all add: b1_def con)
    then obtain b' where "reassemble_packet co ci ?key b1 = (assemble (slot_put info payload (?v ?key)), b')"
      and "view cono coni b' = (view cono coni b1)(?key := None)" and "buf_ok capo cono capi coni b'"
      using reassemble_packet_view [OF co ci but] by metis
    with True step view1 show thesis
      by (intro that [of b']) (simp_all add: spec_add_def slot_add_def Let_def)
  next
    case False
    have "meta_ok capi coni m"
      using False put(3,4) total total' arg_cong [OF put(1), of p_frags]
      by (simp add: meta_ok_def meta_view_def)
    then have "buf_ok capo cono capi coni b1"
      using but a by (auto simp: buf_ok_def buf_ok_but_def b1_def con)
    with False step view1 show thesis
      by (intro that [of b1]) (simp_all add: spec_add_def slot_add_def Let_def)
  qed
qed

end
