(* ===== verification/Reassembly_Runs.thy ===== *)
theory Reassembly_Runs
  imports Reassembly
begin

text \<open>
  Sequences of fragments. \<open>add_fragments\<close> feeds arrivals, in any order and interleaved over
  packets, to the reassembly buffer. By refinement the answers are those of the specification,
  by locality the answers for one packet are those its own fragments give, and for the
  fragments of one packet the answers do not depend on their order or on repetitions: the
  packet comes out once, at the moment its last missing fragment arrives.
\<close>

type_synonym arrival = "nat \<times> FragmentInfo \<times> bytes"

fun add_fragments :: "'o outer_ops \<Rightarrow> 'i inner_ops \<Rightarrow> arrival list \<Rightarrow> ('o, 'i) FragmentReassemblyBuffer \<Rightarrow>
    UdpPacket option list \<times> ('o, 'i) FragmentReassemblyBuffer" where
  "add_fragments co ci [] b = ([], b)"
| "add_fragments co ci ((now, info, payload) # xs) b =
     (let (r, b1) = add_fragment co ci now info payload b;
          (rs, b2) = add_fragments co ci xs b1
      in (r # rs, b2))"

fun spec_adds :: "arrival list \<Rightarrow> (pkt_key \<rightharpoonup> pending) \<Rightarrow> UdpPacket option list \<times> (pkt_key \<rightharpoonup> pending)" where
  "spec_adds [] m = ([], m)"
| "spec_adds ((now, info, payload) # xs) m =
     (let (r, m1) = spec_add info payload m; (rs, m2) = spec_adds xs m1 in (r # rs, m2))"

fun slot_adds :: "(FragmentInfo \<times> bytes) list \<Rightarrow> pending option \<Rightarrow> UdpPacket option list \<times> pending option" where
  "slot_adds [] s = ([], s)"
| "slot_adds ((info, payload) # xs) s =
     (let (r, s1) = slot_add info payload s; (rs, s2) = slot_adds xs s1 in (r # rs, s2))"

definition arrival_key :: "arrival \<Rightarrow> pkt_key" where
  "arrival_key x = info_key (fst (snd x))"

definition arrivals_of :: "pkt_key \<Rightarrow> arrival list \<Rightarrow> (FragmentInfo \<times> bytes) list" where
  "arrivals_of key xs = map snd (filter (\<lambda>x. arrival_key x = key) xs)"

definition answers_of :: "pkt_key \<Rightarrow> arrival list \<Rightarrow> 'r list \<Rightarrow> 'r list" where
  "answers_of key xs rs = map snd (filter (\<lambda>(x, r). arrival_key x = key) (zip xs rs))"

section \<open>Refinement and locality\<close>

lemma add_fragments_refine:
  assumes "moka_ok co capo cono" and "moka_ok ci capi coni"
    and "finite K" and "card K \<le> 1000"
    and "buf_ok capo cono capi coni b" and "dom (view cono coni b) \<subseteq> K"
    and "\<And>x. x \<in> set xs \<Longrightarrow> arrival_key x \<in> K \<and> 0 < unat (fi_frag_total (fst (snd x)))"
  obtains b' where "add_fragments co ci xs b = (fst (spec_adds xs (view cono coni b)), b')"
    and "view cono coni b' = snd (spec_adds xs (view cono coni b))" and "buf_ok capo cono capi coni b'"
  using assms(5-)
proof (induction xs arbitrary: b thesis)
  case Nil
  then show ?case by (intro Nil.prems(1) [of b]) simp_all
next
  case (Cons x xs)
  obtain now info payload where x [simp]: "x = (now, info, payload)" by (cases x)
  have key: "info_key info \<in> K" and pos: "0 < unat (fi_frag_total info)"
    using Cons.prems(4) [of x] by (simp_all add: arrival_key_def)
  have "card (dom (view cono coni b)) < card K" if "info_key info \<notin> dom (view cono coni b)"
    using that key Cons.prems(3) assms(3) by (intro psubset_card_mono) auto
  then have room: "info_key info \<in> dom (view cono coni b) \<or> card (dom (view cono coni b)) < 1000"
    using assms(4) by linarith
  obtain b1 where b1: "add_fragment co ci now info payload b = (fst (spec_add info payload (view cono coni b)), b1)"
      "view cono coni b1 = snd (spec_add info payload (view cono coni b))" "buf_ok capo cono capi coni b1"
    using add_fragment_refines_spec [OF assms(1,2) Cons.prems(2) pos room, where now = now and payload = payload] by blast
  have "dom (view cono coni b1) \<subseteq> K"
    using b1(2) Cons.prems(3) key by (auto simp: spec_add_def split: prod.splits if_splits)
  then obtain b2 where "add_fragments co ci xs b1 = (fst (spec_adds xs (view cono coni b1)), b2)"
      "view cono coni b2 = snd (spec_adds xs (view cono coni b1))" "buf_ok capo cono capi coni b2"
    using Cons.IH [OF _ b1(3)] Cons.prems(4) by (metis list.set_intros(2))
  with b1 show ?case
    by (intro Cons.prems(1) [of b2]) (simp_all add: split_beta Let_def)
qed

lemma spec_adds_local:
  "answers_of key xs (fst (spec_adds xs m)) = fst (slot_adds (arrivals_of key xs) (m key))"
  "snd (spec_adds xs m) key = snd (slot_adds (arrivals_of key xs) (m key))"
  by (induction xs arbitrary: m)
    (auto simp: answers_of_def arrivals_of_def arrival_key_def spec_add_def split_beta Let_def)

section \<open>The fragments of one packet\<close>

text \<open>
  The fragments of a packet cut into \<open>cs\<close>: numbered from 0, each with the number of pieces, the
  target of each given by \<open>tgt\<close> (only that of the first piece matters).
\<close>

definition piece :: "pkt_key \<Rightarrow> TargetAddr option \<Rightarrow> (nat \<Rightarrow> TargetAddr) \<Rightarrow> bytes list \<Rightarrow> nat \<Rightarrow> FragmentInfo \<times> bytes" where
  "piece key src tgt cs i =
     (\<lparr>fi_assoc_id = fst key, fi_pkt_id = snd key, fi_frag_total = of_nat (length cs), fi_frag_id = of_nat i,
       fi_source = src, fi_target = tgt i\<rparr>, cs ! i)"

text \<open>What has been collected when the pieces \<open>js\<close> have arrived.\<close>

definition collected :: "TargetAddr option \<Rightarrow> (nat \<Rightarrow> TargetAddr) \<Rightarrow> bytes list \<Rightarrow> nat list \<Rightarrow> pending option" where
  "collected src tgt cs js = (if js = [] then None else Some
     \<lparr>p_total = of_nat (length cs),
      p_frags = (\<lambda>i. if unat i \<in> set js then Some (cs ! unat i) else None),
      p_source = src,
      p_target = tgt (if 0 \<in> set js then 0 else hd js)\<rparr>)"

lemma slot_put_piece:
  assumes "j < length cs" and "length cs \<le> 255" and "\<not> is_placeholder (tgt 0)"
  shows "Some (slot_put (fst (piece key src tgt cs j)) (snd (piece key src tgt cs j)) (collected src tgt cs js)) =
    collected src tgt cs (js @ [j])"
proof -
  have eq: "x = of_nat j \<longleftrightarrow> unat x = j" for x :: u8
    using assms(1,2) of_nat_u8_eq_iff [of j x] by auto
  have zero: "of_nat j = (0 :: u8) \<longleftrightarrow> j = 0"
    using eq [of 0] by auto
  have "unat (of_nat j :: u8) = j"
    using assms(1,2) by (simp add: unat_of_nat_u8)
  then have frags: "(\<lambda>i :: u8. if unat i \<in> set js then Some (cs ! unat i) else None)(of_nat j \<mapsto> cs ! j) =
      (\<lambda>i. if unat i \<in> set (js @ [j]) then Some (cs ! unat i) else None)"
    by (auto simp: fun_eq_iff eq)
  show ?thesis
  proof (cases "js = []")
    case True
    with frags have "[of_nat j \<mapsto> cs ! j] = (\<lambda>i :: u8. if unat i = j then Some (cs ! unat i) else None)"
      by simp
    with True assms(3) show ?thesis
      by (simp add: slot_put_def piece_def collected_def zero)
  next
    case False
    with frags assms(3) show ?thesis
      by (simp add: slot_put_def piece_def collected_def zero)
  qed
qed

lemma dom_collected:
  assumes "set js \<subseteq> {..<length cs}" and "length cs \<le> 255"
  shows "card (dom (\<lambda>i :: u8. if unat i \<in> set js then Some (cs ! unat i) else None)) = card (set js)"
proof -
  have u: "unat (of_nat k :: u8) = k" if "k \<in> set js" for k
    using that assms by (intro unat_of_nat_u8) auto
  then have "inj_on (of_nat :: nat \<Rightarrow> u8) (set js)"
    by (rule inj_on_inverseI)
  moreover have "x \<in> of_nat ` set js \<longleftrightarrow> unat x \<in> set js" for x :: u8
    using u by (auto intro: image_eqI [of _ _ "unat x"])
  then have "dom (\<lambda>i :: u8. if unat i \<in> set js then Some (cs ! unat i) else None) = of_nat ` set js"
    unfolding set_eq_iff by (simp add: dom_def)
  ultimately show ?thesis
    by (simp add: card_image)
qed

lemma frag_ids_of_nat:
  "n \<le> 255 \<Longrightarrow> frag_ids (of_nat n) = map of_nat [0..<n]"
  by (simp add: frag_ids_def unat_of_nat_u8)

lemma concat_frag_ids:
  assumes "length cs \<le> 255"
  shows "concat (map (\<lambda>i. cs ! unat i) (frag_ids (of_nat (length cs)))) = concat cs"
proof -
  have "map (\<lambda>i. cs ! unat i) (frag_ids (of_nat (length cs))) = map ((!) cs) [0..<length cs]"
    using assms by (simp add: frag_ids_of_nat unat_of_nat_u8)
  then show ?thesis by (simp add: map_nth)
qed

lemma assemble_collected:
  assumes "length cs \<le> 255" and "set js = {..<length cs}" and "js \<noteq> []"
  shows "map_option assemble (collected src tgt cs js) =
    Some (Some \<lparr>pk_source = src, pk_target = tgt 0, pk_payload = concat cs\<rparr>)"
proof -
  define frags where "frags = (\<lambda>i :: u8. if unat i \<in> set js then Some (cs ! unat i) else None)"
  have zero: "0 \<in> set js"
    using assms(2,3) by force
  have frag: "frags i = Some (cs ! unat i)" if i: "i \<in> set (frag_ids (of_nat (length cs)))" for i
  proof -
    obtain k where "k < length cs" and "i = of_nat k"
      using i assms(1) by (auto simp: frag_ids_of_nat)
    with assms(1,2) show ?thesis by (simp add: frags_def unat_of_nat_u8)
  qed
  then have eq: "map (\<lambda>i. the (frags i)) (frag_ids (of_nat (length cs))) = map (\<lambda>i. cs ! unat i) (frag_ids (of_nat (length cs)))"
    by simp
  from frag have "assemble \<lparr>p_total = of_nat (length cs), p_frags = frags, p_source = src, p_target = tgt 0\<rparr> =
      Some \<lparr>pk_source = src, pk_target = tgt 0, pk_payload = concat cs\<rparr>"
    by (simp add: assemble_def whole_def eq concat_frag_ids [OF assms(1)])
  with zero assms(3) show ?thesis
    by (simp add: collected_def frags_def)
qed

lemma slot_add_piece:
  assumes "j < length cs" and "length cs \<le> 255" and "\<not> is_placeholder (tgt 0)"
    and "set js \<subseteq> {..<length cs}"
  shows "slot_add (fst (piece key src tgt cs j)) (snd (piece key src tgt cs j)) (collected src tgt cs js) =
    (if insert j (set js) = {..<length cs}
     then (Some \<lparr>pk_source = src, pk_target = tgt 0, pk_payload = concat cs\<rparr>, None)
     else (None, collected src tgt cs (js @ [j])))"
proof -
  define p where "p = slot_put (fst (piece key src tgt cs j)) (snd (piece key src tgt cs j)) (collected src tgt cs js)"
  have p: "collected src tgt cs (js @ [j]) = Some p"
    using slot_put_piece [of j cs tgt key src js] assms(1-3) by (simp add: p_def)
  have sub: "set (js @ [j]) \<subseteq> {..<length cs}"
    using assms(1,4) by auto
  have "card (dom (p_frags p)) = card (set (js @ [j]))" and "unat (p_total p) = length cs"
    using p dom_collected [OF sub assms(2)] assms(2) by (auto simp: collected_def unat_of_nat_u8)
  moreover have "card (set (js @ [j])) = length cs \<longleftrightarrow> set (js @ [j]) = {..<length cs}"
    using sub card_subset_eq [of "{..<length cs}" "set (js @ [j])"] by auto
  ultimately show ?thesis
    using assemble_collected [OF assms(2), of "js @ [j]" src tgt] p
    by (simp add: slot_add_def Let_def flip: p_def)
qed

lemma slot_adds_append:
  "slot_adds (xs @ ys) s =
     (fst (slot_adds xs s) @ fst (slot_adds ys (snd (slot_adds xs s))), snd (slot_adds ys (snd (slot_adds xs s))))"
  by (induction xs arbitrary: s) (auto simp: split_beta Let_def)

lemma slot_adds_pieces:
  assumes "length cs \<le> 255" and "\<not> is_placeholder (tgt 0)" and "set js \<subset> {..<length cs}"
  shows "slot_adds (map (piece key src tgt cs) js) None =
    (replicate (length js) None, collected src tgt cs js)"
  using assms(3)
proof (induction js rule: rev_induct)
  case Nil
  then show ?case by (simp add: collected_def)
next
  case (snoc j js)
  then have "j < length cs" and "set js \<subset> {..<length cs}" and "insert j (set js) \<noteq> {..<length cs}"
    by auto
  with snoc.IH slot_add_piece [of j cs tgt js key src] assms(1,2) show ?case
    by (cases "piece key src tgt cs j") (simp add: slot_adds_append psubset_imp_subset replicate_append_same)
qed

lemma slot_adds_complete:
  assumes "length cs \<le> 255" and "\<not> is_placeholder (tgt 0)"
    and "j < length cs" and "set js = {..<length cs} - {j}"
  shows "slot_adds (map (piece key src tgt cs) (js @ [j])) None =
    (replicate (length js) None @ [Some \<lparr>pk_source = src, pk_target = tgt 0, pk_payload = concat cs\<rparr>], None)"
proof -
  have "set js \<subset> {..<length cs}" and "insert j (set js) = {..<length cs}"
    using assms(3,4) by auto
  with assms slot_adds_pieces [of cs tgt js key src] slot_add_piece [of j cs tgt js key src] show ?thesis
    by (cases "piece key src tgt cs j")
       (simp add: slot_adds_append psubset_imp_subset)
qed

section \<open>The buffer\<close>

text \<open>
  C2. Reassembly is independent of the order of arrival. A packet is cut into at most 255 pieces,
  and the fragments that arrive, of this packet and of any others, belong to at most 1000
  packets. If all pieces but \<open>j\<close> of the packet have arrived, in any order, each once or several
  times, and then \<open>j\<close> arrives, the buffer answers nothing up to then, answers the arrival of
  \<open>j\<close> with the packet (the pieces concatenated in the order of their numbers, the target the
  first piece names, the source), and has forgotten the packet afterwards.
\<close>

theorem add_fragments_any_order:
  assumes "moka_ok co capo cono" and "moka_ok ci capi coni"
    and "buf_ok capo cono capi coni b" and "view cono coni b key = None"
    and "finite K" and "card K \<le> 1000" and "dom (view cono coni b) \<subseteq> K"
    and "\<forall>x \<in> set xs. arrival_key x \<in> K \<and> 0 < unat (fi_frag_total (fst (snd x)))"
    and "length cs \<le> 255" and "\<not> is_placeholder (tgt 0)"
    and "j < length cs" and "set js = {..<length cs} - {j}"
    and "arrivals_of key xs = map (piece key src tgt cs) (js @ [j])"
  shows "answers_of key xs (fst (add_fragments co ci xs b)) =
      replicate (length js) None @ [Some \<lparr>pk_source = src, pk_target = tgt 0, pk_payload = concat cs\<rparr>] \<and>
    view cono coni (snd (add_fragments co ci xs b)) key = None"
proof -
  obtain b' where "add_fragments co ci xs b = (fst (spec_adds xs (view cono coni b)), b')"
    and "view cono coni b' = snd (spec_adds xs (view cono coni b))"
    using add_fragments_refine [OF assms(1,2,5,6,3,7)] assms(8) by blast
  with slot_adds_complete [of cs tgt j js key src] assms(4,9-) show ?thesis
    by (simp add: spec_adds_local)
qed

definition sample_target :: "nat \<Rightarrow> TargetAddr" where
  "sample_target i = (if i = 0 then TDomain ''a.b'' 53 else TIPv4 ipv4_unspecified 0)"

text \<open>Three pieces of packet (7, 1), the last first and twice, around a fragment of packet (7, 2).\<close>

definition sample_arrivals :: "arrival list" where
  "sample_arrivals =
     [(5, piece (7, 1) None sample_target [[1, 2], [3, 4], [5]] 2),
      (5, piece (7, 2) None sample_target [[8], [9]] 1),
      (6, piece (7, 1) None sample_target [[1, 2], [3, 4], [5]] 0),
      (6, piece (7, 1) None sample_target [[1, 2], [3, 4], [5]] 2),
      (8, piece (7, 1) None sample_target [[1, 2], [3, 4], [5]] 1)]"

theorem add_fragments_any_order_witness:
  "answers_of (7, 1) sample_arrivals
     (fst (add_fragments alist_cache alist_cache sample_arrivals (FragmentReassemblyBuffer_new alist_cache))) =
   [None, None, None, Some \<lparr>pk_source = None, pk_target = TDomain ''a.b'' 53, pk_payload = [1, 2, 3, 4, 5]\<rparr>]"
proof -
  have "\<forall>x \<in> set sample_arrivals. arrival_key x \<in> {(7, 1), (7, 2)} \<and> 0 < unat (fi_frag_total (fst (snd x)))"
    and "arrivals_of (7, 1) sample_arrivals = map (piece (7, 1) None sample_target [[1, 2], [3, 4], [5]]) ([2, 0, 2] @ [1])"
    by (simp_all add: sample_arrivals_def arrival_key_def info_key_def piece_def arrivals_of_def)
  moreover have "set [2, 0, 2] = {..<length [[1, 2], [3, 4], [5 :: u8]]} - {1}"
    by auto
  ultimately show ?thesis
    using add_fragments_any_order [OF alist_cache_ok alist_cache_ok new_buf(1) [OF alist_cache_ok],
      where K = "{(7, 1), (7, 2)}" and xs = sample_arrivals and cs = "[[1, 2], [3, 4], [5]]"
        and js = "[2, 0, 2]" and j = 1 and tgt = sample_target and key = "(7, 1)" and src = None]
    by (simp add: new_buf(2) [OF alist_cache_ok] sample_target_def)
qed

text \<open>
  C23. The cache-based buffer implements the abstract one. On a buffer whose entries refer to distinct,
  partly filled cells, with room for the fragment's packet, \<open>add_fragment\<close> gives the answer of
  \<open>spec_add\<close>, changes the view of the buffer as \<open>spec_add\<close> does, and keeps the buffer well formed.
\<close>

theorem add_fragment_refines:
  assumes "moka_ok co capo cono" and "moka_ok ci capi coni"
    and "buf_ok capo cono capi coni b" and "0 < unat (fi_frag_total info)"
    and "info_key info \<in> dom (view cono coni b) \<or> card (dom (view cono coni b)) < 1000"
  shows "fst (add_fragment co ci now info payload b) = fst (spec_add info payload (view cono coni b)) \<and>
    view cono coni (snd (add_fragment co ci now info payload b)) = snd (spec_add info payload (view cono coni b)) \<and>
    buf_ok capo cono capi coni (snd (add_fragment co ci now info payload b))"
  using add_fragment_refines_spec [OF assms, of now payload] by (metis fst_conv snd_conv)

theorem add_fragment_refines_witness:
  "fst (add_fragment alist_cache alist_cache 3 (fst (piece (7, 1) None sample_target [[4, 5]] 0)) [4, 5]
     (FragmentReassemblyBuffer_new alist_cache)) =
   Some \<lparr>pk_source = None, pk_target = TDomain ''a.b'' 53, pk_payload = [4, 5]\<rparr>"
  using add_fragment_refines [OF alist_cache_ok alist_cache_ok new_buf(1) [OF alist_cache_ok],
      of "fst (piece (7, 1) None sample_target [[4, 5]] 0)" 3 "[4, 5]"]
  by (simp add: new_buf(2) [OF alist_cache_ok] spec_add_def slot_add_def slot_put_def piece_def sample_target_def
      assemble_def whole_def frag_ids_def info_key_def Let_def)

text \<open>
  C27. A fragment number outside the announced range. The numbers are not checked against the count: as
  soon as as many different numbers have arrived as the packet has fragments, and one of them is out
  of range, the buffer gives up the packet, answers nothing and forgets all its fragments.
\<close>

theorem add_fragment_number_out_of_range:
  assumes "moka_ok co capo cono" and "moka_ok ci capi coni" and "buf_ok capo cono capi coni b"
    and "0 < unat (fi_frag_total info)"
    and "view cono coni b (info_key info) = Some p"
    and "card (insert (fi_frag_id info) (dom (p_frags p))) = unat (p_total p)"
    and "i \<in> insert (fi_frag_id info) (dom (p_frags p))" and "p_total p \<le> i"
  shows "fst (add_fragment co ci now info payload b) = None \<and>
    view cono coni (snd (add_fragment co ci now info payload b)) (info_key info) = None"
proof -
  let ?p = "slot_put info payload (Some p)"
  have put: "dom (p_frags ?p) = insert (fi_frag_id info) (dom (p_frags p))" "p_total ?p = p_total p"
    by (auto simp: slot_put_def)
  have "\<not> whole ?p"
  proof
    assume whole: "whole ?p"
    have "set (frag_ids (p_total p)) \<subseteq> dom (p_frags ?p)"
      using whole by (auto simp: whole_def put(2))
    moreover have "card (set (frag_ids (p_total p))) = unat (p_total p)"
      by (rule card_frag_ids)
    ultimately have "dom (p_frags ?p) = set (frag_ids (p_total p))"
      using assms(6) put(1) by (metis card_subset_eq finite)
    then have "i \<in> set (frag_ids (p_total p))"
      using assms(7) put(1) by simp
    then show False
      using assms(8) by (simp add: mem_frag_ids)
  qed
  then have "slot_add info payload (Some p) = (None, None)"
    using assms(6) put by (simp add: slot_add_def Let_def assemble_def)
  moreover obtain b' where "add_fragment co ci now info payload b = (fst (spec_add info payload (view cono coni b)), b')"
    and "view cono coni b' = snd (spec_add info payload (view cono coni b))"
    using add_fragment_refines_spec [OF assms(1-4), of now payload] assms(5) by (metis domI)
  ultimately show ?thesis
    using assms(5) by (simp add: spec_add_def)
qed

text \<open>A buffer that holds the first of two fragments of packet (7, 1).\<close>

definition sample_buffer :: "((pkt_key, nat) alist_state, (u8, bytes) alist_state) FragmentReassemblyBuffer" where
  "sample_buffer = \<lparr>frb_fragments = (1000, [((7, 1), 0)]),
     frb_arcs = [\<lparr>fm_frag_total = 2, fm_fragments = (2, [(0, [1])]), fm_last_updated = 3,
       fm_source = None, fm_target = TDomain ''a.b'' 53\<rparr>]\<rparr>"

lemma sample_buffer_reached:
  "add_fragment alist_cache alist_cache 3 (fst (piece (7, 1) None sample_target [[1], [2]] 0)) [1]
     (FragmentReassemblyBuffer_new alist_cache) = (None, sample_buffer)"
  by (simp add: add_fragment_def FragmentReassemblyBuffer_new_def alist_cache_simps sample_buffer_def
      piece_def sample_target_def Let_def)

lemma sample_buffer_ok: "buf_ok fst (\<lambda>c. map_of (snd c)) fst (\<lambda>c. map_of (snd c)) sample_buffer"
  by (simp add: buf_ok_def sample_buffer_def meta_ok_def)

theorem add_fragment_number_out_of_range_witness:
  "fst (add_fragment alist_cache alist_cache 4
     \<lparr>fi_assoc_id = 7, fi_pkt_id = 1, fi_frag_total = 2, fi_frag_id = 9, fi_source = None,
      fi_target = TIPv4 ipv4_unspecified 0\<rparr> [5] sample_buffer) = None"
  using add_fragment_number_out_of_range [OF alist_cache_ok alist_cache_ok sample_buffer_ok,
      where info = "\<lparr>fi_assoc_id = 7, fi_pkt_id = 1, fi_frag_total = 2, fi_frag_id = 9, fi_source = None,
      fi_target = TIPv4 ipv4_unspecified 0\<rparr>" and i = 9 and now = 4 and payload = "[5]"
      and p = "\<lparr>p_total = 2, p_frags = [0 \<mapsto> [1]], p_source = None, p_target = TDomain ''a.b'' 53\<rparr>"]
  by (simp add: view_def sample_buffer_def meta_view_def info_key_def)

end
