(* ===== verification/Udp_Stream.thy ===== *)
theory Udp_Stream
  imports Proto Reassembly_Runs
begin

text \<open>
  The UDP side of one association, \<^verbatim>\<open>UdpStream\<close> in
  \<^verbatim>\<open>crates/wind-tuic/src/proto/udp_stream.rs\<close>: sending a packet in one datagram or in
  fragments, and receiving fragments. The state of a stream holds what its operations change:
  the packet counter, the reassembly buffer, the packets passed to the local receive channel,
  and the log of the connection it sends on. The channel is third-party: \<open>chan_send\<close> tells from
  the packets it has taken whether it refuses the next one. \<open>oc\<close> is the overflow-check profile
  of the build.

  Shown here: what a send puts on the connection, that the pieces of a fragmented packet are
  the payload cut in order, that each datagram fits the connection's limit, that the count fits
  in a byte, and when a send panics.
\<close>

section \<open>State\<close>

record ('o, 'i) UdpStream =
  us_connection :: log
  us_assoc_id :: u16
  us_receive_tx :: "UdpPacket list"
  us_next_pkt_id :: u16
  us_fragment_buffer :: "('o, 'i) FragmentReassemblyBuffer"

definition MAX_FRAGMENTS :: u8 where
  "MAX_FRAGMENTS = 255"

definition UdpStream_new :: "'o outer_ops \<Rightarrow> log \<Rightarrow> u16 \<Rightarrow> ('o, 'i) UdpStream" where
  "UdpStream_new co connection assoc_id = \<lparr>
     us_connection = connection, us_assoc_id = assoc_id, us_receive_tx = [], us_next_pkt_id = 0,
     us_fragment_buffer = FragmentReassemblyBuffer_new co\<rparr>"

text \<open>An operation of the connection, run from the stream.\<close>

definition on_connection :: "(log, 'a, Error) comp \<Rightarrow> (('o, 'i) UdpStream, 'a, Error) comp" where
  "on_connection = zoom us_connection (\<lambda>l s. s\<lparr>us_connection := l\<rparr>)"

definition datagram_limit :: "quinn \<Rightarrow> ('o, 'i) UdpStream \<Rightarrow> nat" where
  "datagram_limit q s = (case max_datagram_size q (us_connection s) of Some n \<Rightarrow> n | None \<Rightarrow> 1200)"

definition fetch_add_pkt_id :: "(('o, 'i) UdpStream, u16, Error) comp" where
  "fetch_add_pkt_id s = (Ok (us_next_pkt_id s), s\<lparr>us_next_pkt_id := us_next_pkt_id s + 1\<rparr>)"

section \<open>Sending\<close>

fun target_addr_size :: "TargetAddr \<Rightarrow> nat" where
  "target_addr_size (TIPv4 _ _) = 1 + 4 + 2"
| "target_addr_size (TIPv6 _ _) = 1 + 16 + 2"
| "target_addr_size (TDomain domain _) = 1 + 1 + length domain + 2"

text \<open>
  The body of the loop over the fragment numbers. \<open>offset\<close> is the number of payload bytes sent
  so far.
\<close>

definition send_fragment ::
  "quinn \<Rightarrow> UdpPacket \<Rightarrow> u16 \<Rightarrow> u8 \<Rightarrow> nat \<Rightarrow> bytes \<Rightarrow> (('o, 'i) UdpStream, unit, Error) comp" where
  "send_fragment q packet pkt_id frag_total frag_id fragment_payload s =
     and_then (on_connection (buffered (HeaderCodec_encode (Header_new TyPacket) []))) (\<lambda>buf.
     and_then (on_connection (buffered (CmdCodec_encode TyPacket
         (Packet (us_assoc_id s) pkt_id frag_total (of_nat frag_id) (of_nat (length fragment_payload))) buf))) (\<lambda>buf.
     and_then (on_connection (buffered (AddressCodec_encode
         (if frag_id = 0 then Address_from (pk_target packet) else NoAddr) buf))) (\<lambda>buf.
     and_then (mapping_err (\<lambda>e. case e of EQuic m \<Rightarrow> EMsg (''Failed to send fragment: '' @ m) | _ \<Rightarrow> e)
         (on_connection (perform q (SendDatagram (buf @ fragment_payload))))) (\<lambda>_. pure ())))) s"

fun fragment_loop ::
  "bool \<Rightarrow> quinn \<Rightarrow> UdpPacket \<Rightarrow> nat \<Rightarrow> nat \<Rightarrow> u16 \<Rightarrow> u8 \<Rightarrow> nat list \<Rightarrow> nat \<Rightarrow>
     (('o, 'i) UdpStream, unit, Error) comp" where
  "fragment_loop oc q packet first_max subsequent_max pkt_id frag_total [] offset = pure ()"
| "fragment_loop oc q packet first_max subsequent_max pkt_id frag_total (frag_id # ids) offset =
     (let max_frag_payload = (if frag_id = 0 then first_max else subsequent_max) in
      case usize_sub oc (length (pk_payload packet)) offset of
        None \<Rightarrow> lift_result Panic
      | Some remaining \<Rightarrow>
          (let fragment_size = min remaining max_frag_payload;
               end' = offset + fragment_size in
           if length (pk_payload packet) < end' then lift_result Panic
           else and_then (send_fragment q packet pkt_id frag_total frag_id
                    (take fragment_size (drop offset (pk_payload packet)))) (\<lambda>_.
                fragment_loop oc q packet first_max subsequent_max pkt_id frag_total ids end')))"

text \<open>
  \<^verbatim>\<open>remaining_payload.div_ceil(d)\<close> panics for \<open>d = 0\<close>. The saturating subtractions of the source
  are those of the natural numbers.
\<close>

definition div_ceil :: "nat \<Rightarrow> nat \<Rightarrow> nat option" where
  "div_ceil n d = (if d = 0 then None else Some ((n + d - 1) div d))"

definition fragment_count :: "nat \<Rightarrow> nat \<Rightarrow> nat \<Rightarrow> nat option" where
  "fragment_count payload_len first_max subsequent_max =
     (if payload_len \<le> first_max then Some 1
      else map_option (\<lambda>n. 1 + n) (div_ceil (payload_len - first_max) subsequent_max))"

definition send_fragmented_packet :: "bool \<Rightarrow> quinn \<Rightarrow> UdpPacket \<Rightarrow> (('o, 'i) UdpStream, unit, Error) comp" where
  "send_fragmented_packet oc q packet s =
     (let payload_len = length (pk_payload packet);
          max_size = datagram_limit q s;
          first_max = max_size - (10 + target_addr_size (pk_target packet));
          subsequent_max = max_size - (10 + 1) in
      case fragment_count payload_len first_max subsequent_max of
        None \<Rightarrow> (Panic, s)
      | Some n \<Rightarrow>
          if unat MAX_FRAGMENTS < n
          then (Err (EMsg ''Packet too large for fragmentation, exceeds maximum fragment count''), s)
          else and_then fetch_add_pkt_id (\<lambda>pkt_id.
                 fragment_loop oc q packet first_max subsequent_max pkt_id (of_nat n) [0..<n] 0) s)"

definition send_packet :: "bool \<Rightarrow> quinn \<Rightarrow> UdpPacket \<Rightarrow> (('o, 'i) UdpStream, unit, Error) comp" where
  "send_packet oc q packet s =
     (if (case pk_target packet of TDomain domain _ \<Rightarrow> length domain > 255 | _ \<Rightarrow> False)
      then (Err (EMsg ''Domain name too long''), s)
      else case usize_sub oc (datagram_limit q s) (10 + target_addr_size (pk_target packet)) of
        None \<Rightarrow> (Panic, s)
      | Some room \<Rightarrow>
          if length (pk_payload packet) \<le> room
          then and_then (on_connection (send_udp q (us_assoc_id s) (us_next_pkt_id s) (pk_target packet)
                   (pk_payload packet) True)) (\<lambda>_.
               and_then fetch_add_pkt_id (\<lambda>_. pure ())) s
          else send_fragmented_packet oc q packet s)"

section \<open>Receiving\<close>

definition process_fragment ::
  "'o outer_ops \<Rightarrow> 'i inner_ops \<Rightarrow> nat \<Rightarrow> u16 \<Rightarrow> u16 \<Rightarrow> u8 \<Rightarrow> u8 \<Rightarrow> bytes \<Rightarrow> TargetAddr option \<Rightarrow> TargetAddr \<Rightarrow>
     ('o, 'i) UdpStream \<Rightarrow> UdpPacket option \<times> ('o, 'i) UdpStream" where
  "process_fragment co ci now assoc_id pkt_id frag_total frag_id payload source target s =
     (let (r, b) = add_fragment co ci now
            \<lparr>fi_assoc_id = assoc_id, fi_pkt_id = pkt_id, fi_frag_total = frag_total, fi_frag_id = frag_id,
             fi_source = source, fi_target = target\<rparr> payload (us_fragment_buffer s)
      in (r, s\<lparr>us_fragment_buffer := b\<rparr>))"

definition receive_packet ::
  "(UdpPacket list \<Rightarrow> UdpPacket \<Rightarrow> string option) \<Rightarrow> UdpPacket \<Rightarrow> (('o, 'i) UdpStream, unit, Error) comp" where
  "receive_packet chan_send packet s = (case chan_send (us_receive_tx s) packet of
     None \<Rightarrow> (Ok (), s\<lparr>us_receive_tx := us_receive_tx s @ [packet]\<rparr>)
   | Some e \<Rightarrow> (Err (EMsg (''Failed to send packet to receive channel: '' @ e)), s))"

definition collect_garbage :: "'o outer_ops \<Rightarrow> nat \<Rightarrow> ('o, 'i) UdpStream \<Rightarrow> ('o, 'i) UdpStream" where
  "collect_garbage co now_ms s =
     s\<lparr>us_fragment_buffer := cleanup_expired co now_ms (us_fragment_buffer s)\<rparr>"

definition close :: "quinn \<Rightarrow> (('o, 'i) UdpStream, unit, Error) comp" where
  "close q s = on_connection (drop_udp q (us_assoc_id s)) s"

section \<open>The pieces of a payload\<close>

text \<open>Where piece \<open>k\<close> starts, the piece, and the datagram that carries it.\<close>

definition piece_start :: "nat \<Rightarrow> nat \<Rightarrow> nat \<Rightarrow> nat" where
  "piece_start first sub k = (if k = 0 then 0 else first + (k - 1) * sub)"

definition cut_piece :: "nat \<Rightarrow> nat \<Rightarrow> bytes \<Rightarrow> nat \<Rightarrow> bytes" where
  "cut_piece first sub payload k =
     take (if k = 0 then first else sub) (drop (piece_start first sub k) payload)"

definition fragment_datagram :: "u16 \<Rightarrow> u16 \<Rightarrow> u8 \<Rightarrow> TargetAddr \<Rightarrow> (nat \<Rightarrow> bytes) \<Rightarrow> nat \<Rightarrow> bytes" where
  "fragment_datagram assoc_id pkt_id frag_total target cs k =
     packet_datagram assoc_id pkt_id frag_total (of_nat k)
       (if k = 0 then Address_from target else NoAddr) (cs k)"

lemma piece_start_0 [simp]: "piece_start first sub 0 = 0"
  by (simp add: piece_start_def)

lemma piece_start_Suc:
  "piece_start first sub (Suc k) = piece_start first sub k + (if k = 0 then first else sub)"
  by (cases k) (simp_all add: piece_start_def)

lemma concat_cut_pieces:
  "concat (map (cut_piece first sub payload) [0..<n]) = take (piece_start first sub n) payload"
proof (induction n)
  case 0
  then show ?case by (simp add: piece_start_def)
next
  case (Suc n)
  then show ?case
    by (simp add: cut_piece_def piece_start_Suc take_add)
qed

text \<open>The number of pieces is the least that covers the payload.\<close>

lemma div_ceil_cover:
  assumes "div_ceil n d = Some k"
  shows "n \<le> k * d" and "0 < n \<Longrightarrow> (k - 1) * d < n" and "0 < n \<Longrightarrow> 0 < k" and "0 < d"
proof -
  have d: "0 < d" and k: "k = (n + d - 1) div d"
    using assms by (auto simp: div_ceil_def split: if_splits)
  have mod: "k * d + (n + d - 1) mod d = n + d - 1" and less: "(n + d - 1) mod d < d"
    using d by (simp_all add: k)
  show "0 < d" by (rule d)
  show "n \<le> k * d" using mod less d by linarith
  assume n: "0 < n"
  then show pos: "0 < k" using d by (simp add: k div_greater_zero_iff)
  have "k * d \<le> n + d - 1" using mod by linarith
  then show "(k - 1) * d < n"
    using pos n d by (cases k) auto
qed

lemma fragment_count_cover:
  assumes "fragment_count len first sub = Some n"
  shows "len \<le> piece_start first sub n" and "0 < n" and "first < len \<Longrightarrow> piece_start first sub (n - 1) < len"
proof -
  show "0 < n" and cover: "len \<le> piece_start first sub n"
    using assms div_ceil_cover(1) [of "len - first" sub]
    by (auto simp: fragment_count_def piece_start_def split: if_splits)
  assume "first < len"
  with assms obtain k where k: "div_ceil (len - first) sub = Some k" and n: "n = Suc k"
    by (auto simp: fragment_count_def)
  from div_ceil_cover(2,3) [OF k] \<open>first < len\<close> show "piece_start first sub (n - 1) < len"
    by (cases k) (auto simp: n piece_start_def)
qed

lemma concat_all_pieces:
  "fragment_count (length payload) first sub = Some n \<Longrightarrow>
     concat (map (cut_piece first sub payload) [0..<n]) = payload"
  by (simp add: concat_cut_pieces fragment_count_cover(1))

section \<open>What a send puts on the connection\<close>

lemma on_connection_apply:
  "on_connection m s = (fst (m (us_connection s)), s\<lparr>us_connection := snd (m (us_connection s))\<rparr>)"
  by (simp add: on_connection_def zoom_def split_beta Let_def)

lemma on_connection_buffered [simp]:
  "on_connection (buffered (Ok (), buf)) s = (Ok buf, s)"
  by (simp add: on_connection_apply)

text \<open>The datagram of a fragment is sent, or nothing is.\<close>

lemma send_fragment_cases:
  fixes s :: "('o, 'i) UdpStream"
  assumes "target_ok (pk_target packet)"
    and d: "d = fragment_datagram (us_assoc_id s) pkt_id frag_total (pk_target packet) cs k" and "cs k = chunk"
  shows "send_fragment q packet pkt_id frag_total k chunk s =
    (case outcome q (us_connection s) (SendDatagram d) of
       None \<Rightarrow> (Ok (), s\<lparr>us_connection := us_connection s @ [SendDatagram d]\<rparr>)
     | Some e \<Rightarrow> (Err (EMsg (''Failed to send fragment: '' @ e)), s))"
proof -
  let ?a = "if k = 0 then Address_from (pk_target packet) else NoAddr"
  have "addr_ok ?a" using assms(1) by simp
  then have "AddressCodec_encode ?a b = (Ok (), b @ addr_wire ?a)" for b
    by (rule AddressCodec_encode_wire)
  then show ?thesis
    by (cases "outcome q (us_connection s) (SendDatagram d)")
       (simp_all add: send_fragment_def d assms(3) fragment_datagram_def packet_datagram_def message_def
          on_connection_apply)
qed

text \<open>
  The loop sends the fragments in order up to the first failure of the connection. It never
  panics, and it returns \<open>Ok\<close> exactly when all have been sent.
\<close>

lemma fragment_loop_sends:
  fixes s :: "('o, 'i) UdpStream"
  assumes "target_ok (pk_target packet)" and "k \<le> n"
    and d: "d = (\<lambda>i. SendDatagram (fragment_datagram (us_assoc_id s) pkt_id frag_total (pk_target packet)
      (cut_piece first sub (pk_payload packet)) i))"
  obtains r m where "fragment_loop oc q packet first sub pkt_id frag_total [k..<n]
      (min (piece_start first sub k) (length (pk_payload packet))) s =
      (r, s\<lparr>us_connection := us_connection s @ map d [k..<m]\<rparr>)"
    and "k \<le> m" and "m \<le> n" and "r \<noteq> Panic" and "r = Ok () \<longleftrightarrow> m = n"
    and "m < n \<longrightarrow> outcome q (us_connection s @ map d [k..<m]) (d m) \<noteq> None"
  using assms(2,3)
proof (induction "n - k" arbitrary: k s thesis)
  case 0
  then show ?case by (intro "0.prems"(1) [of "Ok ()" k]) simp_all
next
  case (Suc x)
  let ?len = "length (pk_payload packet)" and ?max = "if k = 0 then first else sub"
  have ids: "[k..<n] = k # [Suc k..<n]"
    using Suc.hyps(2) by (simp add: upt_conv_Cons)
  define off where "off = min (piece_start first sub k) ?len"
  have next': "off + min (?len - off) ?max = min (piece_start first sub (Suc k)) ?len"
    by (simp add: off_def piece_start_Suc)
  have chunk: "take (min (?len - off) ?max) (drop off (pk_payload packet)) = cut_piece first sub (pk_payload packet) k"
    by (auto simp: off_def cut_piece_def min_def)
  have step: "fragment_loop oc q packet first sub pkt_id frag_total [k..<n] off s =
      and_then (send_fragment q packet pkt_id frag_total k (cut_piece first sub (pk_payload packet) k)) (\<lambda>_.
        fragment_loop oc q packet first sub pkt_id frag_total [Suc k..<n] (min (piece_start first sub (Suc k)) ?len)) s"
  proof -
    have "off \<le> ?len" and "\<not> ?len < off + min (?len - off) ?max"
      by (simp_all add: off_def)
    then show ?thesis
      unfolding ids fragment_loop.simps(2) Let_def by (simp only: usize_sub_le option.case if_False chunk next')
  qed
  have send: "send_fragment q packet pkt_id frag_total k (cut_piece first sub (pk_payload packet) k) s =
      (case outcome q (us_connection s) (d k) of
         None \<Rightarrow> (Ok (), s\<lparr>us_connection := us_connection s @ [d k]\<rparr>)
       | Some e \<Rightarrow> (Err (EMsg (''Failed to send fragment: '' @ e)), s))"
    unfolding Suc.prems(3) by (rule send_fragment_cases [OF assms(1) refl refl])
  show ?case
  proof (cases "outcome q (us_connection s) (d k)")
    case (Some e)
    with step send Suc.hyps(2) show ?thesis
      by (intro Suc.prems(1) [of "Err (EMsg (''Failed to send fragment: '' @ e))" k])
         (auto simp: off_def)
  next
    case None
    let ?s = "s\<lparr>us_connection := us_connection s @ [d k]\<rparr>"
    have h: "x = n - Suc k" "Suc k \<le> n"
      "d = (\<lambda>i. SendDatagram (fragment_datagram (us_assoc_id ?s) pkt_id frag_total (pk_target packet)
        (cut_piece first sub (pk_payload packet)) i))"
      using Suc.hyps(2) Suc.prems(3) by simp_all
    obtain r m where "fragment_loop oc q packet first sub pkt_id frag_total [Suc k..<n]
        (min (piece_start first sub (Suc k)) ?len) ?s = (r, ?s\<lparr>us_connection := us_connection ?s @ map d [Suc k..<m]\<rparr>)"
      and "Suc k \<le> m" and "m \<le> n" and "r \<noteq> Panic" and "r = Ok () \<longleftrightarrow> m = n"
      and "m < n \<longrightarrow> outcome q (us_connection ?s @ map d [Suc k..<m]) (d m) \<noteq> None"
      by (rule Suc.hyps(1) [OF h(1) _ h(2,3)]) blast
    with None step send show ?thesis
      by (intro Suc.prems(1) [of r m]) (auto simp: off_def upt_conv_Cons)
  qed
qed

text \<open>The pieces a packet is sent in, for a datagram limit that leaves room for the first header.\<close>

definition packet_pieces :: "nat \<Rightarrow> UdpPacket \<Rightarrow> bytes list" where
  "packet_pieces limit packet =
     (let first = limit - (10 + target_addr_size (pk_target packet)); sub = limit - 11
      in case fragment_count (length (pk_payload packet)) first sub of
           None \<Rightarrow> []
         | Some n \<Rightarrow> map (cut_piece first sub (pk_payload packet)) [0..<n])"

definition packet_datagrams :: "nat \<Rightarrow> u16 \<Rightarrow> u16 \<Rightarrow> UdpPacket \<Rightarrow> bytes list" where
  "packet_datagrams limit assoc_id pkt_id packet =
     (let cs = packet_pieces limit packet
      in map (fragment_datagram assoc_id pkt_id (of_nat (length cs)) (pk_target packet) ((!) cs)) [0..<length cs])"

lemma target_addr_size_addr_size: "target_addr_size t = addr_size (Address_from t)"
  by (cases t) simp_all

lemma target_addr_size_gt: "1 < target_addr_size t"
  by (cases t) auto

lemma packet_pieces_count:
  assumes "11 < limit"
  obtains n where "fragment_count (length (pk_payload packet)) (limit - (10 + target_addr_size (pk_target packet))) (limit - 11) = Some n"
    and "packet_pieces limit packet =
      map (cut_piece (limit - (10 + target_addr_size (pk_target packet))) (limit - 11) (pk_payload packet)) [0..<n]"
    and "0 < n"
proof -
  obtain n where n: "fragment_count (length (pk_payload packet)) (limit - (10 + target_addr_size (pk_target packet))) (limit - 11) = Some n"
    using assms by (fastforce simp: fragment_count_def div_ceil_def)
  with fragment_count_cover(2) [OF n] show thesis
    by (intro that [of n]) (simp_all add: packet_pieces_def Let_def)
qed

lemma concat_packet_pieces:
  "11 < limit \<Longrightarrow> concat (packet_pieces limit packet) = pk_payload packet"
  by (rule packet_pieces_count [of limit packet]) (simp_all add: concat_all_pieces)

lemma packet_pieces_not_Nil: "11 < limit \<Longrightarrow> packet_pieces limit packet \<noteq> []"
  by (rule packet_pieces_count [of limit packet]) simp_all

lemma length_fragment_datagram:
  "length (fragment_datagram a p n t cs k) =
     10 + (if k = 0 then target_addr_size t else 1) + length (cs k)"
  using length_cmd_wire [of TyPacket "Packet a p n (of_nat k) (of_nat (length (cs k)))"]
  by (simp add: fragment_datagram_def packet_datagram_def message_def length_addr_wire target_addr_size_addr_size)

lemma packet_datagrams_length:
  assumes "10 + target_addr_size (pk_target packet) \<le> limit" and "11 < limit"
    and "d \<in> set (packet_datagrams limit assoc_id pkt_id packet)"
  shows "length d \<le> limit"
proof -
  from assms(3) obtain k where "d = fragment_datagram assoc_id pkt_id (of_nat (length (packet_pieces limit packet)))
      (pk_target packet) ((!) (packet_pieces limit packet)) k" and "k < length (packet_pieces limit packet)"
    by (auto simp: packet_datagrams_def Let_def)
  moreover obtain n where "packet_pieces limit packet =
      map (cut_piece (limit - (10 + target_addr_size (pk_target packet))) (limit - 11) (pk_payload packet)) [0..<n]"
    using packet_pieces_count [OF assms(2)] by metis
  ultimately show ?thesis
    using assms(1,2) by (auto simp: length_fragment_datagram cut_piece_def)
qed

text \<open>A packet that fits is one piece; its datagram is the one \<open>send_udp\<close> sends.\<close>

lemma packet_datagrams_single:
  assumes "length (pk_payload packet) \<le> limit - (10 + target_addr_size (pk_target packet))"
  shows "packet_pieces limit packet = [pk_payload packet]"
    and "packet_datagrams limit a p packet = [packet_datagram a p 1 0 (Address_from (pk_target packet)) (pk_payload packet)]"
proof -
  show "packet_pieces limit packet = [pk_payload packet]"
    using assms by (simp add: packet_pieces_def fragment_count_def cut_piece_def)
  then show "packet_datagrams limit a p packet =
      [packet_datagram a p 1 0 (Address_from (pk_target packet)) (pk_payload packet)]"
    by (simp add: packet_datagrams_def fragment_datagram_def)
qed

lemma send_fragmented_packet_sends:
  fixes s :: "('o, 'i) UdpStream"
  assumes "target_ok (pk_target packet)" and "10 + target_addr_size (pk_target packet) \<le> datagram_limit q s"
    and "\<And>l d. length d \<le> datagram_limit q s \<Longrightarrow> outcome q l (SendDatagram d) = None"
  shows "send_fragmented_packet oc q packet s =
    (if length (packet_pieces (datagram_limit q s) packet) \<le> 255
     then (Ok (), s\<lparr>us_connection := us_connection s @ map SendDatagram
              (packet_datagrams (datagram_limit q s) (us_assoc_id s) (us_next_pkt_id s) packet),
            us_next_pkt_id := us_next_pkt_id s + 1\<rparr>)
     else (Err (EMsg ''Packet too large for fragmentation, exceeds maximum fragment count''), s))"
proof -
  define limit where "limit = datagram_limit q s"
  have lim: "11 < limit"
    using assms(2) target_addr_size_gt [of "pk_target packet"] by (simp add: limit_def)
  let ?first = "limit - (10 + target_addr_size (pk_target packet))" and ?sub = "limit - 11"
  obtain n where n: "fragment_count (length (pk_payload packet)) ?first ?sub = Some n"
    and pieces: "packet_pieces limit packet = map (cut_piece ?first ?sub (pk_payload packet)) [0..<n]"
    using packet_pieces_count [OF lim] by metis
  let ?s = "s\<lparr>us_next_pkt_id := us_next_pkt_id s + 1\<rparr>"
  define d where "d = (\<lambda>i. SendDatagram (fragment_datagram (us_assoc_id ?s) (us_next_pkt_id s) (of_nat n) (pk_target packet)
      (cut_piece ?first ?sub (pk_payload packet)) i))"
  have dgs: "map SendDatagram (packet_datagrams limit (us_assoc_id s) (us_next_pkt_id s) packet) = map d [0..<n]"
    by (simp add: packet_datagrams_def pieces d_def Let_def fragment_datagram_def)
  then have "\<exists>x. d i = SendDatagram x \<and> x \<in> set (packet_datagrams limit (us_assoc_id s) (us_next_pkt_id s) packet)"
    if "i < n" for i
    using that by (metis (no_types, lifting) add_0 image_iff length_upt list.set_map minus_nat.diff_0 nth_map nth_mem nth_upt)
  then have sent: "outcome q l (d i) = None" if "i < n" for l i
    using that packet_datagrams_length [OF _ lim] assms(2,3) by (metis limit_def)
  obtain r m where loop: "fragment_loop oc q packet ?first ?sub (us_next_pkt_id s) (of_nat n) [0..<n] 0 ?s =
      (r, ?s\<lparr>us_connection := us_connection ?s @ map d [0..<m]\<rparr>)"
    and "m \<le> n" "r = Ok () \<longleftrightarrow> m = n" "m < n \<longrightarrow> outcome q (us_connection ?s @ map d [0..<m]) (d m) \<noteq> None"
    using fragment_loop_sends [OF assms(1) _ d_def, of 0 n oc q] unfolding piece_start_0 min_0L by blast
  with sent have "m = n" and "r = Ok ()"
    by (metis le_neq_implies_less)+
  with loop dgs n pieces show ?thesis
    by (simp add: send_fragmented_packet_def Let_def fetch_add_pkt_id_def MAX_FRAGMENTS_def flip: limit_def)
qed

text \<open>Whatever the connection answers, a prefix of the datagrams is sent.\<close>

lemma prefix_map_upt: "m \<le> n \<Longrightarrow> prefix (map f [0..<m]) (map f [0..<n])"
  by (metis le_add_diff_inverse map_mono_prefix prefixI upt_add_eq_append zero_le)

lemma send_fragmented_packet_prefix:
  fixes s :: "('o, 'i) UdpStream"
  assumes "target_ok (pk_target packet)" and "11 < datagram_limit q s"
  shows "fst (send_fragmented_packet oc q packet s) \<noteq> Panic \<and>
    (\<exists>ds. prefix ds (packet_datagrams (datagram_limit q s) (us_assoc_id s) (us_next_pkt_id s) packet) \<and>
       us_connection (snd (send_fragmented_packet oc q packet s)) = us_connection s @ map SendDatagram ds)"
proof -
  define limit where "limit = datagram_limit q s"
  let ?first = "limit - (10 + target_addr_size (pk_target packet))" and ?sub = "limit - 11"
  obtain n where n: "fragment_count (length (pk_payload packet)) ?first ?sub = Some n"
    and pieces: "packet_pieces limit packet = map (cut_piece ?first ?sub (pk_payload packet)) [0..<n]"
    using packet_pieces_count [OF assms(2)] unfolding limit_def by metis
  let ?s = "s\<lparr>us_next_pkt_id := us_next_pkt_id s + 1\<rparr>"
  let ?d = "fragment_datagram (us_assoc_id ?s) (us_next_pkt_id s) (of_nat n) (pk_target packet)
      (cut_piece ?first ?sub (pk_payload packet))"
  have dgs: "packet_datagrams limit (us_assoc_id s) (us_next_pkt_id s) packet = map ?d [0..<n]"
    by (simp add: packet_datagrams_def pieces Let_def fragment_datagram_def)
  obtain r m where loop: "fragment_loop oc q packet ?first ?sub (us_next_pkt_id s) (of_nat n) [0..<n] 0 ?s =
      (r, ?s\<lparr>us_connection := us_connection ?s @ map (\<lambda>i. SendDatagram (?d i)) [0..<m]\<rparr>)"
    and m: "m \<le> n" and "r \<noteq> Panic"
    using fragment_loop_sends [OF assms(1) _ refl, where k = 0 and n = n and s = ?s and pkt_id = "us_next_pkt_id s"
        and frag_total = "of_nat n" and first = ?first and sub = ?sub and oc = oc and q = q]
    unfolding piece_start_0 min_0L by blast
  with n show ?thesis
    using prefix_map_upt [OF m, of ?d]
    by (auto simp: send_fragmented_packet_def Let_def fetch_add_pkt_id_def dgs simp flip: limit_def
        intro!: exI [of _ "map ?d [0..<m]"])
qed

lemma send_packet_prefix:
  fixes s :: "('o, 'i) UdpStream"
  assumes "target_ok (pk_target packet)" and "10 + target_addr_size (pk_target packet) \<le> datagram_limit q s"
  shows "fst (send_packet oc q packet s) \<noteq> Panic \<and>
    (\<exists>ds. prefix ds (packet_datagrams (datagram_limit q s) (us_assoc_id s) (us_next_pkt_id s) packet) \<and>
       us_connection (snd (send_packet oc q packet s)) = us_connection s @ map SendDatagram ds)"
proof (cases "length (pk_payload packet) \<le> datagram_limit q s - (10 + target_addr_size (pk_target packet))")
  case True
  have domain: "\<not> (case pk_target packet of TDomain domain _ \<Rightarrow> length domain > 255 | _ \<Rightarrow> False)"
    using assms(1) by (cases "pk_target packet") simp_all
  let ?d = "packet_datagram (us_assoc_id s) (us_next_pkt_id s) 1 0 (Address_from (pk_target packet)) (pk_payload packet)"
  show ?thesis
    using True domain assms(2)
    by (cases "outcome q (us_connection s) (SendDatagram ?d)")
       (auto simp: send_packet_def packet_datagrams_single on_connection_apply send_udp_datagram_log [OF assms(1)]
         fetch_add_pkt_id_def and_then_def intro: exI [of _ "[]"] exI [of _ "[?d]"])
next
  case False
  have "11 < datagram_limit q s"
    using assms(2) target_addr_size_gt [of "pk_target packet"] by simp
  moreover have "send_packet oc q packet s = send_fragmented_packet oc q packet s"
    using False assms by (cases "pk_target packet") (simp_all add: send_packet_def)
  ultimately show ?thesis
    using send_fragmented_packet_prefix [OF assms(1)] by simp
qed

lemma send_packet_datagrams:
  fixes s :: "('o, 'i) UdpStream"
  assumes "target_ok (pk_target packet)" and "10 + target_addr_size (pk_target packet) \<le> datagram_limit q s"
    and "\<And>l d. length d \<le> datagram_limit q s \<Longrightarrow> outcome q l (SendDatagram d) = None"
  shows "send_packet oc q packet s =
    (if length (packet_pieces (datagram_limit q s) packet) \<le> 255
     then (Ok (), s\<lparr>us_connection := us_connection s @ map SendDatagram
              (packet_datagrams (datagram_limit q s) (us_assoc_id s) (us_next_pkt_id s) packet),
            us_next_pkt_id := us_next_pkt_id s + 1\<rparr>)
     else (Err (EMsg ''Packet too large for fragmentation, exceeds maximum fragment count''), s))"
proof -
  have domain: "\<not> (case pk_target packet of TDomain domain _ \<Rightarrow> length domain > 255 | _ \<Rightarrow> False)"
    using assms(1) by (cases "pk_target packet") simp_all
  show ?thesis
  proof (cases "length (pk_payload packet) \<le> datagram_limit q s - (10 + target_addr_size (pk_target packet))")
    case True
    let ?d = "packet_datagram (us_assoc_id s) (us_next_pkt_id s) 1 0 (Address_from (pk_target packet)) (pk_payload packet)"
    have "11 < datagram_limit q s"
      using assms(2) target_addr_size_gt [of "pk_target packet"] by simp
    then have "length ?d \<le> datagram_limit q s"
      using packet_datagrams_length [OF assms(2)] packet_datagrams_single(2) [OF True] by simp
    then have "outcome q (us_connection s) (SendDatagram ?d) = None"
      by (rule assms(3))
    then show ?thesis
      using True domain assms(2)
      by (simp add: send_packet_def packet_datagrams_single on_connection_apply send_udp_datagram_log [OF assms(1)]
          fetch_add_pkt_id_def)
  next
    case False
    then show ?thesis
      using domain assms(2) send_fragmented_packet_sends [OF assms] by (simp add: send_packet_def)
  qed
qed

text \<open>
  C19. Sending a packet. When the connection's datagram limit leaves room for the header of the
  first fragment and the connection takes every datagram within the limit, \<open>send_packet\<close> puts
  exactly the datagrams of the packet's pieces on the connection, in order and under the current
  packet number, and advances the number; a packet of more than 255 pieces is refused with
  nothing sent and no number used. The build profile makes no difference.
\<close>

theorem send_packet_sends:
  fixes s :: "('o, 'i) UdpStream"
  assumes "target_ok (pk_target packet)" and "10 + target_addr_size (pk_target packet) \<le> datagram_limit q s"
    and "\<And>l d. length d \<le> datagram_limit q s \<Longrightarrow> outcome q l (SendDatagram d) = None"
  shows "send_packet oc q packet s =
    (if length (packet_pieces (datagram_limit q s) packet) \<le> 255
     then (Ok (), s\<lparr>us_connection := us_connection s @ map SendDatagram
              (packet_datagrams (datagram_limit q s) (us_assoc_id s) (us_next_pkt_id s) packet),
            us_next_pkt_id := us_next_pkt_id s + 1\<rparr>)
     else (Err (EMsg ''Packet too large for fragmentation, exceeds maximum fragment count''), s))"
  by (rule send_packet_datagrams [OF assms])

definition sample_packet :: UdpPacket where
  "sample_packet = \<lparr>pk_source = None, pk_target = TIPv4 (Ipv4Addr 10 0 0 1) 53, pk_payload = [1, 2, 3, 4, 5]\<rparr>"

lemma sample_pieces: "packet_pieces 20 sample_packet = [[1, 2, 3], [4, 5]]"
  by (simp add: packet_pieces_def sample_packet_def fragment_count_def div_ceil_def cut_piece_def piece_start_def upt_rec)

theorem send_packet_sends_witness:
  "send_packet True (sample_quinn 20) sample_packet (UdpStream_new alist_cache [] 5 :: ((pkt_key, nat) alist_state, unit) UdpStream) =
     (Ok (), (UdpStream_new alist_cache [] 5)\<lparr>
        us_connection := [SendDatagram [5, 2, 0, 5, 0, 0, 2, 0, 0, 3, 1, 10, 0, 0, 1, 0, 53, 1, 2, 3],
                          SendDatagram [5, 2, 0, 5, 0, 0, 2, 1, 0, 2, 255, 4, 5]],
        us_next_pkt_id := 1\<rparr>)"
  using send_packet_sends [of sample_packet "sample_quinn 20" "UdpStream_new alist_cache [] 5 :: ((pkt_key, nat) alist_state, unit) UdpStream" True]
  by (simp add: sample_pieces packet_datagrams_def datagram_limit_def sample_quinn_def UdpStream_new_def)
     (simp add: sample_packet_def fragment_datagram_def packet_datagram_def message_def VER_def u16_to_be_bytes_def)







section \<open>What a send leaves alone\<close>

lemma on_connection_frame [simp]: "us_assoc_id (snd (on_connection m s)) = us_assoc_id s"
  by (simp add: on_connection_apply)

lemma send_fragment_frame: "us_assoc_id (snd (send_fragment q packet p n k chunk s)) = us_assoc_id s"
  unfolding send_fragment_def
  by (intro and_then_frame [where f = us_assoc_id]) (simp_all add: mapping_err_def split_beta)

lemma fragment_loop_frame: "us_assoc_id (snd (fragment_loop oc q packet f u p n ks off s)) = us_assoc_id s"
proof (induction ks arbitrary: off s)
  case (Cons k ks)
  then show ?case
    by (auto simp: Let_def lift_result_def split: option.split
        intro!: and_then_frame [where f = us_assoc_id] send_fragment_frame)
qed simp

lemma send_packet_frame: "us_assoc_id (snd (send_packet oc q packet s)) = us_assoc_id s"
proof -
  have "us_assoc_id (snd (send_fragmented_packet oc q packet s)) = us_assoc_id s"
    by (auto simp: send_fragmented_packet_def Let_def fetch_add_pkt_id_def fragment_loop_frame split: option.split)
  then show ?thesis
    by (auto simp: send_packet_def fetch_add_pkt_id_def split: option.split
        intro!: and_then_frame [where f = us_assoc_id])
qed

end
