(* ===== verification/Core_Udp.thy ===== *)
theory Core_Udp
  imports Net_Types
begin

text \<open>
  \<^verbatim>\<open>crates/wind-core/src/udp.rs\<close>: the metadata of received datagrams, the abstract UDP socket
  and its implementation over a plain socket. Polling a socket is a loop around operations of
  the operating system; the environment is the sequence of attempts, each with what the
  readiness poll and the receive call returned. A run that has met no answer when the sequence
  ends is still looping (\<open>None\<close>). ECN code points are \<^verbatim>\<open>quinn_udp\<close>'s and left abstract.

  The locale \<open>udp_socket\<close> is the contract of \<^verbatim>\<open>AbstractUdpSocket::poll_recv\<close> that its client in
  the TUIC outbound relies on when it slices the receive buffer.
\<close>

section \<open>Metadata\<close>

text \<open>\<^verbatim>\<open>quinn_udp::RecvMeta\<close>, what the receive call fills in.\<close>

record 'e QuinnRecvMeta =
  q_addr :: SocketAddr
  q_len :: nat
  q_stride :: nat
  q_ecn :: "'e option"
  q_dst_ip :: "IpAddr option"

record 'e RecvMeta =
  rm_addr :: SocketAddr
  rm_len :: nat
  rm_stride :: nat
  rm_ecn :: "'e option"
  rm_dst_ip :: "IpAddr option"
  rm_destination :: "TargetAddr option"

definition RecvMeta_default :: "'e RecvMeta" where
  "RecvMeta_default = \<lparr>rm_addr = SocketAddr_new (IpV6 ipv6_unspecified) 0, rm_len = 0, rm_stride = 0,
     rm_ecn = None, rm_dst_ip = None, rm_destination = None\<rparr>"

definition RecvMeta_from :: "'e QuinnRecvMeta \<Rightarrow> 'e RecvMeta" where
  "RecvMeta_from meta = \<lparr>rm_addr = q_addr meta, rm_len = q_len meta, rm_stride = q_stride meta,
     rm_ecn = q_ecn meta, rm_dst_ip = q_dst_ip meta, rm_destination = None\<rparr>"

section \<open>Sending\<close>

record 'e Transmit =
  tr_destination :: SocketAddr
  tr_ecn :: "'e option"
  tr_contents :: bytes
  tr_segment_size :: "nat option"
  tr_src_ip :: "IpAddr option"

datatype 'a poll = Pending | Ready 'a

text \<open>The provided method \<^verbatim>\<open>poll_send\<close>, for any implementation of \<^verbatim>\<open>try_send\<close>.\<close>

definition poll_send ::
  "('e Transmit \<Rightarrow> ('s, unit, string) comp) \<Rightarrow> bytes \<Rightarrow> SocketAddr \<Rightarrow> 's \<Rightarrow> (nat, string) result poll \<times> 's" where
  "poll_send try_send buf target s =
     (case try_send \<lparr>tr_destination = target, tr_ecn = None, tr_contents = buf, tr_segment_size = None, tr_src_ip = None\<rparr> s of
        (Ok _, s') \<Rightarrow> (Ready (Ok (length buf)), s')
      | (Err e, s') \<Rightarrow> (Ready (Err e), s')
      | (Panic, s') \<Rightarrow> (Ready Panic, s'))"

section \<open>Receiving\<close>

text \<open>
  One round of a receive loop: the socket is not ready, the readiness poll failed, the receive
  call failed, or it filled buffers and metadata and returned a count.
\<close>

datatype 'e attempt =
    NotReady
  | ReadyErr string
  | TryFail
  | TryOk nat "bytes list" "'e QuinnRecvMeta list"

fun fill_metas :: "nat \<Rightarrow> 'e QuinnRecvMeta list \<Rightarrow> 'e RecvMeta list \<Rightarrow> 'e RecvMeta list" where
  "fill_metas i [] meta = meta"
| "fill_metas i (q # qs) meta =
     fill_metas (Suc i) qs (if i < length meta then meta[i := RecvMeta_from q] else meta)"

type_synonym ('s, 'e) poll_result = "(nat, string) result poll \<times> 's \<times> bytes list \<times> 'e RecvMeta list"

fun tokio_poll_recv :: "'e attempt list \<Rightarrow> unit \<Rightarrow> bytes list \<Rightarrow> 'e RecvMeta list \<Rightarrow> (unit, 'e) poll_result option" where
  "tokio_poll_recv [] s bufs meta = None"
| "tokio_poll_recv (NotReady # as) s bufs meta = Some (Pending, s, bufs, meta)"
| "tokio_poll_recv (ReadyErr e # as) s bufs meta = Some (Ready (Err e), s, bufs, meta)"
| "tokio_poll_recv (TryFail # as) s bufs meta = tokio_poll_recv as s bufs meta"
| "tokio_poll_recv (TryOk res bufs' quinn_meta # as) s bufs meta =
     Some (Ready (Ok res), s, bufs', fill_metas 0 (take res quinn_meta) meta)"

text \<open>
  What the receive call promises: it keeps the number and sizes of the buffers, fills at most as
  many as there are buffers and metadata entries, and reports for each a length within its buffer.
\<close>

fun attempt_ok :: "bytes list \<Rightarrow> 'e RecvMeta list \<Rightarrow> 'e attempt \<Rightarrow> bool" where
  "attempt_ok bufs meta (TryOk res bufs' quinn_meta) \<longleftrightarrow>
     map length bufs' = map length bufs \<and> length quinn_meta = length meta \<and>
     res \<le> length bufs \<and> res \<le> length meta \<and>
     list_all2 (\<lambda>q b. q_len q \<le> length b) (take res quinn_meta) (take res bufs')"
| "attempt_ok bufs meta _ \<longleftrightarrow> True"

section \<open>The contract of a socket\<close>

locale udp_socket =
  fixes poll_recv :: "'e attempt list \<Rightarrow> 's \<Rightarrow> bytes list \<Rightarrow> 'e RecvMeta list \<Rightarrow> ('s, 'e) poll_result option"
  assumes poll_recv_no_panic:
      "list_all (attempt_ok bufs meta) as \<Longrightarrow> poll_recv as s bufs meta \<noteq> Some (Ready Panic, s', bufs', meta')"
    and poll_recv_bounds:
      "list_all (attempt_ok bufs meta) as \<Longrightarrow> poll_recv as s bufs meta = Some (Ready (Ok n), s', bufs', meta') \<Longrightarrow>
        n \<le> length meta \<and> length meta' = length meta \<and> map length bufs' = map length bufs \<and>
        list_all2 (\<lambda>m b. rm_len m \<le> length b) (take n meta') (take n bufs')"
begin

text \<open>A client that receives into one buffer may slice it up to the reported length.\<close>

lemma single_buffer:
  assumes "list_all (attempt_ok [buf] [meta]) as"
    and "poll_recv as s [buf] [meta] = Some (Ready (Ok 1), s', bufs', meta')"
  obtains b m where "bufs' = [b]" and "meta' = [m]" and "length b = length buf" and "rm_len m \<le> length buf"
proof -
  from poll_recv_bounds [OF assms] have "map length bufs' = [length buf]" and "length meta' = 1"
    and take: "list_all2 (\<lambda>m b. rm_len m \<le> length b) (take 1 meta') (take 1 bufs')"
    by auto
  then obtain b m where "bufs' = [b]" and "meta' = [m]" and "length b = length buf"
    by (auto simp: map_eq_Cons_conv length_Suc_conv)
  with take show thesis
    by (intro that [of b m]) simp_all
qed

text \<open>A socket that reports one datagram at most never reports more than one.\<close>

lemma single_buffer_count:
  assumes "list_all (attempt_ok [buf] [meta]) as"
    and "poll_recv as s [buf] [meta] = Some (Ready (Ok n), s', bufs', meta')"
  shows "n \<le> 1"
  using poll_recv_bounds [OF assms] by simp

end

lemma length_fill_metas [simp]: "length (fill_metas i qs meta) = length meta"
  by (induction i qs meta rule: fill_metas.induct) simp_all

lemma nth_fill_metas:
  assumes "i + length qs \<le> length meta" and "j < length meta"
  shows "fill_metas i qs meta ! j = (if i \<le> j \<and> j < i + length qs then RecvMeta_from (qs ! (j - i)) else meta ! j)"
  using assms
proof (induction i qs meta rule: fill_metas.induct)
  case (2 i q qs meta)
  then show ?case
    by (cases "j = i") (auto simp: nth_Cons' not_less_eq_eq Suc_diff_Suc)
qed auto

lemma tokio_bounds:
  assumes "list_all (attempt_ok bufs meta) as"
    and "tokio_poll_recv as s bufs meta = Some (Ready (Ok n), s', bufs', meta')"
  shows "n \<le> length meta \<and> length meta' = length meta \<and> map length bufs' = map length bufs \<and>
    list_all2 (\<lambda>m b. rm_len m \<le> length b) (take n meta') (take n bufs')"
  using assms
proof (induction as s bufs meta rule: tokio_poll_recv.induct)
  case (5 res bufs1 qm as s bufs meta)
  then show ?case
    by (auto simp: list_all2_conv_all_nth nth_fill_metas RecvMeta_from_def)
qed simp_all

lemma tokio_no_panic: "tokio_poll_recv as s bufs meta \<noteq> Some (Ready Panic, s', bufs', meta')"
  by (induction as s bufs meta rule: tokio_poll_recv.induct) simp_all

interpretation tokio: udp_socket tokio_poll_recv
  using tokio_bounds tokio_no_panic by unfold_locales blast+

text \<open>
  What the plain socket returns. A successful receive reports the number of datagrams, and the
  metadata of each is that of the receive call with no destination; entries beyond the count keep
  their old value. Failing receive calls are retried, an error of the readiness poll is returned.
\<close>

theorem tokio_poll_recv_result:
  assumes "attempt_ok bufs meta (TryOk n bufs' qm)" and "j < length meta"
  shows "\<exists>meta'. tokio_poll_recv (replicate k TryFail @ TryOk n bufs' qm # as) () bufs meta = Some (Ready (Ok n), (), bufs', meta') \<and>
    length meta' = length meta \<and> meta' ! j = (if j < n then RecvMeta_from (qm ! j) else meta ! j)"
  using assms by (induction k) (simp_all add: nth_fill_metas)

theorem tokio_poll_recv_result_witness:
  "\<exists>meta'. tokio_poll_recv (replicate 1 TryFail @ TryOk 1 [[7, 8, 0]]
      [\<lparr>q_addr = SockV4 ipv4_unspecified 9, q_len = 2, q_stride = 2, q_ecn = None :: unit option, q_dst_ip = None\<rparr>] # [])
      () [[0, 0, 0]] [RecvMeta_default] = Some (Ready (Ok 1), (), [[7, 8, 0]], meta') \<and> rm_len (meta' ! 0) = 2"
  using tokio_poll_recv_result [of "[[0, 0, 0]]" "[RecvMeta_default :: unit RecvMeta]" 1 "[[7, 8, 0]]"
      "[\<lparr>q_addr = SockV4 ipv4_unspecified 9, q_len = 2, q_stride = 2, q_ecn = None, q_dst_ip = None\<rparr>]" 0 1 "[]"]
  by (auto simp: RecvMeta_from_def)

section \<open>The writability poller\<close>

text \<open>
  \<^verbatim>\<open>UdpPollHelper\<close> keeps at most one future: it is made when a poll finds none, polled, and dropped
  when it has finished. \<open>make\<close> makes a future and \<open>step\<close> polls one.
\<close>

record 'f UdpPollHelper =
  make_fut :: "unit \<Rightarrow> 'f"
  fut :: "'f option"

definition UdpPollHelper_new :: "(unit \<Rightarrow> 'f) \<Rightarrow> 'f UdpPollHelper" where
  "UdpPollHelper_new mk = \<lparr>make_fut = mk, fut = None\<rparr>"

definition poll_writable :: "('f \<Rightarrow> 'r poll \<times> 'f) \<Rightarrow> 'f UdpPollHelper \<Rightarrow> 'r poll \<times> 'f UdpPollHelper" where
  "poll_writable poll_fut this =
     (let this = (if fut this = None then this\<lparr>fut := Some (make_fut this ())\<rparr> else this);
          (result, f) = poll_fut (the (fut this));
          this = this\<lparr>fut := Some f\<rparr>;
          this = (case result of Ready _ \<Rightarrow> this\<lparr>fut := None\<rparr> | Pending \<Rightarrow> this)
      in (result, this))"

fun poll_writable_times :: "('f \<Rightarrow> 'r poll \<times> 'f) \<Rightarrow> nat \<Rightarrow> 'f UdpPollHelper \<Rightarrow> 'r poll list \<times> 'f UdpPollHelper" where
  "poll_writable_times p 0 h = ([], h)"
| "poll_writable_times p (Suc n) h =
     (let (r, h') = poll_writable p h; (rs, h'') = poll_writable_times p n h' in (r # rs, h''))"

text \<open>The reference: poll one future until it is ready, then start over with a new one.\<close>

fun poll_fresh :: "('f \<Rightarrow> 'r poll \<times> 'f) \<Rightarrow> 'f \<Rightarrow> nat \<Rightarrow> 'f \<Rightarrow> 'r poll list" where
  "poll_fresh p f0 0 f = []"
| "poll_fresh p f0 (Suc n) f =
     (case p f of (Pending, f') \<Rightarrow> Pending # poll_fresh p f0 n f' | (Ready r, f') \<Rightarrow> Ready r # poll_fresh p f0 n f0)"

lemma poll_writable_times_fresh:
  "fst (poll_writable_times p n h) =
     poll_fresh p (make_fut h ()) n (case fut h of None \<Rightarrow> make_fut h () | Some f \<Rightarrow> f)"
proof (induction n arbitrary: h)
  case (Suc n)
  show ?case
    by (cases "fut h"; cases "p (case fut h of None \<Rightarrow> make_fut h () | Some f \<Rightarrow> f)";
        cases "fst (p (case fut h of None \<Rightarrow> make_fut h () | Some f \<Rightarrow> f))")
       (simp_all add: poll_writable_def Let_def Suc.IH split_beta)
qed simp

text \<open>
  Polling for writability. The answers of a new poller are those of one future polled until it is
  ready, followed by those of a new future, and so on: no readiness is lost or reported twice, and
  a finished future is never polled again.
\<close>

theorem poll_writable_answers:
  "fst (poll_writable_times p n (UdpPollHelper_new mk)) = poll_fresh p (mk ()) n (mk ())"
  by (simp add: poll_writable_times_fresh UdpPollHelper_new_def)

end
