(* ===== verification/Tuic_Outbound.thy ===== *)
theory Tuic_Outbound
  imports Udp_Stream Core_Udp
begin

text \<open>
  The TUIC client, \<^verbatim>\<open>crates/wind-tuic/src/outbound.rs\<close>: the connection and its authentication, the
  polling task (heartbeats and incoming datagrams), TCP requests, and UDP associations with
  their two tasks. A \<^verbatim>\<open>UdpStream\<close> is shared between the session cache and the tasks of its
  association: the streams are cells of the store \<open>ob_streams\<close>, and the cache holds their
  addresses. All of them send on the one connection, whose log is \<open>ob_connection\<close>.

  \<open>oc\<close> is the overflow-check profile of the build. The informational log lines are evaluated
  (the program runs with logging at its finest level), so an overflow inside one of them counts.
\<close>

section \<open>Options and state\<close>

record TuicOutboundOpts =
  oo_peer_addr :: SocketAddr
  oo_sni :: string
  oo_auth :: "uuid \<times> bytes"
  oo_zero_rtt_handshake :: bool
  oo_heartbeat :: nat
  oo_gc_interval :: nat
  oo_gc_lifetime :: nat
  oo_skip_cert_verify :: bool
  oo_alpn :: "string list"

record ('o, 'i, 'u) TuicOutbound =
  ob_opts :: TuicOutboundOpts
  ob_connection :: log
  ob_udp_assoc_counter :: u16
  ob_udp_session :: 'u
  ob_streams :: "('o, 'i) UdpStream list"

type_synonym 'u session_ops = "(u16, nat, 'u) cache_ops"
type_synonym channel = "UdpPacket list \<Rightarrow> UdpPacket \<Rightarrow> string option"

text \<open>
  \<^verbatim>\<open>TuicOutbound::new\<close>. What happens before the authentication is up to the system, to \<^verbatim>\<open>rustls\<close>
  and to \<^verbatim>\<open>quinn\<close>: \<open>setup\<close> are the results of the TLS configuration, of binding the socket,
  of creating the endpoint and of connecting, in this order; the first error is returned.
\<close>

fun first_error :: "(unit, 'e) result list \<Rightarrow> (unit, 'e) result" where
  "first_error [] = Ok ()"
| "first_error (Ok _ # rs) = first_error rs"
| "first_error (Err e # rs) = Err e"
| "first_error (Panic # rs) = Panic"

definition TuicOutbound_new ::
  "quinn \<Rightarrow> 'u session_ops \<Rightarrow> (unit, Error) result list \<Rightarrow> TuicOutboundOpts \<Rightarrow> (('o, 'i, 'u) TuicOutbound, Error) result" where
  "TuicOutbound_new q cu setup opts = (case first_error setup of
     Err e \<Rightarrow> Err e
   | Panic \<Rightarrow> Panic
   | Ok _ \<Rightarrow>
       (case send_auth q (fst (oo_auth opts)) (snd (oo_auth opts)) [] of
          (Err e, _) \<Rightarrow> Err e
        | (Panic, _) \<Rightarrow> Panic
        | (Ok _, connection) \<Rightarrow> Ok \<lparr>ob_opts = opts, ob_connection = connection, ob_udp_assoc_counter = 0,
            ob_udp_session = cache_new cu 65535, ob_streams = []\<rparr>))"

section \<open>The polling task\<close>

definition HEARTBEAT_MAX_FAILURES :: nat where
  "HEARTBEAT_MAX_FAILURES = 3"

text \<open>The failure counter after a heartbeat that succeeded or not; \<open>None\<close>: too many failures.\<close>

definition heartbeat_result :: "bool \<Rightarrow> nat \<Rightarrow> nat option" where
  "heartbeat_result success hb_failures =
     (if \<not> success then
        (let hb_failures = hb_failures + 1
         in if HEARTBEAT_MAX_FAILURES \<le> hb_failures then None else Some hb_failures)
      else if hb_failures > 0 then Some 0
      else Some hb_failures)"

text \<open>The number printed in the log lines, \<^verbatim>\<open>frag_id + 1\<close> on \<^verbatim>\<open>u8\<close>; \<open>None\<close> is a panic.\<close>

definition log_frag_number :: "bool \<Rightarrow> u8 \<Rightarrow> u8 option" where
  "log_frag_number oc frag_id = (if oc \<and> frag_id = 255 then None else Some (frag_id + 1))"

text \<open>\<open>f\<close> on the stream at an address.\<close>

definition on_stream :: "nat \<Rightarrow> (('o, 'i) UdpStream \<Rightarrow> 'a \<times> ('o, 'i) UdpStream) \<Rightarrow>
    ('o, 'i, 'u) TuicOutbound \<Rightarrow> 'a \<times> ('o, 'i, 'u) TuicOutbound" where
  "on_stream a f ob = (let (r, s) = f (ob_streams ob ! a) in (r, ob\<lparr>ob_streams := (ob_streams ob)[a := s]\<rparr>))"

text \<open>The packet of a datagram, handed to the stream of its association.\<close>

definition deliver_packet ::
  "'o outer_ops \<Rightarrow> 'i inner_ops \<Rightarrow> channel \<Rightarrow> nat \<Rightarrow> u16 \<Rightarrow> u16 \<Rightarrow> u8 \<Rightarrow> u8 \<Rightarrow> bytes \<Rightarrow> TargetAddr \<Rightarrow>
     ('o, 'i) UdpStream \<Rightarrow> unit \<times> ('o, 'i) UdpStream" where
  "deliver_packet co ci chan now assoc_id pkt_id frag_total frag_id payload target s =
     (let (complete_packet, s1) =
            (if unat frag_total > 1
             then process_fragment co ci now assoc_id pkt_id frag_total frag_id payload None target s
             else (Some \<lparr>pk_source = None, pk_target = target, pk_payload = payload\<rparr>, s))
      in case complete_packet of
           None \<Rightarrow> ((), s1)
         | Some packet \<Rightarrow> ((), snd (receive_packet chan packet s1)))"

definition placeholder :: TargetAddr where
  "placeholder = TIPv4 ipv4_unspecified 0"

text \<open>The branch for an incoming datagram. Decoding errors are logged and skipped.\<close>

definition handle_packet_cmd ::
  "bool \<Rightarrow> 'o outer_ops \<Rightarrow> 'i inner_ops \<Rightarrow> 'u session_ops \<Rightarrow> channel \<Rightarrow> nat \<Rightarrow> u16 \<Rightarrow> u16 \<Rightarrow> u8 \<Rightarrow> u8 \<Rightarrow> u16 \<Rightarrow> bytes \<Rightarrow>
     (('o, 'i, 'u) TuicOutbound, unit, Error) comp" where
  "handle_packet_cmd oc co ci cu chan now assoc_id pkt_id frag_total frag_id sz buf ob =
     (case decode_address ''UDP packet'' buf of
        (Err e, _) \<Rightarrow> (Ok (), ob)
      | (Panic, _) \<Rightarrow> (Panic, ob)
      | (Ok addr, buf1) \<Rightarrow>
          (case split_to (unat sz) buf1 of
             None \<Rightarrow> (Panic, ob)
           | Some (payload, _) \<Rightarrow>
               let target = (case address_to_target addr of Ok t \<Rightarrow> t | _ \<Rightarrow> placeholder) in
               (case log_frag_number oc frag_id of
                  None \<Rightarrow> (Panic, ob)
                | Some _ \<Rightarrow>
                    (case cache_get cu assoc_id (ob_udp_session ob) of
                       (None, c) \<Rightarrow> (Ok (), ob\<lparr>ob_udp_session := c\<rparr>)
                     | (Some a, c) \<Rightarrow>
                         (Ok (), snd (on_stream a
                            (deliver_packet co ci chan now assoc_id pkt_id frag_total frag_id payload target)
                            (ob\<lparr>ob_udp_session := c\<rparr>)))))))"

definition handle_datagram_in ::
  "bool \<Rightarrow> 'o outer_ops \<Rightarrow> 'i inner_ops \<Rightarrow> 'u session_ops \<Rightarrow> channel \<Rightarrow> nat \<Rightarrow> bytes \<Rightarrow>
     (('o, 'i, 'u) TuicOutbound, unit, Error) comp" where
  "handle_datagram_in oc co ci cu chan now data ob =
     (case decode_header ''datagram'' data of
        (Err e, _) \<Rightarrow> (Ok (), ob)
      | (Panic, _) \<Rightarrow> (Panic, ob)
      | (Ok header, buf) \<Rightarrow>
          (case decode_command (command header) ''datagram'' buf of
             (Err e, _) \<Rightarrow> (Ok (), ob)
           | (Panic, _) \<Rightarrow> (Panic, ob)
           | (Ok cmd, buf1) \<Rightarrow>
               (case cmd of
                  Packet assoc_id pkt_id frag_total frag_id sz \<Rightarrow>
                    handle_packet_cmd oc co ci cu chan now assoc_id pkt_id frag_total frag_id sz buf1 ob
                | _ \<Rightarrow> (Ok (), ob))))"

text \<open>What the select of the task sees next, and how the task stands afterwards.\<close>

datatype poll_event = PollCancelled | HeartbeatTick | BiReceived | DatagramReceived nat bytes | UniReceived

datatype poll_status = Polling | Finished "(unit, Error) result"

record ('o, 'i, 'u) poll_task =
  hb_failures :: nat
  pt_status :: poll_status
  pt_outbound :: "('o, 'i, 'u) TuicOutbound"

definition poll_start :: "('o, 'i, 'u) TuicOutbound \<Rightarrow> ('o, 'i, 'u) poll_task" where
  "poll_start ob = \<lparr>hb_failures = 0, pt_status = Polling, pt_outbound = ob\<rparr>"

definition on_tick :: "quinn \<Rightarrow> ('o, 'i, 'u) poll_task \<Rightarrow> ('o, 'i, 'u) poll_task" where
  "on_tick q t =
     (let (r, l) = send_heartbeat q (ob_connection (pt_outbound t));
          t1 = t\<lparr>pt_outbound := (pt_outbound t)\<lparr>ob_connection := l\<rparr>\<rparr>
      in case heartbeat_result (r = Ok ()) (hb_failures t) of
           None \<Rightarrow> t1\<lparr>hb_failures := hb_failures t + 1, pt_status := Finished (Err (EMsg ''Too many heartbeat failures''))\<rparr>
         | Some n \<Rightarrow> t1\<lparr>hb_failures := n\<rparr>)"

definition poll_step ::
  "bool \<Rightarrow> quinn \<Rightarrow> 'o outer_ops \<Rightarrow> 'i inner_ops \<Rightarrow> 'u session_ops \<Rightarrow> channel \<Rightarrow> poll_event \<Rightarrow>
     ('o, 'i, 'u) poll_task \<Rightarrow> ('o, 'i, 'u) poll_task" where
  "poll_step oc q co ci cu chan ev t = (case pt_status t of
     Finished r \<Rightarrow> t
   | Polling \<Rightarrow>
       (case ev of
          PollCancelled \<Rightarrow> t\<lparr>pt_status := Finished (Ok ())\<rparr>
        | HeartbeatTick \<Rightarrow> on_tick q t
        | BiReceived \<Rightarrow> t
        | UniReceived \<Rightarrow> t
        | DatagramReceived now data \<Rightarrow>
            (let (r, ob) = handle_datagram_in oc co ci cu chan now data (pt_outbound t);
                 t1 = t\<lparr>pt_outbound := ob\<rparr>
             in if r = Panic then t1\<lparr>pt_status := Finished Panic\<rparr> else t1)))"

text \<open>
  A run. Each event comes with the connection as it answers at that time, so that an operation
  that failed may succeed when it is tried again.
\<close>

fun poll_run ::
  "bool \<Rightarrow> 'o outer_ops \<Rightarrow> 'i inner_ops \<Rightarrow> 'u session_ops \<Rightarrow> channel \<Rightarrow> (quinn \<times> poll_event) list \<Rightarrow>
     ('o, 'i, 'u) poll_task \<Rightarrow> ('o, 'i, 'u) poll_task" where
  "poll_run oc co ci cu chan [] t = t"
| "poll_run oc co ci cu chan ((q, ev) # evs) t = poll_run oc co ci cu chan evs (poll_step oc q co ci cu chan ev t)"

section \<open>Requests\<close>

definition handle_tcp :: "quinn \<Rightarrow> TargetAddr \<Rightarrow> io_turn list \<Rightarrow> (('o, 'i, 'u) TuicOutbound, unit, Error) comp" where
  "handle_tcp q target_addr turns ob =
     and_then (zoom ob_connection (\<lambda>l ob. ob\<lparr>ob_connection := l\<rparr>) (open_tcp q target_addr turns)) (\<lambda>_. pure ()) ob"

text \<open>The start of \<^verbatim>\<open>handle_udp\<close>: a new association; the result is its number and the address of its stream.\<close>

definition handle_udp_open ::
  "'o outer_ops \<Rightarrow> 'u session_ops \<Rightarrow> ('o, 'i, 'u) TuicOutbound \<Rightarrow> (u16 \<times> nat) \<times> ('o, 'i, 'u) TuicOutbound" where
  "handle_udp_open co cu ob =
     (let assoc_id = ob_udp_assoc_counter ob;
          a = length (ob_streams ob)
      in ((assoc_id, a),
          ob\<lparr>ob_udp_assoc_counter := assoc_id + 1,
             ob_streams := ob_streams ob @ [UdpStream_new co (ob_connection ob) assoc_id],
             ob_udp_session := cache_insert cu assoc_id a (ob_udp_session ob)\<rparr>))"

text \<open>The end of \<^verbatim>\<open>handle_udp\<close>, after the cancellation: the association is dropped, errors are logged.\<close>

definition handle_udp_close :: "quinn \<Rightarrow> u16 \<Rightarrow> ('o, 'i, 'u) TuicOutbound \<Rightarrow> ('o, 'i, 'u) TuicOutbound" where
  "handle_udp_close q assoc_id ob =
     ob\<lparr>ob_connection := snd (drop_udp q assoc_id (ob_connection ob))\<rparr>"

section \<open>Heartbeats\<close>

text \<open>The outcomes of the heartbeats sent in a run, and the failures at the end of such a list.\<close>

fun heartbeats ::
  "bool \<Rightarrow> 'o outer_ops \<Rightarrow> 'i inner_ops \<Rightarrow> 'u session_ops \<Rightarrow> channel \<Rightarrow> (quinn \<times> poll_event) list \<Rightarrow>
     ('o, 'i, 'u) poll_task \<Rightarrow> bool list" where
  "heartbeats oc co ci cu chan [] t = []"
| "heartbeats oc co ci cu chan ((q, ev) # evs) t =
     (if pt_status t = Polling \<and> ev = HeartbeatTick
      then [fst (send_heartbeat q (ob_connection (pt_outbound t))) = Ok ()] else []) @
     heartbeats oc co ci cu chan evs (poll_step oc q co ci cu chan ev t)"

definition trailing_failures :: "bool list \<Rightarrow> nat" where
  "trailing_failures bs = length (takeWhile Not (rev bs))"

lemma trailing_failures_simps [simp]:
  "trailing_failures [] = 0"
  "trailing_failures (bs @ [True]) = 0"
  "trailing_failures (bs @ [False]) = Suc (trailing_failures bs)"
  by (simp_all add: trailing_failures_def)

lemma suffix_failures: "suffix [False, False, False] bs \<longleftrightarrow> 3 \<le> trailing_failures bs"
proof (cases bs rule: rev_cases)
  case (snoc cs x)
  then show ?thesis
  proof (cases cs rule: rev_cases)
    case (snoc ds y)
    with \<open>bs = cs @ [x]\<close> show ?thesis
      by (cases ds rule: rev_cases; cases x; cases y)
         (auto simp: suffix_def trailing_failures_def)
  qed (auto simp: suffix_def trailing_failures_def)
qed (auto simp: suffix_def)

abbreviation too_many :: poll_status where
  "too_many \<equiv> Finished (Err (EMsg ''Too many heartbeat failures''))"

definition heartbeat_inv :: "('o, 'i, 'u) poll_task \<Rightarrow> bool list \<Rightarrow> bool" where
  "heartbeat_inv t bs \<longleftrightarrow>
     (pt_status t = Polling \<longrightarrow> hb_failures t = trailing_failures bs \<and> trailing_failures bs < 3) \<and>
     (pt_status t = too_many \<longleftrightarrow> 3 \<le> trailing_failures bs)"

lemma on_tick_inv:
  assumes "heartbeat_inv t bs" and "pt_status t = Polling"
  shows "heartbeat_inv (on_tick q t) (bs @ [fst (send_heartbeat q (ob_connection (pt_outbound t))) = Ok ()])"
proof (cases "fst (send_heartbeat q (ob_connection (pt_outbound t))) = Ok ()")
  case True
  with assms show ?thesis
    by (auto simp: heartbeat_inv_def on_tick_def heartbeat_result_def split_beta Let_def)
next
  case False
  with assms show ?thesis
    by (auto simp: heartbeat_inv_def on_tick_def heartbeat_result_def HEARTBEAT_MAX_FAILURES_def split_beta Let_def)
qed

lemma poll_step_inv:
  assumes "heartbeat_inv t bs"
  shows "heartbeat_inv (poll_step oc q co ci cu chan ev t)
    (bs @ (if pt_status t = Polling \<and> ev = HeartbeatTick
      then [fst (send_heartbeat q (ob_connection (pt_outbound t))) = Ok ()] else []))"
proof (cases "pt_status t")
  case Polling
  show ?thesis
  proof (cases ev)
    case HeartbeatTick
    with Polling on_tick_inv [OF assms] show ?thesis by (simp add: poll_step_def)
  qed (use Polling assms in \<open>auto simp: poll_step_def heartbeat_inv_def split_beta Let_def\<close>)
qed (use assms in \<open>simp add: poll_step_def\<close>)

lemma poll_run_inv:
  "heartbeat_inv t bs \<Longrightarrow> heartbeat_inv (poll_run oc co ci cu chan evs t) (bs @ heartbeats oc co ci cu chan evs t)"
proof (induction evs arbitrary: t bs)
  case (Cons e evs)
  obtain q ev where e: "e = (q, ev)" by (cases e)
  from Cons.IH [OF poll_step_inv [OF Cons.prems]] show ?case by (simp add: e)
qed simp

text \<open>
  C14. When the client gives up. The polling task ends with the heartbeat error if and only if the last
  three heartbeats it sent failed; as long as it is polling, its failure counter is the number of
  heartbeats that have failed since the last success, and is below three.
\<close>

theorem heartbeat_gives_up_iff:
  "(pt_status (poll_run oc co ci cu chan evs (poll_start ob)) = too_many \<longleftrightarrow>
      suffix [False, False, False] (heartbeats oc co ci cu chan evs (poll_start ob))) \<and>
   (pt_status (poll_run oc co ci cu chan evs (poll_start ob)) = Polling \<longrightarrow>
      hb_failures (poll_run oc co ci cu chan evs (poll_start ob)) =
        trailing_failures (heartbeats oc co ci cu chan evs (poll_start ob)) \<and>
      hb_failures (poll_run oc co ci cu chan evs (poll_start ob)) < HEARTBEAT_MAX_FAILURES)"
proof -
  have "heartbeat_inv (poll_start ob) []"
    by (simp add: heartbeat_inv_def poll_start_def)
  from poll_run_inv [OF this, of oc co ci cu chan evs] show ?thesis
    by (simp add: heartbeat_inv_def suffix_failures HEARTBEAT_MAX_FAILURES_def)
qed

definition sample_outbound :: "((pkt_key, nat) alist_state, (u8, bytes) alist_state, (u16, nat) alist_state) TuicOutbound" where
  "sample_outbound = \<lparr>ob_opts = \<lparr>oo_peer_addr = SockV4 ipv4_unspecified 443, oo_sni = ''localhost'',
       oo_auth = (replicate 16 0, [1, 2, 3]), oo_zero_rtt_handshake = False, oo_heartbeat = 10, oo_gc_interval = 20,
       oo_gc_lifetime = 20, oo_skip_cert_verify = True, oo_alpn = [''h3'']\<rparr>,
      ob_connection = [], ob_udp_assoc_counter = 0,
     ob_udp_session = cache_new alist_cache 65535, ob_streams = []\<rparr>"

definition dead_quinn :: quinn where
  "dead_quinn = (sample_quinn 1200)\<lparr>outcome := (\<lambda>l x. Some ''connection lost'')\<rparr>"

theorem heartbeat_gives_up_iff_witness:
  "hb_failures (poll_run True alist_cache alist_cache alist_cache (\<lambda>_ _. None)
      [(dead_quinn, HeartbeatTick), (dead_quinn, HeartbeatTick)] (poll_start sample_outbound)) = 2"
proof -
  have "pt_status (poll_run True alist_cache alist_cache alist_cache (\<lambda>_ _. None)
      [(dead_quinn, HeartbeatTick), (dead_quinn, HeartbeatTick)] (poll_start sample_outbound)) = Polling"
    and "heartbeats True alist_cache alist_cache alist_cache (\<lambda>_ _. None)
      [(dead_quinn, HeartbeatTick), (dead_quinn, HeartbeatTick)] (poll_start sample_outbound) = [False, False]"
    by (simp_all add: poll_step_def poll_start_def on_tick_def send_heartbeat_def dead_quinn_def sample_outbound_def
        heartbeat_result_def HEARTBEAT_MAX_FAILURES_def Let_def)
  with heartbeat_gives_up_iff [of True alist_cache alist_cache alist_cache "\<lambda>_ _. None"
      "[(dead_quinn, HeartbeatTick), (dead_quinn, HeartbeatTick)]" sample_outbound] show ?thesis
    by (simp add: trailing_failures_def del: poll_run.simps heartbeats.simps)
qed

section \<open>Incoming datagrams\<close>

lemma handle_datagram_in_message:
  assumes "data = message cmd None @ rest" and "command_wf cmd"
  shows "handle_datagram_in oc co ci cu chan now data ob = (case cmd of
      Packet assoc_id pkt_id frag_total frag_id sz \<Rightarrow>
        handle_packet_cmd oc co ci cu chan now assoc_id pkt_id frag_total frag_id sz rest ob
    | _ \<Rightarrow> (Ok (), ob))"
proof -
  have "decode_header ''datagram'' data = (Ok (Header_new (CmdType_of_Command cmd)), cmd_wire cmd @ rest)"
    using assms(1) by (simp add: message_def decode_header_wire)
  moreover have "decode_command (CmdType_of_Command cmd) ''datagram'' (cmd_wire cmd @ rest) = (Ok cmd, rest)"
    using assms(2) by (simp add: decode_command_wire)
  ultimately show ?thesis
    by (simp add: handle_datagram_in_def Header_new_def)
qed

lemma handle_datagram_in_error:
  assumes "and_then (decode_header ''datagram'') (\<lambda>h. decode_command (command h) ''datagram'') data = (Err e, rest)"
  shows "handle_datagram_in oc co ci cu chan now data ob = (Ok (), ob)"
  using assms by (auto simp: handle_datagram_in_def and_then_def split: prod.splits result.splits)

lemma handle_packet_cmd_wire:
  assumes "addr_ok addr"
  shows "handle_packet_cmd oc co ci cu chan now a p ft fi sz (addr_wire addr @ rest) ob =
    (if length rest < unat sz \<or> oc \<and> fi = 255 then (Panic, ob)
     else case cache_get cu a (ob_udp_session ob) of
        (None, c) \<Rightarrow> (Ok (), ob\<lparr>ob_udp_session := c\<rparr>)
      | (Some i, c) \<Rightarrow> (Ok (), snd (on_stream i
          (deliver_packet co ci chan now a p ft fi (take (unat sz) rest)
            (case address_to_target addr of Ok t \<Rightarrow> t | _ \<Rightarrow> placeholder)) (ob\<lparr>ob_udp_session := c\<rparr>))))"
  using assms
  by (simp add: handle_packet_cmd_def decode_address_wire split_to_def log_frag_number_def)

lemma handle_packet_cmd_other:
  assumes "\<not> (\<exists>addr rest. addr_ok addr \<and> buf = addr_wire addr @ rest)"
  shows "handle_packet_cmd oc co ci cu chan now a p ft fi sz buf ob = (Ok (), ob)"
proof (cases "decode_address ''UDP packet'' buf")
  case (Pair r rest)
  then show ?thesis
    using assms decode_no_panic(3) [of "''UDP packet''" buf] addr.complete_Ok_iff [of _ buf _ rest]
    by (cases r) (auto simp: handle_packet_cmd_def decode_address_def)
qed

text \<open>
  C38. When an incoming datagram panics the polling task. It does exactly when the datagram is a packet
  whose size field announces more payload than follows the address, or, in a build with overflow
  checks, when its fragment number is 255. All other malformed datagrams are skipped.
\<close>

theorem handle_datagram_in_panics_iff:
  "fst (handle_datagram_in oc co ci cu chan now data ob) = Panic \<longleftrightarrow>
     (\<exists>a p ft fi sz addr rest. addr_ok addr \<and> data = message (Packet a p ft fi sz) (Some addr) @ rest \<and>
        (length rest < unat sz \<or> oc \<and> fi = 255))"
    (is "?L \<longleftrightarrow> ?R")
proof
  assume ?R
  then obtain a p ft fi sz addr rest where ok: "addr_ok addr" "length rest < unat sz \<or> oc \<and> fi = 255"
    and "data = message (Packet a p ft fi sz) (Some addr) @ rest"
    by blast
  then have "data = message (Packet a p ft fi sz) None @ addr_wire addr @ rest"
    by (simp add: message_def)
  then have "handle_datagram_in oc co ci cu chan now data ob =
      handle_packet_cmd oc co ci cu chan now a p ft fi sz (addr_wire addr @ rest) ob"
    by (subst handle_datagram_in_message [where cmd = "Packet a p ft fi sz" and rest = "addr_wire addr @ rest"]) simp_all
  with ok show ?L by (simp add: handle_packet_cmd_wire)
next
  assume L: ?L
  show ?R
  proof (cases rule: decode_head_cases [where data = data and c = "''datagram''"])
    case (1 cmd rest)
    note step = handle_datagram_in_message [OF 1(2,1), of oc co ci cu chan now ob]
    show ?thesis
    proof (cases cmd)
      case (Packet a p ft fi sz)
      with L step have panic: "fst (handle_packet_cmd oc co ci cu chan now a p ft fi sz rest ob) = Panic"
        by simp
      then obtain addr r where addr: "addr_ok addr" "rest = addr_wire addr @ r"
        using handle_packet_cmd_other [of rest oc co ci cu chan now a p ft fi sz ob] by fastforce
      with panic have "length r < unat sz \<or> oc \<and> fi = 255"
        by (auto simp: handle_packet_cmd_wire split: if_splits prod.splits option.splits)
      moreover have "data = message (Packet a p ft fi sz) (Some addr) @ r"
        using 1 Packet addr by (simp add: message_def)
      ultimately show ?thesis using addr(1) by blast
    qed (use L step in simp_all)
  next
    case 2
    with L show ?thesis by (simp add: handle_datagram_in_error)
  qed
qed

text \<open>What a packet command can change.\<close>

lemma handle_packet_cmd_effect:
  assumes "moka_ok cu capu conu"
  obtains "snd (handle_packet_cmd oc co ci cu chan now a p ft fi sz buf ob) = ob"
  | c where "conu c = conu (ob_udp_session ob)"
      and "snd (handle_packet_cmd oc co ci cu chan now a p ft fi sz buf ob) = ob\<lparr>ob_udp_session := c\<rparr>"
  | c i s addr rest where "conu c = conu (ob_udp_session ob)" and "conu (ob_udp_session ob) a = Some i"
      and "addr_ok addr" and "buf = addr_wire addr @ rest" and "unat sz \<le> length rest"
      and "snd (handle_packet_cmd oc co ci cu chan now a p ft fi sz buf ob) =
        ob\<lparr>ob_udp_session := c, ob_streams := (ob_streams ob)[i := s]\<rparr>"
proof (cases "\<exists>addr rest. addr_ok addr \<and> buf = addr_wire addr @ rest")
  case True
  then obtain addr rest where addr: "addr_ok addr" and buf: "buf = addr_wire addr @ rest" by blast
  obtain c where c: "cache_get cu a (ob_udp_session ob) = (conu (ob_udp_session ob) a, c)" "conu c = conu (ob_udp_session ob)"
    using moka_get [OF assms, of a "ob_udp_session ob"] by metis
  note run = handle_packet_cmd_wire [OF addr, of oc co ci cu chan now a p ft fi sz rest ob]
  show thesis
  proof (cases "length rest < unat sz \<or> oc \<and> fi = 255")
    case True
    with run buf show thesis by (intro that(1)) simp
  next
    case False
    show thesis
    proof (cases "conu (ob_udp_session ob) a")
      case None
      with run buf c False show thesis by (intro that(2) [of c]) simp_all
    next
      case (Some i)
      with run buf c False addr show thesis
        by (intro that(3) [of c i addr rest]) (simp_all add: on_stream_def split_beta Let_def)
    qed
  qed
qed (simp add: handle_packet_cmd_other that(1))

text \<open>
  C11. A datagram touches only its own association. Whatever bytes arrive: the connection, the association
  counter, the number of streams and the session table stay as they are, and a stream changes only
  if the datagram is a packet for the association that stream is registered under, complete with
  address and payload.
\<close>

theorem datagram_isolated:
  assumes "moka_ok cu capu conu" and "ob' = snd (handle_datagram_in oc co ci cu chan now data ob)"
  shows "ob_connection ob' = ob_connection ob \<and> ob_udp_assoc_counter ob' = ob_udp_assoc_counter ob \<and>
    length (ob_streams ob') = length (ob_streams ob) \<and> conu (ob_udp_session ob') = conu (ob_udp_session ob) \<and>
    (ob_streams ob' ! j \<noteq> ob_streams ob ! j \<longrightarrow>
       (\<exists>a p ft fi sz addr rest. conu (ob_udp_session ob) a = Some j \<and> addr_ok addr \<and> unat sz \<le> length rest \<and>
          data = message (Packet a p ft fi sz) (Some addr) @ rest))"
proof (cases rule: decode_head_cases [where data = data and c = "''datagram''"])
  case (1 cmd rest)
  note step = assms(2) [unfolded handle_datagram_in_message [OF 1(2,1)]]
  show ?thesis
  proof (cases cmd)
    case (Packet a p ft fi sz)
    with step have ob': "ob' = snd (handle_packet_cmd oc co ci cu chan now a p ft fi sz rest ob)" by simp
    have data: "data = message (Packet a p ft fi sz) (Some addr) @ r" if "rest = addr_wire addr @ r" for addr r
      using 1 Packet that by (simp add: message_def)
    show ?thesis
    proof (cases rule: handle_packet_cmd_effect [OF assms(1), of oc co ci chan now a p ft fi sz rest ob])
      case (3 c i s addr r)
      have "\<exists>a p ft fi sz addr rest. conu (ob_udp_session ob) a = Some i \<and> addr_ok addr \<and> unat sz \<le> length rest \<and>
          data = message (Packet a p ft fi sz) (Some addr) @ rest"
        using data [OF 3(4)] 3(2,3,5) by blast
      with ob' 3 show ?thesis by (cases "i = j") simp_all
    qed (use ob' in simp_all)
  qed (use step in simp_all)
qed (use assms(2) in \<open>simp_all add: handle_datagram_in_error\<close>)

theorem datagram_isolated_witness:
  "ob_streams (snd (handle_datagram_in True alist_cache alist_cache alist_cache (\<lambda>_ _. None) 3 [5, 2, 0, 1]
      (snd (handle_udp_open alist_cache alist_cache sample_outbound)))) ! 0 =
   ob_streams (snd (handle_udp_open alist_cache alist_cache sample_outbound)) ! 0"
proof -
  have "\<not> (\<exists>a p ft fi sz addr rest. [5, 2, 0, 1] = message (Packet a p ft fi sz) (Some addr) @ rest)"
    by (simp add: message_def u16_to_be_bytes_def)
  then show ?thesis
    using datagram_isolated [OF alist_cache_ok refl, of True alist_cache alist_cache "\<lambda>_ _. None" 3 "[5, 2, 0, 1]"
        "snd (handle_udp_open alist_cache alist_cache sample_outbound)" 0] by metis
qed

end
