(* ===== verification/Udp_Delivery.thy ===== *)
theory Udp_Delivery
  imports Tuic_Outbound
begin

text \<open>
  The datagrams of one packet, arriving at the polling task of \<^verbatim>\<open>crates/wind-tuic/src/outbound.rs\<close>
  in any order. On the stream of the association the task runs the reassembly buffer on the
  fragments and passes the packets that come out to the receive channel.
\<close>

section \<open>One datagram\<close>

text \<open>What the datagram of a piece does to the stream of its association.\<close>

definition take_piece ::
  "'o outer_ops \<Rightarrow> 'i inner_ops \<Rightarrow> channel \<Rightarrow> u16 \<Rightarrow> u16 \<Rightarrow> nat \<Rightarrow> TargetAddr \<Rightarrow> (nat \<Rightarrow> bytes) \<Rightarrow> nat \<Rightarrow> nat \<Rightarrow>
     ('o, 'i) UdpStream \<Rightarrow> ('o, 'i) UdpStream" where
  "take_piece co ci chan a p n target cs now k s =
     snd (deliver_packet co ci chan now a p (of_nat n) (of_nat k) (cs k) (if k = 0 then target else placeholder) s)"

lemma handle_fragment_datagram:
  assumes "moka_ok cu capu conu" and "conu (ob_udp_session ob) a = Some i"
    and "target_ok target" and "k < n" and "n \<le> 255" and "length (cs k) \<le> 65535"
  obtains c where "handle_datagram_in oc co ci cu chan now (fragment_datagram a p (of_nat n) target cs k) ob =
      (Ok (), ob\<lparr>ob_udp_session := c, ob_streams := (ob_streams ob)[i := take_piece co ci chan a p n target cs now k (ob_streams ob ! i)]\<rparr>)"
    and "conu c a = Some i"
proof -
  let ?addr = "if k = 0 then Address_from target else NoAddr"
  let ?cmd = "Packet a p (of_nat n) (of_nat k) (of_nat (length (cs k)))"
  have addr: "addr_ok ?addr" using assms(3) by simp
  have sz: "unat (of_nat (length (cs k)) :: u16) = length (cs k)"
    using assms(6) by (simp add: unat_of_nat_u16)
  have "unat (of_nat k :: u8) = k"
    using assms(4,5) by (simp add: unat_of_nat_u8)
  then have id: "of_nat k \<noteq> (255 :: u8)"
    using assms(4,5) by auto
  have split: "fragment_datagram a p (of_nat n) target cs k = message ?cmd None @ addr_wire ?addr @ cs k"
    by (simp add: fragment_datagram_def packet_datagram_def message_def)
  obtain c where get: "cache_get cu a (ob_udp_session ob) = (Some i, c)" and c: "conu c = conu (ob_udp_session ob)"
    using moka_get [OF assms(1), of a "ob_udp_session ob"] assms(2) by metis
  have tgt: "(case address_to_target ?addr of Ok t \<Rightarrow> t | _ \<Rightarrow> placeholder) = (if k = 0 then target else placeholder)"
    by simp
  show thesis
  proof (rule that)
    show "handle_datagram_in oc co ci cu chan now (fragment_datagram a p (of_nat n) target cs k) ob =
        (Ok (), ob\<lparr>ob_udp_session := c,
           ob_streams := (ob_streams ob)[i := take_piece co ci chan a p n target cs now k (ob_streams ob ! i)]\<rparr>)"
      using handle_datagram_in_message [OF split, of oc co ci cu chan now ob]
        handle_packet_cmd_wire [OF addr, of oc co ci cu chan now a p "of_nat n" "of_nat k" "of_nat (length (cs k))" "cs k" ob]
      by (simp add: get sz id tgt on_stream_def take_piece_def split_beta Let_def)
    show "conu c a = Some i" using c assms(2) by simp
  qed
qed

section \<open>A run\<close>

text \<open>An arrival: the connection at that time, the time, the number of the piece.\<close>

definition piece_event :: "u16 \<Rightarrow> u16 \<Rightarrow> nat \<Rightarrow> TargetAddr \<Rightarrow> (nat \<Rightarrow> bytes) \<Rightarrow> quinn \<times> nat \<times> nat \<Rightarrow> quinn \<times> poll_event" where
  "piece_event a p n target cs = (\<lambda>(q, now, k). (q, DatagramReceived now (fragment_datagram a p (of_nat n) target cs k)))"

definition take_pieces ::
  "'o outer_ops \<Rightarrow> 'i inner_ops \<Rightarrow> channel \<Rightarrow> u16 \<Rightarrow> u16 \<Rightarrow> nat \<Rightarrow> TargetAddr \<Rightarrow> (nat \<Rightarrow> bytes) \<Rightarrow> (quinn \<times> nat \<times> nat) list \<Rightarrow>
     ('o, 'i) UdpStream \<Rightarrow> ('o, 'i) UdpStream" where
  "take_pieces co ci chan a p n target cs = fold (\<lambda>(q, now, k). take_piece co ci chan a p n target cs now k)"

lemma poll_run_pieces:
  assumes "moka_ok cu capu conu" and "target_ok target" and "n \<le> 255"
    and "\<And>k. k \<in> set (map (\<lambda>(q, now, k). k) arrs) \<Longrightarrow> k < n \<and> length (cs k) \<le> 65535"
    and "conu (ob_udp_session (pt_outbound t)) a = Some i" and "i < length (ob_streams (pt_outbound t))"
    and "pt_status t = Polling"
  shows "\<exists>c. conu c a = Some i \<and>
    poll_run oc co ci cu chan (map (piece_event a p n target cs) arrs) t =
      t\<lparr>pt_outbound := (pt_outbound t)\<lparr>ob_udp_session := c, ob_streams := (ob_streams (pt_outbound t))
          [i := take_pieces co ci chan a p n target cs arrs (ob_streams (pt_outbound t) ! i)]\<rparr>\<rparr>"
  using assms(4-)
proof (induction arrs arbitrary: t)
  case Nil
  then show ?case
    by (intro exI [of _ "ob_udp_session (pt_outbound t)"]) (simp add: take_pieces_def)
next
  case (Cons x arrs)
  obtain q now k where x: "x = (q, now, k)" by (cases x)
  let ?ob = "pt_outbound t"
  let ?s = "take_piece co ci chan a p n target cs now k (ob_streams ?ob ! i)"
  have k: "k < n" "length (cs k) \<le> 65535"
    using Cons.prems(1) [of k] by (simp_all add: x)
  obtain c where c: "handle_datagram_in oc co ci cu chan now (fragment_datagram a p (of_nat n) target cs k) ?ob =
      (Ok (), ?ob\<lparr>ob_udp_session := c, ob_streams := (ob_streams ?ob)[i := ?s]\<rparr>)" and con: "conu c a = Some i"
    by (rule handle_fragment_datagram [where k = k and cs = cs, OF assms(1) Cons.prems(2) assms(2) k(1) assms(3) k(2)])
  let ?t = "t\<lparr>pt_outbound := ?ob\<lparr>ob_udp_session := c, ob_streams := (ob_streams ?ob)[i := ?s]\<rparr>\<rparr>"
  have step: "poll_step oc q co ci cu chan (snd (piece_event a p n target cs x)) t = ?t"
    using Cons.prems(4) c by (simp add: poll_step_def piece_event_def x)
  have "\<exists>c'. conu c' a = Some i \<and> poll_run oc co ci cu chan (map (piece_event a p n target cs) arrs) ?t =
      ?t\<lparr>pt_outbound := (pt_outbound ?t)\<lparr>ob_udp_session := c', ob_streams := (ob_streams (pt_outbound ?t))
          [i := take_pieces co ci chan a p n target cs arrs (ob_streams (pt_outbound ?t) ! i)]\<rparr>\<rparr>"
    by (rule Cons.IH) (use Cons.prems con in auto)
  with Cons.prems(3) step show ?case
    by (auto simp: x take_pieces_def piece_event_def)
qed

section \<open>The stream of the association\<close>

definition packets_of :: "UdpPacket option list \<Rightarrow> UdpPacket list" where
  "packets_of rs = map the (filter (\<lambda>r. r \<noteq> None) rs)"

lemma packets_of_simps [simp]:
  "packets_of [] = []" "packets_of (None # rs) = packets_of rs" "packets_of (Some x # rs) = x # packets_of rs"
  "packets_of (rs @ rs') = packets_of rs @ packets_of rs'" "packets_of (replicate m None) = []"
  by (simp_all add: packets_of_def)

definition piece_arrival :: "u16 \<Rightarrow> u16 \<Rightarrow> TargetAddr \<Rightarrow> bytes list \<Rightarrow> quinn \<times> nat \<times> nat \<Rightarrow> arrival" where
  "piece_arrival a p target cs = (\<lambda>(q, now, k). (now, piece (a, p) None (\<lambda>j. if j = 0 then target else placeholder) cs k))"

text \<open>With an open channel, fragments run through the reassembly buffer.\<close>

lemma take_pieces_fragments:
  assumes "\<And>sent packet. chan sent packet = None" and "1 < length cs" and "length cs \<le> 255"
  shows "take_pieces co ci chan a p (length cs) target ((!) cs) arrs s =
    (let (rs, b) = add_fragments co ci (map (piece_arrival a p target cs) arrs) (us_fragment_buffer s)
     in s\<lparr>us_fragment_buffer := b, us_receive_tx := us_receive_tx s @ packets_of rs\<rparr>)"
proof (induction arrs arbitrary: s)
  case Nil
  then show ?case by (simp add: take_pieces_def)
next
  case (Cons x arrs)
  obtain q now k where x: "x = (q, now, k)" by (cases x)
  have n: "unat (of_nat (length cs) :: u8) = length cs"
    using assms(3) by (simp add: unat_of_nat_u8)
  obtain r b1 where r: "add_fragment co ci now (fst (piece (a, p) None (\<lambda>j. if j = 0 then target else placeholder) cs k)) (cs ! k)
      (us_fragment_buffer s) = (r, b1)"
    by fastforce
  let ?s = "s\<lparr>us_fragment_buffer := b1, us_receive_tx := us_receive_tx s @ packets_of [r]\<rparr>"
  have "take_piece co ci chan a p (length cs) target ((!) cs) now k s = ?s"
    using r assms(1,2)
    by (cases r) (simp_all add: take_piece_def deliver_packet_def n process_fragment_def receive_packet_def piece_def)
  then have "take_pieces co ci chan a p (length cs) target ((!) cs) (x # arrs) s =
      take_pieces co ci chan a p (length cs) target ((!) cs) arrs ?s"
    by (simp add: take_pieces_def x)
  also have "\<dots> = (let (rs, b) = add_fragments co ci (map (piece_arrival a p target cs) arrs) b1
     in s\<lparr>us_fragment_buffer := b, us_receive_tx := us_receive_tx s @ packets_of (r # rs)\<rparr>)"
    using Cons.IH [of ?s] by (cases r) (simp_all add: split_beta Let_def)
  moreover have "piece_arrival a p target cs x =
      (now, fst (piece (a, p) None (\<lambda>j. if j = 0 then target else placeholder) cs k), cs ! k)"
    by (simp add: piece_arrival_def piece_def x)
  ultimately show ?case
    by (simp add: r split_beta Let_def)
qed

text \<open>All arrivals belong to the one packet.\<close>

lemma length_spec_adds: "length (fst (spec_adds xs m)) = length xs"
  by (induction xs arbitrary: m) (auto simp: split_beta Let_def)

lemma filter_zip_all: "(\<And>x. x \<in> set xs \<Longrightarrow> P x) \<Longrightarrow> filter (\<lambda>(x, r). P x) (zip xs rs) = zip xs rs"
  by (auto simp: filter_id_conv dest: set_zip_leftD)

lemma spec_adds_one_key:
  assumes "\<And>x. x \<in> set xs \<Longrightarrow> arrival_key x = key"
  shows "fst (spec_adds xs m) = fst (slot_adds (map snd xs) (m key))"
proof -
  have "answers_of key xs (fst (spec_adds xs m)) = fst (spec_adds xs m)"
    using assms by (simp add: answers_of_def filter_zip_all length_spec_adds)
  moreover have "arrivals_of key xs = map snd xs"
    using assms by (simp add: arrivals_of_def filter_id_conv)
  ultimately show ?thesis using spec_adds_local(1) [of key xs m] by simp
qed

lemma add_fragments_pieces:
  assumes "moka_ok co capo cono" and "moka_ok ci capi coni" and "buf_ok capo cono capi coni b"
    and "view cono coni b (a, p) = None" and "card (dom (view cono coni b)) < 1000"
    and "cs \<noteq> []" and "length cs \<le> 255" and "\<not> is_placeholder target"
    and "map (\<lambda>(q, now, k). k) arrs = js @ [j]" and "j < length cs" and "set js = {..<length cs} - {j}"
  shows "packets_of (fst (add_fragments co ci (map (piece_arrival a p target cs) arrs) b)) =
    [\<lparr>pk_source = None, pk_target = target, pk_payload = concat cs\<rparr>]"
proof -
  let ?xs = "map (piece_arrival a p target cs) arrs" and ?tgt = "\<lambda>j :: nat. if j = 0 then target else placeholder"
  have key: "arrival_key x = (a, p)" and total: "fi_frag_total (fst (snd x)) = of_nat (length cs)" if "x \<in> set ?xs" for x
    using that by (auto simp: arrival_key_def info_key_def piece_arrival_def piece_def)
  have pos: "0 < unat (of_nat (length cs) :: u8)"
    using assms(6,7) by (simp add: unat_of_nat_u8)
  have fin: "finite (dom (view cono coni b))"
    by (simp add: dom_view moka_finite [OF assms(1)])
  let ?K = "insert (a, p) (dom (view cono coni b))"
  have K: "finite ?K" "card ?K \<le> 1000" "dom (view cono coni b) \<subseteq> ?K"
    using fin assms(4,5) by (auto simp: card_insert_if)
  have in_K: "arrival_key x \<in> ?K \<and> 0 < unat (fi_frag_total (fst (snd x)))" if "x \<in> set ?xs" for x
    using key [OF that] total [OF that] pos by simp
  obtain b' where "add_fragments co ci ?xs b = (fst (spec_adds ?xs (view cono coni b)), b')"
    by (rule add_fragments_refine [OF assms(1,2) K(1,2) assms(3) K(3) in_K])
  then have "fst (add_fragments co ci ?xs b) = fst (spec_adds ?xs (view cono coni b))"
    by simp
  also have "\<dots> = fst (slot_adds (map snd ?xs) None)"
    using spec_adds_one_key [of ?xs "(a, p)"] key assms(4) by simp
  also have "map snd ?xs = map (piece (a, p) None ?tgt cs) (js @ [j])"
    by (simp add: piece_arrival_def split_beta comp_def flip: assms(9))
  finally show ?thesis
    using slot_adds_complete [of cs ?tgt j js "(a, p)" None] assms(7,8,10,11) by simp
qed

text \<open>The pieces of a packet, in any order: the channel gets the packet once.\<close>

lemma take_pieces_complete:
  assumes "moka_ok co capo cono" and "moka_ok ci capi coni" and "buf_ok capo cono capi coni (us_fragment_buffer s)"
    and "view cono coni (us_fragment_buffer s) (a, p) = None" and "card (dom (view cono coni (us_fragment_buffer s))) < 1000"
    and "\<And>sent packet. chan sent packet = None"
    and "cs \<noteq> []" and "length cs \<le> 255" and "\<not> is_placeholder target"
    and "map (\<lambda>(q, now, k). k) arrs = js @ [j]" and "j < length cs" and "set js = {..<length cs} - {j}"
  shows "us_receive_tx (take_pieces co ci chan a p (length cs) target ((!) cs) arrs s) =
    us_receive_tx s @ [\<lparr>pk_source = None, pk_target = target, pk_payload = concat cs\<rparr>]"
proof (cases "1 < length cs")
  case True
  obtain rs b where rs: "add_fragments co ci (map (piece_arrival a p target cs) arrs) (us_fragment_buffer s) = (rs, b)"
    by fastforce
  have "take_pieces co ci chan a p (length cs) target ((!) cs) arrs s =
      s\<lparr>us_fragment_buffer := b, us_receive_tx := us_receive_tx s @ packets_of rs\<rparr>"
    by (subst take_pieces_fragments [OF assms(6) True assms(8)]) (simp add: rs)
  with add_fragments_pieces [OF assms(1-5,7-)] show ?thesis
    by (simp add: rs)
next
  case False
  with assms(7) obtain c where cs: "cs = [c]" by (cases cs) auto
  with assms(11,12) have "j = 0" and "js = []" by (simp_all add: lessThan_Suc)
  with assms(10) obtain q now where "arrs = [(q, now, 0)]"
    by (auto simp: map_eq_Cons_conv)
  with cs show ?thesis
    by (simp add: take_pieces_def take_piece_def deliver_packet_def receive_packet_def assms(6))
qed

text \<open>The datagrams a packet is sent in are the datagrams of its pieces, and each piece has a 16-bit length.\<close>

lemma packet_datagrams_nth:
  assumes "10 + target_addr_size (pk_target packet) \<le> limit" and "limit \<le> 65535"
    and "cs = packet_pieces limit packet" and "k < length cs"
  shows "packet_datagrams limit a p packet ! k = fragment_datagram a p (of_nat (length cs)) (pk_target packet) ((!) cs) k"
    and "length (cs ! k) \<le> 65535"
proof -
  have lim: "11 < limit"
    using assms(1) target_addr_size_gt [of "pk_target packet"] by simp
  show nth: "packet_datagrams limit a p packet ! k = fragment_datagram a p (of_nat (length cs)) (pk_target packet) ((!) cs) k"
    using assms(3,4) by (simp add: packet_datagrams_def Let_def)
  have "packet_datagrams limit a p packet ! k \<in> set (packet_datagrams limit a p packet)"
    using assms(3,4) by (intro nth_mem) (simp add: packet_datagrams_def Let_def)
  then have "length (packet_datagrams limit a p packet ! k) \<le> limit"
    using packet_datagrams_length [OF assms(1) lim] by blast
  with nth assms(2) show "length (cs ! k) \<le> 65535"
    by (simp add: length_fragment_datagram)
qed

end
