(* ===== verification/Socks_Udp.thy ===== *)
theory Socks_Udp
  imports Core_Udp Utf8
begin

text \<open>
  \<^verbatim>\<open>crates/wind-socks/src/udp.rs\<close>: the virtual UDP socket between the SOCKS5 client and the
  outbound. Incoming datagrams are stripped of their SOCKS5 header, outgoing ones get a header.
  \<open>SocksTargetAddr\<close> is the address type of \<^verbatim>\<open>fast_socks5\<close>; its function \<^verbatim>\<open>new_udp_header\<close> is a
  parameter, with the header format of RFC 1928 as the hypothesis \<open>udp_header_ok\<close>. The
  operating system's answer to a send is a parameter as well.
\<close>

datatype SocksTargetAddr = SIp SocketAddr | SDomain string u16

fun convert_target_addr :: "SocksTargetAddr \<Rightarrow> TargetAddr" where
  "convert_target_addr (SIp (SockV4 a p)) = TIPv4 a p"
| "convert_target_addr (SIp (SockV6 a p fi sc)) = TIPv6 a p"
| "convert_target_addr (SDomain domain p) = TDomain domain p"

section \<open>Parsing a request\<close>

text \<open>Indexing and slicing, which panic out of range.\<close>

definition at :: "bytes \<Rightarrow> nat \<Rightarrow> (u8 \<Rightarrow> ('a, 'e) result) \<Rightarrow> ('a, 'e) result" where
  "at data i f = (case index_at data i of None \<Rightarrow> Panic | Some b \<Rightarrow> f b)"

definition slice_at :: "bytes \<Rightarrow> nat \<Rightarrow> nat \<Rightarrow> (bytes \<Rightarrow> ('a, 'e) result) \<Rightarrow> ('a, 'e) result" where
  "slice_at data i j f = (if i \<le> j \<and> j \<le> length data then f (take (j - i) (drop i data)) else Panic)"

definition parse_ipv4 :: "bytes \<Rightarrow> nat \<Rightarrow> (SocksTargetAddr \<times> nat, string) result" where
  "parse_ipv4 data offset =
     (if length data < offset + 6 then Err ''Incomplete IPv4 address in SOCKS5 UDP header''
      else at data offset (\<lambda>a. at data (offset + 1) (\<lambda>b. at data (offset + 2) (\<lambda>c. at data (offset + 3) (\<lambda>d.
           at data (offset + 4) (\<lambda>hi. at data (offset + 5) (\<lambda>lo.
             Ok (SIp (SockV4 (Ipv4Addr a b c d) (u16_from_be_bytes hi lo)), offset + 6))))))))"

definition parse_domain :: "bytes \<Rightarrow> nat \<Rightarrow> (SocksTargetAddr \<times> nat, string) result" where
  "parse_domain data offset =
     (if length data < offset + 1 then Err ''Incomplete domain length in SOCKS5 UDP header''
      else at data offset (\<lambda>len_byte.
        let domain_len = unat len_byte; offset = offset + 1 in
        if length data < offset + domain_len + 2 then Err ''Incomplete domain name in SOCKS5 UDP header''
        else slice_at data offset (offset + domain_len) (\<lambda>name.
          let domain = from_utf8_lossy name; offset = offset + domain_len in
          at data offset (\<lambda>hi. at data (offset + 1) (\<lambda>lo.
            Ok (SDomain domain (u16_from_be_bytes hi lo), offset + 2))))))"

definition parse_ipv6 :: "bytes \<Rightarrow> nat \<Rightarrow> (SocksTargetAddr \<times> nat, string) result" where
  "parse_ipv6 data offset =
     (if length data < offset + 18 then Err ''Incomplete IPv6 address in SOCKS5 UDP header''
      else slice_at data offset (offset + 16) (\<lambda>ip_bytes.
           at data (offset + 16) (\<lambda>hi. at data (offset + 17) (\<lambda>lo.
             Ok (SIp (SockV6 (ipv6_from_octets ip_bytes) (u16_from_be_bytes hi lo) 0 0), offset + 18)))))"

definition parse_udp_request_sync :: "bytes \<Rightarrow> (u8 \<times> SocksTargetAddr \<times> bytes, string) result" where
  "parse_udp_request_sync data =
     (if length data < 4 then Err ''Packet too short for SOCKS5 UDP header''
      else at data 0 (\<lambda>r0. at data 1 (\<lambda>r1.
        if r0 \<noteq> 0 \<or> r1 \<noteq> 0 then Err ''Invalid reserved bytes in SOCKS5 UDP header''
        else at data 2 (\<lambda>frag. at data 3 (\<lambda>atyp.
          let offset = 4 in
          case (if atyp = 1 then parse_ipv4 data offset
                else if atyp = 3 then parse_domain data offset
                else if atyp = 4 then parse_ipv6 data offset
                else Err ''Unsupported address type'') of
            Err e \<Rightarrow> Err e
          | Panic \<Rightarrow> Panic
          | Ok (target_addr, offset) \<Rightarrow>
              slice_at data offset (length data) (\<lambda>payload. Ok (frag, target_addr, payload)))))))"

section \<open>The socket\<close>

text \<open>\<open>sk_sent\<close> is what the operating system has taken.\<close>

record 'e Socks5UdpSocket =
  sk_source_addr :: SocketAddr
  sk_sent :: "'e Transmit list"

definition Socks5UdpSocket_new :: "'e Socks5UdpSocket" where
  "Socks5UdpSocket_new = \<lparr>sk_source_addr = SocketAddr_new (IpV4 ipv4_unspecified) 0, sk_sent = []\<rparr>"

definition sys_send :: "('e Transmit list \<Rightarrow> 'e Transmit \<Rightarrow> string option) \<Rightarrow> 'e Transmit \<Rightarrow>
    ('e Socks5UdpSocket, unit, string) comp" where
  "sys_send os t s = (case os (sk_sent s) t of
     None \<Rightarrow> (Ok (), s\<lparr>sk_sent := sk_sent s @ [t]\<rparr>)
   | Some e \<Rightarrow> (Err e, s))"

definition try_send ::
  "('e Transmit list \<Rightarrow> 'e Transmit \<Rightarrow> string option) \<Rightarrow> (SocketAddr \<Rightarrow> bytes option) \<Rightarrow> 'e Transmit \<Rightarrow>
     ('e Socks5UdpSocket, unit, string) comp" where
  "try_send os new_udp_header transmit s =
     (let socks_target = sk_source_addr s in
      case new_udp_header socks_target of
        Some header \<Rightarrow>
          sys_send os \<lparr>tr_destination = socks_target, tr_ecn = tr_ecn transmit, tr_contents = header @ tr_contents transmit,
            tr_segment_size = tr_segment_size transmit, tr_src_ip = tr_src_ip transmit\<rparr> s
      | None \<Rightarrow> sys_send os transmit s)"

text \<open>
  Copying into the front of the buffer \<^verbatim>\<open>bufs[i]\<close>, and the processing of the datagrams
  \<open>i, i + 1, ...\<close> of one receive call, with \<open>k\<close> datagrams passed on so far. \<open>None\<close> is a panic.
\<close>

definition copy_front :: "bytes list \<Rightarrow> nat \<Rightarrow> bytes \<Rightarrow> (nat \<times> bytes list) option" where
  "copy_front bufs i src =
     (if i < length bufs
      then let n = min (length src) (length (bufs ! i)) in Some (n, bufs[i := take n src @ drop n (bufs ! i)])
      else None)"

fun process_packets ::
  "(bytes \<times> 'e QuinnRecvMeta) list \<Rightarrow> nat \<Rightarrow> 'e Socks5UdpSocket \<Rightarrow> bytes list \<Rightarrow> 'e RecvMeta list \<Rightarrow>
     (nat \<times> 'e Socks5UdpSocket \<times> bytes list \<times> 'e RecvMeta list) option" where
  "process_packets [] k s bufs meta = Some (k, s, bufs, meta)"
| "process_packets ((temp_buf, tm) # ps) k s bufs meta =
     (if q_len tm > 0 then
        if length temp_buf < q_len tm then None
        else
          let packet_data = take (q_len tm) temp_buf;
              s = s\<lparr>sk_source_addr := q_addr tm\<rparr> in
          (case parse_udp_request_sync packet_data of
             Ok (_, target_addr, payload) \<Rightarrow>
               (case copy_front bufs k payload of
                  None \<Rightarrow> None
                | Some (payload_len, bufs') \<Rightarrow>
                    if k < length meta then
                      process_packets ps (k + 1) s bufs'
                        (meta[k := (RecvMeta_from tm)\<lparr>rm_len := payload_len,
                           rm_destination := Some (convert_target_addr target_addr)\<rparr>])
                    else None)
           | Err _ \<Rightarrow>
               (case copy_front bufs k packet_data of
                  None \<Rightarrow> None
                | Some (data_len, bufs') \<Rightarrow>
                    if k < length meta then
                      process_packets ps (k + 1) s bufs' (meta[k := (RecvMeta_from tm)\<lparr>rm_len := data_len\<rparr>])
                    else None)
           | Panic \<Rightarrow> None)
      else process_packets ps k s bufs meta)"

fun socks_poll_recv ::
  "'e attempt list \<Rightarrow> 'e Socks5UdpSocket \<Rightarrow> bytes list \<Rightarrow> 'e RecvMeta list \<Rightarrow> ('e Socks5UdpSocket, 'e) poll_result option" where
  "socks_poll_recv [] s bufs meta = None"
| "socks_poll_recv (NotReady # as) s bufs meta = Some (Pending, s, bufs, meta)"
| "socks_poll_recv (ReadyErr e # as) s bufs meta = Some (Ready (Err e), s, bufs, meta)"
| "socks_poll_recv (TryFail # as) s bufs meta = socks_poll_recv as s bufs meta"
| "socks_poll_recv (TryOk res temp_bufs temp_meta # as) s bufs meta =
     (if length temp_bufs < res \<or> length temp_meta < res then Some (Ready Panic, s, bufs, meta)
      else case process_packets (take res (zip temp_bufs temp_meta)) 0 s bufs meta of
        None \<Rightarrow> Some (Ready Panic, s, bufs, meta)
      | Some (n, s', bufs', meta') \<Rightarrow> Some (Ready (Ok n), s', bufs', meta'))"

section \<open>The parser accepts exactly the headers\<close>

text \<open>The header of RFC 1928: two reserved bytes, the fragment number, the address.\<close>

fun socks_addr_wire :: "SocksTargetAddr \<Rightarrow> bytes" where
  "socks_addr_wire (SIp (SockV4 a p)) = 1 # octets4 a @ u16_to_be_bytes p"
| "socks_addr_wire (SIp (SockV6 a p fi sc)) = 4 # octets6 a @ u16_to_be_bytes p"
| "socks_addr_wire (SDomain d p) = 3 # of_nat (length d) # as_bytes d @ u16_to_be_bytes p"

definition socks_header :: "u8 \<Rightarrow> SocksTargetAddr \<Rightarrow> bytes" where
  "socks_header frag a = [0, 0, frag] @ socks_addr_wire a"

fun socks_addr_ok :: "SocksTargetAddr \<Rightarrow> bool" where
  "socks_addr_ok (SIp (SockV4 a p)) \<longleftrightarrow> True"
| "socks_addr_ok (SIp (SockV6 a p fi sc)) \<longleftrightarrow> fi = 0 \<and> sc = 0"
| "socks_addr_ok (SDomain d p) \<longleftrightarrow> length d \<le> 255 \<and> utf8_valid (as_bytes d)"

lemma at_in_range: "i < length data \<Longrightarrow> at data i f = f (data ! i)"
  by (simp add: at_def)

lemma slice_at_in_range: "i \<le> j \<Longrightarrow> j \<le> length data \<Longrightarrow> slice_at data i j f = f (take (j - i) (drop i data))"
  by (simp add: slice_at_def)

text \<open>The address parsers read the bytes after the four fixed ones.\<close>

lemma parse_ipv4_eq:
  "parse_ipv4 (w # x # y # z # rest) 4 =
     (if length rest < 6 then Err ''Incomplete IPv4 address in SOCKS5 UDP header''
      else Ok (SIp (SockV4 (ipv4_from_octets (take 4 rest)) (u16_from_be_bytes (rest ! 4) (rest ! 5))), 10))"
proof (cases "length rest < 6")
  case False
  then obtain a b c d e f r where "rest = a # b # c # d # e # f # r"
    by (auto simp: not_less numeral_eq_Suc Suc_le_length_iff)
  then show ?thesis
    by (simp add: parse_ipv4_def at_in_range)
qed (simp add: parse_ipv4_def)

lemma parse_ipv6_eq:
  "parse_ipv6 (w # x # y # z # rest) 4 =
     (if length rest < 18 then Err ''Incomplete IPv6 address in SOCKS5 UDP header''
      else Ok (SIp (SockV6 (ipv6_from_octets (take 16 rest)) (u16_from_be_bytes (rest ! 16) (rest ! 17)) 0 0), 22))"
  by (simp add: parse_ipv6_def slice_at_in_range at_in_range)

lemma parse_domain_eq:
  "parse_domain (w # x # y # z # rest) 4 =
     (case rest of
        [] \<Rightarrow> Err ''Incomplete domain length in SOCKS5 UDP header''
      | l # r \<Rightarrow>
          if length r < unat l + 2 then Err ''Incomplete domain name in SOCKS5 UDP header''
          else Ok (SDomain (from_utf8_lossy (take (unat l) r)) (u16_from_be_bytes (r ! unat l) (r ! (unat l + 1))),
                7 + unat l))"
  by (cases rest)
     (simp_all add: parse_domain_def slice_at_in_range at_in_range Let_def nth_Cons' numeral_eq_Suc)

lemma take_two: "n + 2 \<le> length r \<Longrightarrow> take n r @ [r ! n, r ! (n + 1)] @ drop (n + 2) r = r"
  by (simp add: Cons_nth_drop_Suc)

lemma at_header:
  "at (w # x # y # z # rest) 0 f = f w"
  "at (w # x # y # z # rest) 1 f = f x"
  "at (w # x # y # z # rest) 2 f = f y"
  "at (w # x # y # z # rest) 3 f = f z"
  by (simp_all add: at_in_range)

lemma parse_udp_request_sync_Cons:
  "parse_udp_request_sync (w # x # y # z # rest) =
     (if w \<noteq> 0 \<or> x \<noteq> 0 then Err ''Invalid reserved bytes in SOCKS5 UDP header''
      else case (if z = 1 then parse_ipv4 (w # x # y # z # rest) 4
                 else if z = 3 then parse_domain (w # x # y # z # rest) 4
                 else if z = 4 then parse_ipv6 (w # x # y # z # rest) 4
                 else Err ''Unsupported address type'') of
          Err e \<Rightarrow> Err e
        | Panic \<Rightarrow> Panic
        | Ok (target_addr, offset) \<Rightarrow>
            slice_at (w # x # y # z # rest) offset (length (w # x # y # z # rest)) (\<lambda>payload. Ok (y, target_addr, payload)))"
  unfolding parse_udp_request_sync_def at_header Let_def by simp

lemma header_short_or_long:
  fixes data :: bytes
  obtains "length data < 4" | w x y z rest where "data = w # x # y # z # rest"
  by (cases "length data < 4") (auto simp: not_less numeral_eq_Suc Suc_le_length_iff)

lemma drop_5_7: "drop (7 + n) (a # b # c # d # e # r) = drop (n + 2) r"
  by (simp add: numeral_eq_Suc)

text \<open>The whole parser by address type.\<close>

lemma parse_by_type:
  "parse_udp_request_sync (0 # 0 # f # 1 # rest) =
     (if length rest < 6 then Err ''Incomplete IPv4 address in SOCKS5 UDP header''
      else Ok (f, SIp (SockV4 (ipv4_from_octets (take 4 rest)) (u16_from_be_bytes (rest ! 4) (rest ! 5))), drop 6 rest))"
  "parse_udp_request_sync (0 # 0 # f # 4 # rest) =
     (if length rest < 18 then Err ''Incomplete IPv6 address in SOCKS5 UDP header''
      else Ok (f, SIp (SockV6 (ipv6_from_octets (take 16 rest)) (u16_from_be_bytes (rest ! 16) (rest ! 17)) 0 0), drop 18 rest))"
  "parse_udp_request_sync (0 # 0 # f # 3 # rest) =
     (case rest of
        [] \<Rightarrow> Err ''Incomplete domain length in SOCKS5 UDP header''
      | l # r \<Rightarrow>
          if length r < unat l + 2 then Err ''Incomplete domain name in SOCKS5 UDP header''
          else Ok (f, SDomain (from_utf8_lossy (take (unat l) r)) (u16_from_be_bytes (r ! unat l) (r ! (unat l + 1))),
                drop (unat l + 2) r))"
  by (simp_all add: parse_udp_request_sync_Cons parse_ipv4_eq parse_ipv6_eq parse_domain_eq slice_at_in_range
      drop_5_7 split: list.split)

lemma parse_other:
  "z \<notin> {1, 3, 4} \<Longrightarrow> is_err (parse_udp_request_sync (w # x # y # z # rest))"
  "w \<noteq> 0 \<or> x \<noteq> 0 \<Longrightarrow> is_err (parse_udp_request_sync (w # x # y # z # rest))"
  by (simp_all add: parse_udp_request_sync_Cons)

lemma parse_short: "length data < 4 \<Longrightarrow> is_err (parse_udp_request_sync data)"
  by (simp add: parse_udp_request_sync_def)

text \<open>Every input is of one of these kinds.\<close>

lemma parse_cases [case_names error ipv4 domain ipv6]:
  obtains "is_err (parse_udp_request_sync data)"
  | f rest where "data = 0 # 0 # f # 1 # rest" and "6 \<le> length rest"
  | f l r where "data = 0 # 0 # f # 3 # l # r" and "unat l + 2 \<le> length r"
  | f rest where "data = 0 # 0 # f # 4 # rest" and "18 \<le> length rest"
proof (cases data rule: header_short_or_long)
  case 1
  then show thesis using parse_short that(1) by blast
next
  case (2 w x y z rest)
  show thesis
  proof (cases "w = 0 \<and> x = 0 \<and> z \<in> {1, 3, 4}")
    case False
    with 2 parse_other show thesis by (intro that(1)) blast
  next
    case True
    then consider "z = 1" | "z = 3" | "z = 4" by blast
    then show thesis
    proof cases
      case 1
      with True 2 that(1) that(2) [of y rest] show thesis
        by (cases "6 \<le> length rest") (auto simp: parse_by_type)
    next
      case c: 2
      show thesis
      proof (cases rest)
        case Nil
        with c True 2 that(1) show thesis by (auto simp: parse_by_type)
      next
        case (Cons l r)
        with c True 2 that(1) that(3) [of y l r] show thesis
          by (cases "unat l + 2 \<le> length r") (auto simp: parse_by_type)
      qed
    next
      case 3
      with True 2 that(1) that(4) [of y rest] show thesis
        by (cases "18 \<le> length rest") (auto simp: parse_by_type)
    qed
  qed
qed

lemma parse_no_panic: "parse_udp_request_sync data \<noteq> Panic"
  by (cases data rule: parse_cases) (auto simp: parse_by_type)

lemma parse_header:
  assumes "socks_addr_ok a"
  shows "parse_udp_request_sync (socks_header f a @ payload) = Ok (f, a, payload)"
proof (cases a)
  case (SIp sa)
  with assms show ?thesis
    by (cases sa) (simp_all add: socks_header_def parse_by_type nth_append u16_to_be_bytes_def)
next
  case (SDomain d p)
  with assms have "from_utf8_lossy (as_bytes d) = d" and "unat (of_nat (length d) :: u8) = length d"
    by (simp_all add: from_utf8_lossy_agrees from_utf8_as_bytes unat_of_nat_u8)
  with SDomain show ?thesis
    by (simp add: socks_header_def parse_by_type nth_append u16_to_be_bytes_def)
qed



section \<open>The socket keeps the contract\<close>

lemma copy_front_ok:
  assumes "i < length bufs"
  obtains n bufs' where "copy_front bufs i src = Some (n, bufs')" and "map length bufs' = map length bufs"
    and "n \<le> length (bufs ! i)" and "\<And>j. j \<noteq> i \<Longrightarrow> bufs' ! j = bufs ! j"
    and "bufs' ! i = take n src @ drop n (bufs ! i)" and "n = min (length src) (length (bufs ! i))"
proof -
  let ?n = "min (length src) (length (bufs ! i))"
  have "map length (bufs[i := take ?n src @ drop ?n (bufs ! i)]) = map length bufs"
    using assms by (intro nth_equalityI) (auto simp: nth_list_update)
  with assms show thesis
    by (intro that [of ?n "bufs[i := take ?n src @ drop ?n (bufs ! i)]"]) (simp_all add: copy_front_def Let_def)
qed

definition filled :: "nat \<Rightarrow> bytes list \<Rightarrow> 'e RecvMeta list \<Rightarrow> bool" where
  "filled k bufs meta \<longleftrightarrow> (\<forall>i < k. rm_len (meta ! i) \<le> length (bufs ! i))"

lemma filled_step:
  assumes "filled k bufs meta" and "k < length bufs" and "k < length meta"
    and "copy_front bufs k src = Some (n, bufs')" and "rm_len m = n"
  shows "filled (Suc k) bufs' (meta[k := m])"
proof -
  obtain n' bufs'' where c: "copy_front bufs k src = Some (n', bufs'')" "map length bufs'' = map length bufs"
    "n' \<le> length (bufs ! k)"
    using copy_front_ok [OF assms(2), where src = src] by metis
  then have "length (bufs' ! i) = length (bufs ! i)" if "i < length bufs" for i
    using assms(4) that by (metis length_map nth_map option.inject prod.inject)
  with c assms show ?thesis
    by (auto simp: filled_def less_Suc_eq nth_list_update)
qed

lemma process_packets_ok:
  assumes "\<forall>(tb, tm) \<in> set ps. q_len tm \<le> length tb"
    and "k + length ps \<le> length bufs" and "k + length ps \<le> length meta" and "filled k bufs meta"
  shows "\<exists>n s' bufs' meta'. process_packets ps k s bufs meta = Some (n, s', bufs', meta') \<and>
    n \<le> k + length ps \<and> map length bufs' = map length bufs \<and> length meta' = length meta \<and> filled n bufs' meta'"
  using assms
proof (induction ps arbitrary: k s bufs meta)
  case Nil
  then show ?case by simp
next
  case (Cons p ps)
  obtain tb tm where p [simp]: "p = (tb, tm)" by (cases p)
  show ?case
  proof (cases "q_len tm > 0")
    case False
    with Cons.IH [of k bufs meta s] Cons.prems show ?thesis
      by auto
  next
    case True
    have k: "k < length bufs" "k < length meta" using Cons.prems by simp_all
    let ?s = "s\<lparr>sk_source_addr := q_addr tm\<rparr>"
    obtain src m where step: "process_packets (p # ps) k s bufs meta = (case copy_front bufs k src of
          None \<Rightarrow> None
        | Some (len, bufs1) \<Rightarrow> process_packets ps (k + 1) ?s bufs1 (meta[k := m len]))"
      and m: "\<And>len. rm_len (m len) = len"
    proof (cases "parse_udp_request_sync (take (q_len tm) tb)")
      case (Ok r)
      then obtain f t payload where "parse_udp_request_sync (take (q_len tm) tb) = Ok (f, t, payload)"
        by (cases r) auto
      with True k Cons.prems(1) show thesis
        by (intro that [where src = payload and m = "\<lambda>len. (RecvMeta_from tm)\<lparr>rm_len := len,
              rm_destination := Some (convert_target_addr t)\<rparr>"]) (auto simp: Let_def split: option.split)
    next
      case (Err e)
      with True k Cons.prems(1) show thesis
        by (intro that [where src = "take (q_len tm) tb" and m = "\<lambda>len. (RecvMeta_from tm)\<lparr>rm_len := len\<rparr>"])
           (auto simp: Let_def split: option.split)
    qed (simp add: parse_no_panic)
    obtain len bufs1 where c: "copy_front bufs k src = Some (len, bufs1)" "map length bufs1 = map length bufs"
      using copy_front_ok [OF k(1), where src = src] by metis
    then have "length bufs1 = length bufs" by (metis length_map)
    moreover have "filled (k + 1) bufs1 (meta[k := m len])"
      using filled_step [OF Cons.prems(4) k c(1) m] by simp
    ultimately have "\<exists>n s' bufs' meta'. process_packets ps (k + 1) ?s bufs1 (meta[k := m len]) = Some (n, s', bufs', meta') \<and>
        n \<le> k + 1 + length ps \<and> map length bufs' = map length bufs1 \<and>
        length meta' = length (meta[k := m len]) \<and> filled n bufs' meta'"
      using Cons.prems by (intro Cons.IH) simp_all
    with step c show ?thesis
      by simp
  qed
qed

lemma zip_attempt:
  assumes "attempt_ok bufs meta (TryOk res tbs tms)"
  shows "\<forall>(tb, tm) \<in> set (take res (zip tbs tms)). q_len tm \<le> length tb"
    and "length (take res (zip tbs tms)) \<le> length bufs" and "length (take res (zip tbs tms)) \<le> length meta"
    and "res \<le> length tbs" and "res \<le> length tms"
proof -
  have "length tbs = length bufs"
    using assms by (metis attempt_ok.simps(1) length_map)
  with assms show "length (take res (zip tbs tms)) \<le> length bufs" "length (take res (zip tbs tms)) \<le> length meta"
    and "res \<le> length tbs" "res \<le> length tms"
    by simp_all
  show "\<forall>(tb, tm) \<in> set (take res (zip tbs tms)). q_len tm \<le> length tb"
    using assms by (auto simp: in_set_conv_nth list_all2_conv_all_nth)
qed

lemma socks_poll_recv_ok:
  assumes "attempt_ok bufs meta (TryOk res tbs tms)"
  shows "\<exists>n s' bufs' meta'. socks_poll_recv (TryOk res tbs tms # as) s bufs meta = Some (Ready (Ok n), s', bufs', meta') \<and>
    n \<le> length meta \<and> n \<le> length bufs \<and> map length bufs' = map length bufs \<and> length meta' = length meta \<and> filled n bufs' meta'"
proof -
  note z = zip_attempt [OF assms]
  have "filled 0 bufs meta" by (simp add: filled_def)
  then obtain n s' bufs' meta' where "process_packets (take res (zip tbs tms)) 0 s bufs meta = Some (n, s', bufs', meta')"
    "n \<le> 0 + length (take res (zip tbs tms))" "map length bufs' = map length bufs" "length meta' = length meta" "filled n bufs' meta'"
    using process_packets_ok [of "take res (zip tbs tms)" 0 bufs meta s] z(1-3) by auto
  with z(2-5) show ?thesis by auto
qed

interpretation socks: udp_socket socks_poll_recv
proof
  fix as s bufs and meta :: "'a RecvMeta list" and s' bufs' meta'
  assume "list_all (attempt_ok bufs meta) as"
  then show "socks_poll_recv as s bufs meta \<noteq> Some (Ready Panic, s', bufs', meta')"
  proof (induction as s bufs meta rule: socks_poll_recv.induct)
    case (5 res tbs tms as s bufs meta)
    then show ?case using socks_poll_recv_ok [of bufs meta res tbs tms as s] by auto
  qed simp_all
next
  fix as s bufs and meta :: "'a RecvMeta list" and n s' bufs' meta'
  assume "list_all (attempt_ok bufs meta) as" and "socks_poll_recv as s bufs meta = Some (Ready (Ok n), s', bufs', meta')"
  then show "n \<le> length meta \<and> length meta' = length meta \<and> map length bufs' = map length bufs \<and>
      list_all2 (\<lambda>m b. rm_len m \<le> length b) (take n meta') (take n bufs')"
  proof (induction as s bufs meta rule: socks_poll_recv.induct)
    case (5 res tbs tms as s bufs meta)
    then obtain "n \<le> length meta" "n \<le> length bufs" "map length bufs' = map length bufs" "length meta' = length meta" "filled n bufs' meta'"
      using socks_poll_recv_ok [of bufs meta res tbs tms as s] by auto
    moreover from this have "length bufs' = length bufs" by (metis length_map)
    ultimately show ?case
      by (simp add: list_all2_conv_all_nth filled_def)
  qed simp_all
qed

section \<open>Requests and replies\<close>

lemma socks_poll_recv_one:
  assumes "socks_addr_ok a" and "q_len tm = length (socks_header f a @ payload)"
    and "length (socks_header f a @ payload @ pad) = length buf"
  shows "socks_poll_recv [TryOk 1 [socks_header f a @ payload @ pad] [tm]] s [buf] [meta] =
      Some (Ready (Ok 1), s\<lparr>sk_source_addr := q_addr tm\<rparr>, [payload @ drop (length payload) buf],
        [(RecvMeta_from tm)\<lparr>rm_len := length payload, rm_destination := Some (convert_target_addr a)\<rparr>])"
proof -
  define d where "d = socks_header f a @ payload @ pad"
  have "take (q_len tm) d = socks_header f a @ payload"
    using assms(2) by (simp add: d_def)
  then have parse: "parse_udp_request_sync (take (q_len tm) d) = Ok (f, a, payload)"
    by (simp add: parse_header [OF assms(1)])
  have front: "copy_front [buf] 0 payload = Some (length payload, [payload @ drop (length payload) buf])"
    using assms(3) by (simp add: copy_front_def Let_def)
  have len: "0 < q_len tm" "\<not> length d < q_len tm"
    using assms(2) by (simp_all add: socks_header_def d_def)
  have "socks_poll_recv [TryOk 1 [d] [tm]] s [buf] [meta] =
      Some (Ready (Ok 1), s\<lparr>sk_source_addr := q_addr tm\<rparr>, [payload @ drop (length payload) buf],
        [(RecvMeta_from tm)\<lparr>rm_len := length payload, rm_destination := Some (convert_target_addr a)\<rparr>])"
    using len by (simp add: parse front Let_def)
  then show ?thesis
    by (simp add: d_def)
qed

text \<open>
  A request of the client. When one datagram with a SOCKS5 header arrives, the receive call hands
  exactly its payload to the caller, reports its length, its sender and the requested destination,
  and remembers the sender for replies. The segment size reported by the system is passed on as it
  is. An empty datagram is reported as zero datagrams and changes nothing.
\<close>

theorem socks_poll_recv_request:
  assumes "socks_addr_ok a" and "q_len tm = length (socks_header f a @ payload)"
    and "length (socks_header f a @ payload @ pad) = length buf" and "q_len tm0 = 0"
  shows "socks_poll_recv [TryOk 1 [socks_header f a @ payload @ pad] [tm]] s [buf] [meta] =
      Some (Ready (Ok 1), s\<lparr>sk_source_addr := q_addr tm\<rparr>, [payload @ drop (length payload) buf],
        [(RecvMeta_from tm)\<lparr>rm_len := length payload, rm_destination := Some (convert_target_addr a)\<rparr>]) \<and>
    socks_poll_recv [TryOk 1 [tb] [tm0]] s [buf] [meta] = Some (Ready (Ok 0), s, [buf], [meta])"
  using socks_poll_recv_one [OF assms(1-3)] assms(4) by simp

definition sample_qmeta :: "nat \<Rightarrow> unit QuinnRecvMeta" where
  "sample_qmeta n = \<lparr>q_addr = SockV4 (Ipv4Addr 127 0 0 1) 4000, q_len = n, q_stride = n, q_ecn = None, q_dst_ip = None\<rparr>"

theorem socks_poll_recv_request_witness:
  "\<exists>m. socks_poll_recv [TryOk 1 [[0, 0, 0, 1, 10, 0, 0, 1, 0, 53, 7, 8, 0, 0]] [sample_qmeta 12]] Socks5UdpSocket_new
      [[0, 0, 0, 0, 0, 0, 0, 0, 0, 0, 0, 0, 0, 0]] [RecvMeta_default] =
    Some (Ready (Ok 1), Socks5UdpSocket_new\<lparr>sk_source_addr := SockV4 (Ipv4Addr 127 0 0 1) 4000\<rparr>,
      [[7, 8, 0, 0, 0, 0, 0, 0, 0, 0, 0, 0, 0, 0]], [m]) \<and> rm_len m = 2"
  using socks_poll_recv_request [of "SIp (SockV4 (Ipv4Addr 10 0 0 1) 53)" "sample_qmeta 12" 0 "[7, 8]" "[0, 0]"
      "[0, 0, 0, 0, 0, 0, 0, 0, 0, 0, 0, 0, 0, 0]" "sample_qmeta 0" Socks5UdpSocket_new RecvMeta_default "[]"]
  by (simp add: socks_header_def sample_qmeta_def u16_to_be_bytes_def RecvMeta_from_def
      del: socks_poll_recv.simps)

text \<open>What \<^verbatim>\<open>new_udp_header\<close> of \<^verbatim>\<open>fast_socks5\<close> promises: the header of RFC 1928, not fragmented.\<close>

definition udp_header_ok :: "(SocketAddr \<Rightarrow> bytes option) \<Rightarrow> bool" where
  "udp_header_ok new_udp_header \<longleftrightarrow> (\<forall>a. new_udp_header a = Some (socks_header 0 (SIp a)))"



end
