(* ===== verification/Tuic_Association.thy ===== *)
theory Tuic_Association
  imports Tuic_Outbound Socks_Udp
begin

text \<open>
  The two tasks of a UDP association, from \<^verbatim>\<open>handle_udp\<close> in
  \<^verbatim>\<open>crates/wind-tuic/src/outbound.rs\<close>. The reader receives datagrams from the local socket,
  cuts coalesced ones into segments and queues a packet for each; the sender takes queued
  packets to the connection and received packets to the local socket, and triggers the garbage
  collection. The queue is third-party: \<open>tx\<close> tells from the packets it has taken whether it
  takes the next one.
\<close>

section \<open>The reader\<close>

text \<open>The address a datagram is for: its destination, unless that is a domain or missing.\<close>

definition reader_target :: "'e RecvMeta \<Rightarrow> TargetAddr" where
  "reader_target meta = TargetAddr_from (case rm_destination meta of
     Some (TIPv4 a p) \<Rightarrow> SockV4 a p
   | Some (TIPv6 a p) \<Rightarrow> SockV6 a p 0 0
   | Some (TDomain _ _) \<Rightarrow> rm_addr meta
   | None \<Rightarrow> rm_addr meta)"

definition queue_send :: "(UdpPacket list \<Rightarrow> UdpPacket \<Rightarrow> bool) \<Rightarrow> UdpPacket \<Rightarrow> UdpPacket list \<Rightarrow> bool \<times> UdpPacket list" where
  "queue_send tx packet queue = (if tx queue packet then (True, queue @ [packet]) else (False, queue))"

text \<open>
  The loop over the segments; \<open>None\<close> is a panic of the slice. A closed queue leaves this loop only.
\<close>

fun segment_loop ::
  "(UdpPacket list \<Rightarrow> UdpPacket \<Rightarrow> bool) \<Rightarrow> TargetAddr \<Rightarrow> nat \<Rightarrow> nat \<Rightarrow> bytes \<Rightarrow> nat list \<Rightarrow> UdpPacket list \<Rightarrow> UdpPacket list option" where
  "segment_loop tx target stride total_len buf [] queue = Some queue"
| "segment_loop tx target stride total_len buf (segment_idx # idxs) queue =
     (let segment_start = segment_idx * stride;
          segment_end = min (segment_start + stride) total_len in
      if segment_start \<le> segment_end \<and> segment_end \<le> length buf then
        let payload = take (segment_end - segment_start) (drop segment_start buf) in
        (case queue_send tx \<lparr>pk_source = None, pk_target = target, pk_payload = payload\<rparr> queue of
           (True, queue') \<Rightarrow> segment_loop tx target stride total_len buf idxs queue'
         | (False, queue') \<Rightarrow> Some queue')
      else None)"

datatype reader_status = Reading | ReaderStopped | ReaderPanicked

text \<open>One turn of the reader: what \<open>recv\<close> returned is a count with the buffer and the metadata, or an error.\<close>

definition reader_step ::
  "(UdpPacket list \<Rightarrow> UdpPacket \<Rightarrow> bool) \<Rightarrow> (nat \<times> bytes \<times> 'e RecvMeta, string) result \<Rightarrow> UdpPacket list \<Rightarrow>
     reader_status \<times> UdpPacket list" where
  "reader_step tx received queue = (case received of
     Err e \<Rightarrow> (ReaderStopped, queue)
   | Panic \<Rightarrow> (ReaderPanicked, queue)
   | Ok (n, buf, meta) \<Rightarrow>
       if n \<noteq> 1 then (ReaderStopped, queue)
       else
         let total_len = rm_len meta; target = reader_target meta; stride = rm_stride meta in
         if 0 < stride \<and> stride < total_len then
           (case div_ceil total_len stride of
              None \<Rightarrow> (ReaderPanicked, queue)
            | Some num_segments \<Rightarrow>
                (case segment_loop tx target stride total_len buf [0..<num_segments] queue of
                   None \<Rightarrow> (ReaderPanicked, queue)
                 | Some queue' \<Rightarrow> (Reading, queue')))
         else if total_len \<le> length buf then
           (case queue_send tx \<lparr>pk_source = None, pk_target = target, pk_payload = take total_len buf\<rparr> queue of
              (True, queue') \<Rightarrow> (Reading, queue')
            | (False, queue') \<Rightarrow> (ReaderStopped, queue'))
         else (ReaderPanicked, queue))"

text \<open>
  A turn on a socket: \<open>recv\<close> polls with the one buffer of the task and fresh metadata, and the
  reader handles what it returned. A socket that has no answer keeps the task waiting.
\<close>

definition reader_turn ::
  "('e attempt list \<Rightarrow> 's \<Rightarrow> bytes list \<Rightarrow> 'e RecvMeta list \<Rightarrow> ('s, 'e) poll_result option) \<Rightarrow>
     (UdpPacket list \<Rightarrow> UdpPacket \<Rightarrow> bool) \<Rightarrow> 'e attempt list \<Rightarrow> 's \<times> bytes \<times> UdpPacket list \<Rightarrow>
     reader_status \<times> 's \<times> bytes \<times> UdpPacket list" where
  "reader_turn poll_recv tx as = (\<lambda>(s, buf, queue).
     case poll_recv as s [buf] [RecvMeta_default] of
       Some (Ready r, s', bufs', meta') \<Rightarrow>
         (case reader_step tx (case r of Ok n \<Rightarrow> Ok (n, hd bufs', hd meta') | Err e \<Rightarrow> Err e | Panic \<Rightarrow> Panic) queue of
            (status, queue') \<Rightarrow> (status, s', hd bufs', queue'))
     | _ \<Rightarrow> (Reading, s, buf, queue))"

fun reader_run ::
  "('e attempt list \<Rightarrow> 's \<Rightarrow> bytes list \<Rightarrow> 'e RecvMeta list \<Rightarrow> ('s, 'e) poll_result option) \<Rightarrow>
     (UdpPacket list \<Rightarrow> UdpPacket \<Rightarrow> bool) \<Rightarrow> 'e attempt list list \<Rightarrow> 's \<times> bytes \<times> UdpPacket list \<Rightarrow>
     reader_status \<times> 's \<times> bytes \<times> UdpPacket list" where
  "reader_run poll_recv tx [] st = (Reading, st)"
| "reader_run poll_recv tx (as # ass) st =
     (case reader_turn poll_recv tx as st of
        (Reading, st') \<Rightarrow> reader_run poll_recv tx ass st'
      | stopped \<Rightarrow> stopped)"

text \<open>The task starts with a zeroed buffer of 65535 bytes.\<close>

definition reader_buffer :: bytes where
  "reader_buffer = replicate 65535 0"

section \<open>The sender\<close>

datatype sender_event =
    SenderCancelled
  | PacketReceived "(UdpPacket, string) result"
  | PacketQueued "(UdpPacket, string) result"
  | GcTick nat

datatype sender_status = Sending | SenderStopped | SenderPanicked

text \<open>Sending on the stream at an address, over the shared connection.\<close>

definition stream_send ::
  "bool \<Rightarrow> quinn \<Rightarrow> nat \<Rightarrow> UdpPacket \<Rightarrow> (('o, 'i, 'u) TuicOutbound, unit, Error) comp" where
  "stream_send oc q a packet ob =
     (let (r, s) = send_packet oc q packet ((ob_streams ob ! a)\<lparr>us_connection := ob_connection ob\<rparr>)
      in (r, ob\<lparr>ob_streams := (ob_streams ob)[a := s], ob_connection := us_connection s\<rparr>))"

definition sender_step ::
  "bool \<Rightarrow> quinn \<Rightarrow> 'o outer_ops \<Rightarrow> (bytes \<Rightarrow> SocketAddr \<Rightarrow> 'k \<Rightarrow> (nat, string) result poll \<times> 'k) \<Rightarrow> nat \<Rightarrow> sender_event \<Rightarrow>
     ('o, 'i, 'u) TuicOutbound \<times> 'k \<Rightarrow> sender_status \<times> ('o, 'i, 'u) TuicOutbound \<times> 'k" where
  "sender_step oc q co socket_send a ev st = (case (ev, st) of
     (SenderCancelled, ob, k) \<Rightarrow> (SenderStopped, ob, k)
   | (PacketReceived (Err e), ob, k) \<Rightarrow> (SenderStopped, ob, k)
   | (PacketReceived Panic, ob, k) \<Rightarrow> (SenderPanicked, ob, k)
   | (PacketReceived (Ok packet), ob, k) \<Rightarrow>
       (Sending, ob, snd (socket_send (pk_payload packet) (SocketAddr_new (IpV4 ipv4_unspecified) 0) k))
   | (PacketQueued (Err e), ob, k) \<Rightarrow> (SenderStopped, ob, k)
   | (PacketQueued Panic, ob, k) \<Rightarrow> (SenderPanicked, ob, k)
   | (PacketQueued (Ok packet), ob, k) \<Rightarrow>
       (let (r, ob') = stream_send oc q a packet ob
        in (if r = Panic then SenderPanicked else Sending, ob', k))
   | (GcTick now_ms, ob, k) \<Rightarrow>
       (Sending, snd (on_stream a (\<lambda>s. ((), collect_garbage co now_ms s)) ob), k))"

section \<open>Segments\<close>

text \<open>The reference: cut a list into chunks of the given size, the last may be shorter.\<close>

fun chunks :: "nat \<Rightarrow> 'a list \<Rightarrow> 'a list list" where
  "chunks n xs = (if xs = [] \<or> n = 0 then [] else take n xs # chunks n (drop n xs))"

declare chunks.simps [simp del]

lemma chunks_Nil [simp]: "chunks n [] = []"
  by (simp add: chunks.simps)

lemma chunks_step: "xs \<noteq> [] \<Longrightarrow> 0 < n \<Longrightarrow> chunks n xs = take n xs # chunks n (drop n xs)"
  by (subst chunks.simps) simp

lemma concat_chunks: "0 < n \<Longrightarrow> concat (chunks n xs) = xs"
  by (induction n xs rule: chunks.induct) (metis append_take_drop_id chunks_Nil chunks_step concat.simps not_gr_zero)

definition segment_packet :: "TargetAddr \<Rightarrow> bytes \<Rightarrow> UdpPacket" where
  "segment_packet target payload = \<lparr>pk_source = None, pk_target = target, pk_payload = payload\<rparr>"

text \<open>With a queue that takes everything, the loop queues the chunks from segment \<open>i\<close> on.\<close>

lemma segment_loop_chunks:
  assumes "0 < stride" and "total_len \<le> length buf" and "div_ceil total_len stride = Some n" and "i \<le> n"
    and "\<And>qu p. tx qu p"
  shows "segment_loop tx target stride total_len buf [i..<n] queue =
    Some (queue @ map (segment_packet target) (chunks stride (drop (i * stride) (take total_len buf))))"
  using assms(4)
proof (induction "n - i" arbitrary: i queue)
  case 0
  then have "total_len \<le> i * stride"
    using div_ceil_cover(1) [OF assms(3)] by simp
  with 0 show ?case by simp
next
  case (Suc k)
  have lt: "i * stride < total_len"
  proof -
    have pos: "0 < total_len"
      using Suc.hyps(2) assms(1,3) by (cases total_len) (auto simp: div_ceil_def)
    have "i * stride \<le> (n - 1) * stride"
      using Suc.hyps(2) by (intro mult_le_mono1) simp
    also have "\<dots> < total_len" using div_ceil_cover(2) [OF assms(3) pos] .
    finally show ?thesis .
  qed
  let ?rest = "drop (i * stride) (take total_len buf)"
  have ne: "?rest \<noteq> []" using lt assms(2) by simp
  have payload: "take (min (i * stride + stride) total_len - i * stride) (drop (i * stride) buf) = take stride ?rest"
    using lt by (simp add: drop_take min_def)
  have "[i..<n] = i # [Suc i..<n]"
    using Suc.hyps(2) by (simp add: upt_conv_Cons)
  moreover have "chunks stride ?rest = take stride ?rest # chunks stride (drop (Suc i * stride) (take total_len buf))"
    using chunks_step [OF ne assms(1)] by (simp add: add.commute)
  moreover have "segment_loop tx target stride total_len buf [Suc i..<n] (queue @ [segment_packet target (take stride ?rest)]) =
      Some ((queue @ [segment_packet target (take stride ?rest)]) @
        map (segment_packet target) (chunks stride (drop (Suc i * stride) (take total_len buf))))"
    using Suc.hyps by (intro Suc.hyps(1)) simp_all
  ultimately show ?case
    using lt assms(2,5) by (simp add: queue_send_def payload segment_packet_def Let_def)
qed

lemma reader_step_queues:
  assumes "rm_len meta \<le> length buf" and "\<And>qu p. tx qu p"
  shows "reader_step tx (Ok (1, buf, meta)) queue =
    (Reading, queue @ map (segment_packet (reader_target meta))
       (if 0 < rm_stride meta \<and> rm_stride meta < rm_len meta then chunks (rm_stride meta) (take (rm_len meta) buf)
        else [take (rm_len meta) buf]))"
proof (cases "0 < rm_stride meta \<and> rm_stride meta < rm_len meta")
  case True
  then obtain n where n: "div_ceil (rm_len meta) (rm_stride meta) = Some n"
    by (auto simp: div_ceil_def)
  with segment_loop_chunks [OF _ assms(1) n, of 0] True assms(2) show ?thesis
    by (simp add: reader_step_def Let_def)
next
  case False
  with assms show ?thesis
    by (auto simp: reader_step_def Let_def queue_send_def segment_packet_def)
qed

lemma segment_loop_no_panic:
  assumes "\<And>i. i \<in> set idxs \<Longrightarrow> i * stride \<le> total_len" and "total_len \<le> length buf"
  shows "segment_loop tx target stride total_len buf idxs queue \<noteq> None"
  using assms(1)
proof (induction idxs arbitrary: queue)
  case (Cons i idxs)
  have "i * stride \<le> total_len" by (rule Cons.prems) simp
  with Cons assms(2) show ?case
    by (auto simp: Let_def split: prod.splits bool.splits)
qed simp

lemma reader_step_no_panic:
  assumes "rm_len meta \<le> length buf"
  shows "fst (reader_step tx (Ok (n, buf, meta)) queue) \<noteq> ReaderPanicked"
proof (cases "0 < rm_stride meta \<and> rm_stride meta < rm_len meta")
  case True
  then obtain k where k: "div_ceil (rm_len meta) (rm_stride meta) = Some k"
    by (auto simp: div_ceil_def)
  have "i * rm_stride meta \<le> rm_len meta" if "i \<in> set [0..<k]" for i
  proof -
    have "i * rm_stride meta \<le> (k - 1) * rm_stride meta"
      using that by (intro mult_le_mono1) simp
    also have "\<dots> < rm_len meta"
      using div_ceil_cover(2) [OF k] True by simp
    finally show ?thesis by simp
  qed
  from segment_loop_no_panic [where idxs = "[0..<k]", OF this assms, where tx = tx and target = "reader_target meta" and queue = queue] True k show ?thesis
    by (auto simp: reader_step_def Let_def split: option.split)
next
  case False
  with assms show ?thesis
    by (auto simp: reader_step_def Let_def split: prod.splits bool.splits)
qed

section \<open>The reader on a socket\<close>

lemma attempt_ok_cong: "length b = length b' \<Longrightarrow> attempt_ok [b] meta = attempt_ok [b'] meta"
proof
  show "attempt_ok [b] meta a = attempt_ok [b'] meta a" if "length b = length b'" for a
    using that by (cases a) simp_all
qed

context udp_socket
begin

lemma reader_turn_ok:
  assumes "list_all (attempt_ok [buf] [RecvMeta_default]) as"
    and "reader_turn poll_recv tx as (s, buf, queue) = (status, s', buf', queue')"
  shows "status \<noteq> ReaderPanicked \<and> (status = Reading \<longrightarrow> length buf' = length buf)"
proof (cases "\<exists>n s1 bufs1 meta1. poll_recv as s [buf] [RecvMeta_default] = Some (Ready (Ok n), s1, bufs1, meta1)")
  case True
  then obtain n s1 bufs1 meta1 where r: "poll_recv as s [buf] [RecvMeta_default] = Some (Ready (Ok n), s1, bufs1, meta1)"
    by blast
  show ?thesis
  proof (cases "n = 1")
    case True
    with r obtain b m where "bufs1 = [b]" "meta1 = [m]" "length b = length buf" "rm_len m \<le> length buf"
      using single_buffer [OF assms(1)] by metis
    with r True assms(2) reader_step_no_panic [of m b tx n queue] show ?thesis
      by (auto simp: reader_turn_def split: prod.splits)
  next
    case False
    with r assms(2) show ?thesis
      by (auto simp: reader_turn_def reader_step_def)
  qed
next
  case False
  with assms(2) poll_recv_no_panic [OF assms(1), of s] show ?thesis
    by (auto simp: reader_turn_def reader_step_def split: option.splits prod.splits poll.splits result.splits)
qed

lemma reader_run_ok:
  assumes "list_all (list_all (attempt_ok [buf] [RecvMeta_default])) ass"
  shows "fst (reader_run poll_recv tx ass (s, buf, queue)) \<noteq> ReaderPanicked \<and>
    (fst (reader_run poll_recv tx ass (s, buf, queue)) = Reading \<longrightarrow>
       length (fst (snd (snd (reader_run poll_recv tx ass (s, buf, queue))))) = length buf)"
  using assms
proof (induction ass arbitrary: s buf queue)
  case (Cons as ass)
  obtain st s1 b1 q1 where t: "reader_turn poll_recv tx as (s, buf, queue) = (st, s1, b1, q1)"
    by (cases "reader_turn poll_recv tx as (s, buf, queue)") auto
  have first: "list_all (attempt_ok [buf] [RecvMeta_default]) as"
    using Cons.prems by simp
  note ok = reader_turn_ok [OF first t]
  show ?case
  proof (cases st)
    case Reading
    with ok have len: "length b1 = length buf" by simp
    have "list_all (list_all (attempt_ok [b1] [RecvMeta_default])) ass"
      using Cons.prems by (simp add: attempt_ok_cong [OF len])
    from Cons.IH [OF this, of s1 q1] len t Reading show ?thesis by simp
  next
    case ReaderPanicked
    with ok show ?thesis by simp
  qed (use t in simp)
qed simp

end

text \<open>
  C12. The reader task is safe on both kinds of socket. As long as the receive calls of the system keep
  to their contract for the 65535-byte buffer, no sequence of receptions makes the task panic, on a
  SOCKS5 socket as on a plain one, whatever the queue answers; while the task reads, the buffer of the
  SOCKS5 association keeps its size.
\<close>

theorem reader_safe:
  assumes "list_all (list_all (attempt_ok [reader_buffer] [RecvMeta_default])) ass"
  shows "fst (reader_run socks_poll_recv tx ass (s, reader_buffer, queue)) \<noteq> ReaderPanicked \<and>
    fst (reader_run tokio_poll_recv tx ass ((), reader_buffer, queue)) \<noteq> ReaderPanicked \<and>
    (fst (reader_run socks_poll_recv tx ass (s, reader_buffer, queue)) = Reading \<longrightarrow>
       length (fst (snd (snd (reader_run socks_poll_recv tx ass (s, reader_buffer, queue))))) = 65535)"
  using socks.reader_run_ok [OF assms] tokio.reader_run_ok [OF assms]
  by (auto simp: reader_buffer_def)

theorem reader_safe_witness:
  "fst (reader_run socks_poll_recv (\<lambda>_ _. True) [[TryOk 1 [replicate 65535 1] [sample_qmeta 65535]]]
     (Socks5UdpSocket_new, reader_buffer, [])) \<noteq> ReaderPanicked"
  using reader_safe [of "[[TryOk 1 [replicate 65535 1] [sample_qmeta 65535]]]" "\<lambda>_ _. True" Socks5UdpSocket_new "[]"]
  by (simp add: reader_buffer_def sample_qmeta_def del: reader_run.simps)

text \<open>
  What the reader queues. With an open queue, a reception of one datagram queues one packet with
  the received bytes, unless the system has coalesced several datagrams: then it queues one packet
  for each segment, of the segment size except for the last, and the segments joined are the
  received bytes. All packets go to the target of the metadata.
\<close>

theorem reader_segments:
  assumes "rm_len meta \<le> length buf" and "\<And>qu p. tx qu p"
  shows "\<exists>payloads. reader_step tx (Ok (1, buf, meta)) queue =
      (Reading, queue @ map (segment_packet (reader_target meta)) payloads) \<and>
    concat payloads = take (rm_len meta) buf \<and>
    payloads = (if 0 < rm_stride meta \<and> rm_stride meta < rm_len meta then chunks (rm_stride meta) (take (rm_len meta) buf)
       else [take (rm_len meta) buf])"
  using reader_step_queues [of meta buf tx queue] assms by (simp add: concat_chunks)

definition sample_meta :: "nat \<Rightarrow> nat \<Rightarrow> unit RecvMeta" where
  "sample_meta n stride = RecvMeta_default\<lparr>rm_len := n, rm_stride := stride\<rparr>"

theorem reader_segments_witness:
  "reader_step (\<lambda>_ _. True) (Ok (1, [1, 2, 3, 4, 5, 0, 0], sample_meta 5 2)) [] =
     (Reading, map (segment_packet (reader_target (sample_meta 5 2))) [[1, 2], [3, 4], [5]])"
  using reader_segments [of "sample_meta 5 2" "[1, 2, 3, 4, 5, 0, 0]" "\<lambda>_ _. True" "[]"]
  by (simp add: sample_meta_def chunks.simps)

section \<open>From a SOCKS5 request to a queued packet\<close>

text \<open>
  The target of the packet queued for a request: the requested address, but for a domain the
  address of the client.
\<close>

fun request_target :: "SocketAddr \<Rightarrow> SocksTargetAddr \<Rightarrow> TargetAddr" where
  "request_target client (SIp a) = TargetAddr_from a"
| "request_target client (SDomain d p) = TargetAddr_from client"

lemma reader_target_request:
  "reader_target ((RecvMeta_from tm)\<lparr>rm_len := n, rm_destination := Some (convert_target_addr a)\<rparr>) =
     request_target (q_addr tm) a"
proof (cases a)
  case (SIp sa)
  then show ?thesis by (cases sa) (simp_all add: reader_target_def)
qed (simp add: reader_target_def RecvMeta_from_def)

lemma reader_turn_request:
  assumes "socks_addr_ok a" and "q_len tm = length (socks_header f a @ payload)"
    and "length (socks_header f a @ payload @ pad) = length buf" and "\<And>qu p. tx qu p"
  shows "reader_turn socks_poll_recv tx [TryOk 1 [socks_header f a @ payload @ pad] [tm]] (s, buf, queue) =
    (Reading, s\<lparr>sk_source_addr := q_addr tm\<rparr>, payload @ drop (length payload) buf,
     queue @ map (segment_packet (request_target (q_addr tm) a))
       (if 0 < q_stride tm \<and> q_stride tm < length payload then chunks (q_stride tm) payload else [payload]))"
proof -
  let ?m = "(RecvMeta_from tm)\<lparr>rm_len := length payload, rm_destination := Some (convert_target_addr a)\<rparr>"
  let ?b = "payload @ drop (length payload) buf"
  have "rm_stride ?m = q_stride tm" by (simp add: RecvMeta_from_def)
  then have "reader_step tx (Ok (1, ?b, ?m)) queue =
      (Reading, queue @ map (segment_packet (request_target (q_addr tm) a))
        (if 0 < q_stride tm \<and> q_stride tm < length payload then chunks (q_stride tm) payload else [payload]))"
    using reader_step_queues [of ?m ?b tx queue] assms(4) by (simp add: reader_target_request)
  with socks_poll_recv_one [OF assms(1-3), of s RecvMeta_default] show ?thesis
    by (simp add: reader_turn_def del: socks_poll_recv.simps)
qed

text \<open>
  C36. A SOCKS5 request reaches the queue. When a request datagram arrives on its own, exactly one packet
  is queued, with the request's payload and for the requested IP address, and the client's address is
  kept for replies. For a requested domain the packet is for the client's own address instead: the
  domain is lost. An empty datagram ends the task with the queue unchanged.
\<close>

theorem socks_request_queued:
  assumes "socks_addr_ok a" and "q_len tm = length (socks_header f a @ payload)" and "q_stride tm = q_len tm"
    and "length (socks_header f a @ payload @ pad) = length buf" and "\<And>qu p. tx qu p" and "q_len tm0 = 0"
  shows "reader_turn socks_poll_recv tx [TryOk 1 [socks_header f a @ payload @ pad] [tm]] (s, buf, queue) =
      (Reading, s\<lparr>sk_source_addr := q_addr tm\<rparr>, payload @ drop (length payload) buf,
       queue @ [segment_packet (request_target (q_addr tm) a) payload]) \<and>
    reader_turn socks_poll_recv tx [TryOk 1 [tb] [tm0]] (s, buf, queue) = (ReaderStopped, s, buf, queue)"
proof -
  have "reader_turn socks_poll_recv tx [TryOk 1 [tb] [tm0]] (s, buf, queue) = (ReaderStopped, s, buf, queue)"
    using assms(6) by (simp add: reader_turn_def reader_step_def)
  with reader_turn_request [OF assms(1,2,4,5), where s = s and queue = queue] assms(2,3) show ?thesis by simp
qed

theorem socks_request_queued_witness:
  "reader_turn socks_poll_recv (\<lambda>_ _. True)
      [TryOk 1 [socks_header 0 (SDomain ''ab'' 53) @ [9, 9] @ [0]] [sample_qmeta 11]] (Socks5UdpSocket_new, replicate 12 0, []) =
    (Reading, Socks5UdpSocket_new\<lparr>sk_source_addr := SockV4 (Ipv4Addr 127 0 0 1) 4000\<rparr>, [9, 9] @ replicate 10 0,
     [segment_packet (TIPv4 (Ipv4Addr 127 0 0 1) 4000) [9, 9]])"
proof -
  have ok: "socks_addr_ok (SDomain ''ab'' 53)"
    by code_simp
  have len: "length (socks_header 0 (SDomain ''ab'' 53) @ [9, 9]) = 11"
    by (simp add: socks_header_def as_bytes_def u16_to_be_bytes_def)
  show ?thesis
    using socks_request_queued [OF ok, of "sample_qmeta 11" 0 "[9, 9]" "[0]" "replicate 12 0" "\<lambda>_ _. True"
        "sample_qmeta 0" Socks5UdpSocket_new "[]"] len
    by (simp add: sample_qmeta_def)
qed

lemma chunks_two:
  assumes "length (xs :: 'a list) = n" and "ys \<noteq> []" and "length ys \<le> n"
  shows "chunks n (xs @ ys) = [xs, ys]"
proof -
  have "0 < n" using assms(2,3) by (cases ys) auto
  then show ?thesis
    using assms chunks_step [of "xs @ ys" n] chunks_step [of ys n] by simp
qed

text \<open>
  C37. Coalesced requests are garbled. When the system hands over two requests of one client and of the
  same size in one receive call, only the first header is removed and the rest is cut at the original
  segment size. Two packets are queued, both for the target of the first request: the first carries
  the header of the second request after its own payload, the second the payload of the second request.
\<close>

theorem coalesced_requests_garbled:
  assumes "socks_addr_ok a" and "h1 = socks_header f a" and "length h2 = length h1"
    and "length p2 = length p1" and "p2 \<noteq> []"
    and "q_len tm = 2 * (length h1 + length p1)" and "q_stride tm = length h1 + length p1"
    and "length (h1 @ p1 @ h2 @ p2 @ pad) = length buf" and "\<And>qu p. tx qu p"
  shows "snd (snd (snd (reader_turn socks_poll_recv tx [TryOk 1 [h1 @ p1 @ h2 @ p2 @ pad] [tm]] (s, buf, queue)))) =
      queue @ map (segment_packet (request_target (q_addr tm) a)) [p1 @ h2, p2]"
proof -
  have "chunks (q_stride tm) (p1 @ h2 @ p2) = [p1 @ h2, p2]"
    using chunks_two [of "p1 @ h2" "q_stride tm" p2] assms(3-5,7) by simp
  moreover have "q_stride tm < length (p1 @ h2 @ p2)" and "0 < q_stride tm"
    using assms(2-5,7) by (auto simp: socks_header_def)
  ultimately show ?thesis
    using reader_turn_request [where a = a and tm = tm and f = f and payload = "p1 @ h2 @ p2" and pad = pad
        and buf = buf and tx = tx and s = s and queue = queue] assms by simp
qed

theorem coalesced_requests_garbled_witness:
  "snd (snd (snd (reader_turn socks_poll_recv (\<lambda>_ _. True)
      [TryOk 1 [socks_header 0 (SIp (SockV4 (Ipv4Addr 1 1 1 1) 53)) @ [7] @ socks_header 0 (SIp (SockV4 (Ipv4Addr 8 8 8 8) 53)) @ [9]]
        [(sample_qmeta 22)\<lparr>q_stride := 11\<rparr>]] (Socks5UdpSocket_new, replicate 22 0, [])))) =
    map (segment_packet (TIPv4 (Ipv4Addr 1 1 1 1) 53)) [[7, 0, 0, 0, 1, 8, 8, 8, 8, 0, 53], [9]]"
  using coalesced_requests_garbled [of "SIp (SockV4 (Ipv4Addr 1 1 1 1) 53)" _ 0
      "socks_header 0 (SIp (SockV4 (Ipv4Addr 8 8 8 8) 53))" "[9]" "[7]" "(sample_qmeta 22)\<lparr>q_stride := 11\<rparr>" "[]"
      "replicate 22 0" "\<lambda>_ _. True" Socks5UdpSocket_new "[]"]
  by (simp add: sample_qmeta_def socks_header_def u16_to_be_bytes_def)

section \<open>Associations\<close>

text \<open>
  Everything that changes the shared state of a client: opening an association, a datagram or a
  heartbeat in the polling task, a send or a garbage collection of a sender task, and the end of an
  association. An association is opened while the session cache has room for it.
\<close>

inductive client_step ::
  "('u \<Rightarrow> nat) \<Rightarrow> ('u \<Rightarrow> u16 \<rightharpoonup> nat) \<Rightarrow> bool \<Rightarrow> 'o outer_ops \<Rightarrow> 'i inner_ops \<Rightarrow> 'u session_ops \<Rightarrow> channel \<Rightarrow>
     ('o, 'i, 'u) TuicOutbound \<Rightarrow> ('o, 'i, 'u) TuicOutbound \<Rightarrow> bool"
  for capu conu oc co ci cu chan where
  open_assoc: "card (insert (ob_udp_assoc_counter ob) (dom (conu (ob_udp_session ob)))) \<le> capu (ob_udp_session ob) \<Longrightarrow>
     client_step capu conu oc co ci cu chan ob (snd (handle_udp_open co cu ob))"
| datagram_in: "client_step capu conu oc co ci cu chan ob (snd (handle_datagram_in oc co ci cu chan now data ob))"
| heartbeat: "client_step capu conu oc co ci cu chan ob (ob\<lparr>ob_connection := snd (send_heartbeat q (ob_connection ob))\<rparr>)"
| send: "i < length (ob_streams ob) \<Longrightarrow> client_step capu conu oc co ci cu chan ob (snd (stream_send oc q i packet ob))"
| gc: "i < length (ob_streams ob) \<Longrightarrow>
     client_step capu conu oc co ci cu chan ob (snd (on_stream i (\<lambda>s. ((), collect_garbage co now_ms s)) ob))"
| close_assoc: "client_step capu conu oc co ci cu chan ob (handle_udp_close q assoc_id ob)"

text \<open>Every entry of the session cache refers to a stream with the number it is listed under.\<close>

definition session_ok :: "('u \<Rightarrow> u16 \<rightharpoonup> nat) \<Rightarrow> ('o, 'i, 'u) TuicOutbound \<Rightarrow> bool" where
  "session_ok conu ob \<longleftrightarrow> (\<forall>a i. conu (ob_udp_session ob) a = Some i \<longrightarrow>
     i < length (ob_streams ob) \<and> us_assoc_id (ob_streams ob ! i) = a)"

lemma nth_update_same:
  "f s = f (xs ! i) \<Longrightarrow> f (xs[i := s] ! j) = f (xs ! j)"
  by (cases "i < length xs"; cases "i = j") (simp_all add: list_update_beyond)

lemma session_ok_update:
  assumes "session_ok conu ob" and "conu c = conu (ob_udp_session ob)" and "us_assoc_id s = us_assoc_id (ob_streams ob ! i)"
  shows "session_ok conu (ob\<lparr>ob_udp_session := c, ob_streams := (ob_streams ob)[i := s]\<rparr>)"
    and "session_ok conu (ob\<lparr>ob_streams := (ob_streams ob)[i := s]\<rparr>)"
    and "session_ok conu (ob\<lparr>ob_udp_session := c\<rparr>)"
    and "session_ok conu (ob\<lparr>ob_streams := (ob_streams ob)[i := s], ob_connection := l\<rparr>)"
  using assms by (auto simp: session_ok_def nth_update_same)

lemma deliver_packet_frame: "us_assoc_id (snd (deliver_packet co ci chan now a p ft fi payload target s)) = us_assoc_id s"
  by (auto simp: deliver_packet_def process_fragment_def receive_packet_def Let_def split: prod.split option.split)

lemma handle_packet_cmd_session:
  assumes "moka_ok cu capu conu" and "session_ok conu ob"
  shows "session_ok conu (snd (handle_packet_cmd oc co ci cu chan now a p ft fi sz buf ob))"
proof (cases "\<exists>addr rest. addr_ok addr \<and> buf = addr_wire addr @ rest")
  case True
  then obtain addr rest where "addr_ok addr" and buf: "buf = addr_wire addr @ rest" by blast
  obtain c where c: "cache_get cu a (ob_udp_session ob) = (conu (ob_udp_session ob) a, c)" "conu c = conu (ob_udp_session ob)"
    using moka_get [OF assms(1), of a "ob_udp_session ob"] by metis
  show ?thesis
    unfolding buf handle_packet_cmd_wire [OF \<open>addr_ok addr\<close>]
    using assms(2) session_ok_update(1,3) [OF assms(2) c(2)]
    by (auto simp: c(1) on_stream_def split_beta Let_def deliver_packet_frame split: option.split)
qed (simp add: handle_packet_cmd_other assms(2))

lemma handle_datagram_in_session:
  assumes "moka_ok cu capu conu" and "session_ok conu ob"
  shows "session_ok conu (snd (handle_datagram_in oc co ci cu chan now data ob))"
proof (cases rule: decode_head_cases [where data = data and c = "''datagram''"])
  case (1 cmd rest)
  with handle_packet_cmd_session [OF assms] assms(2) show ?thesis
    by (subst handle_datagram_in_message [OF 1(2,1)]) (simp split: Command.split)
qed (simp add: handle_datagram_in_error assms(2))

lemma client_step_session:
  assumes "client_step capu conu oc co ci cu chan ob ob'" and "moka_ok cu capu conu" and "session_ok conu ob"
  shows "session_ok conu ob'"
  using assms(1)
proof cases
  case open_assoc
  with moka_insert(2) [OF assms(2)] assms(3) show ?thesis
    by (auto simp: session_ok_def handle_udp_open_def Let_def UdpStream_new_def nth_append less_Suc_eq)
next
  case (datagram_in now data)
  with handle_datagram_in_session [OF assms(2,3)] show ?thesis by simp
next
  case (send i q packet)
  with assms(3) show ?thesis
    by (auto simp: stream_send_def split_beta Let_def send_packet_frame intro!: session_ok_update(4))
next
  case (gc i now_ms)
  with assms(3) show ?thesis
    by (auto simp: on_stream_def collect_garbage_def intro!: session_ok_update(2))
qed (use assms(3) in \<open>auto simp: session_ok_def handle_udp_close_def\<close>)



text \<open>A sequence of associations, opened one after the other.\<close>

fun open_many :: "'o outer_ops \<Rightarrow> 'u session_ops \<Rightarrow> nat \<Rightarrow> ('o, 'i, 'u) TuicOutbound \<Rightarrow> (u16 \<times> nat) list \<times> ('o, 'i, 'u) TuicOutbound" where
  "open_many co cu 0 ob = ([], ob)"
| "open_many co cu (Suc n) ob =
     (let (xs, ob1) = open_many co cu n ob; (x, ob2) = handle_udp_open co cu ob1 in (xs @ [x], ob2))"

lemma open_many_numbers:
  assumes "ob_udp_assoc_counter ob = 0"
  shows "map fst (fst (open_many co cu n ob)) = map of_nat [0..<n]"
    and "ob_udp_assoc_counter (snd (open_many co cu n ob)) = of_nat n"
  by (induction n) (simp_all add: assms handle_udp_open_def split_beta Let_def)

lemma distinct_u16_upt: "distinct (map (of_nat :: nat \<Rightarrow> u16) [0..<n]) \<longleftrightarrow> n \<le> 65536"
proof
  assume d: "distinct (map (of_nat :: nat \<Rightarrow> u16) [0..<n])"
  show "n \<le> 65536"
  proof (rule ccontr)
    assume "\<not> n \<le> 65536"
    then have "map (of_nat :: nat \<Rightarrow> u16) [0..<n] ! 0 \<noteq> map of_nat [0..<n] ! 65536"
      by (subst nth_eq_iff_index_eq [OF d]) simp_all
    with \<open>\<not> n \<le> 65536\<close> show False by simp
  qed
next
  assume "n \<le> 65536"
  then have "inj_on (of_nat :: nat \<Rightarrow> u16) (set [0..<n])"
    by (intro inj_on_inverseI [of _ unat]) (simp add: unat_of_nat_u16)
  then show "distinct (map (of_nat :: nat \<Rightarrow> u16) [0..<n])"
    by (simp add: distinct_map)
qed

lemma open_many_sessions:
  assumes "moka_ok cu capu conu" and "conu (ob_udp_session ob) = Map.empty" and "capu (ob_udp_session ob) = 65535"
    and "ob_udp_assoc_counter ob = 0" and "ob_streams ob = []" and "n \<le> 65535"
  shows "conu (ob_udp_session (snd (open_many co cu n ob))) = (\<lambda>a. if unat a < n then Some (unat a) else None) \<and>
    capu (ob_udp_session (snd (open_many co cu n ob))) = 65535 \<and> length (ob_streams (snd (open_many co cu n ob))) = n"
  using assms(6)
proof (induction n)
  case 0
  then show ?case using assms(2,3,5) by auto
next
  case (Suc n)
  let ?ob = "snd (open_many co cu n ob)" and ?con = "\<lambda>a :: u16. if unat a < n then Some (unat a) else None"
  have IH: "conu (ob_udp_session ?ob) = ?con" "capu (ob_udp_session ?ob) = 65535" "length (ob_streams ?ob) = n"
    using Suc by simp_all
  have n: "unat (of_nat n :: u16) = n" using Suc.prems by (simp add: unat_of_nat_u16)
  have eq: "a = of_nat n \<longleftrightarrow> unat a = n" for a :: u16
    using n by (metis word_unat_eq_iff)
  have "dom ?con \<subseteq> of_nat ` {0..<n}"
  proof
    fix a assume "a \<in> dom ?con"
    then show "a \<in> of_nat ` {0..<n}"
      by (intro image_eqI [of _ _ "unat a"]) (auto split: if_splits)
  qed
  then have "insert (of_nat n) (dom ?con) \<subseteq> of_nat ` {0..<Suc n}"
    by auto
  then have "card (insert (of_nat n) (dom ?con)) \<le> card ((of_nat :: nat \<Rightarrow> u16) ` {0..<Suc n})"
    by (rule card_mono [rotated]) simp
  also have "\<dots> \<le> Suc n"
    using card_image_le [of "{0..<Suc n}" "of_nat :: nat \<Rightarrow> u16"] by simp
  finally have room: "card (insert (of_nat n) (dom ?con)) \<le> 65535" using Suc.prems by simp
  have "conu (cache_insert cu (of_nat n) n (ob_udp_session ?ob)) = ?con(of_nat n \<mapsto> n)"
    using moka_insert(2) [OF assms(1), of "of_nat n" "ob_udp_session ?ob" n] room IH by simp
  also have "\<dots> = (\<lambda>a. if unat a < Suc n then Some (unat a) else None)"
    by (auto simp: eq fun_eq_iff)
  finally show ?case
    using IH moka_insert(1) [OF assms(1)] open_many_numbers(2) [OF assms(4), of co cu n]
    by (simp add: handle_udp_open_def split_beta Let_def)
qed

text \<open>
  C39. Association numbers. A new client numbers its associations 0, 1, 2, ... and all numbers are different
  as long as at most 65536 associations have been opened; the next one gets a number that was used
  before. While there are at most 65535 of them, which is the capacity of the session cache, each
  number leads to its own stream and no other number leads anywhere.
\<close>

theorem association_numbers:
  assumes "moka_ok cu capu conu" and "TuicOutbound_new q cu setup opts = Ok ob"
  shows "map fst (fst (open_many co cu n ob)) = map of_nat [0..<n] \<and>
    (distinct (map fst (fst (open_many co cu n ob))) \<longleftrightarrow> n \<le> 65536) \<and>
    (n \<le> 65535 \<longrightarrow> conu (ob_udp_session (snd (open_many co cu n ob))) = (\<lambda>a. if unat a < n then Some (unat a) else None) \<and>
       length (ob_streams (snd (open_many co cu n ob))) = n)"
proof -
  have "ob_udp_assoc_counter ob = 0" "ob_udp_session ob = cache_new cu 65535" "ob_streams ob = []"
    using assms(2) by (auto simp: TuicOutbound_new_def split: result.splits prod.splits)
  then show ?thesis
    using open_many_numbers(1) [of ob co cu n] distinct_u16_upt [of n] open_many_sessions [OF assms(1), of ob n co]
      moka_new [OF assms(1)] by simp
qed

theorem association_numbers_witness:
  "\<exists>ob :: ((pkt_key, nat) alist_state, (u8, bytes) alist_state, (u16, nat) alist_state) TuicOutbound.
     TuicOutbound_new (sample_quinn 1200) alist_cache [] (ob_opts sample_outbound) = Ok ob \<and>
     map fst (fst (open_many alist_cache alist_cache 3 ob)) = [0, 1, 2]"
proof -
  have "oo_auth (ob_opts sample_outbound) = (replicate 16 0, [1, 2, 3])"
    by (simp add: sample_outbound_def)
  then obtain ob :: "((pkt_key, nat) alist_state, (u8, bytes) alist_state, (u16, nat) alist_state) TuicOutbound"
    where new: "TuicOutbound_new (sample_quinn 1200) alist_cache [] (ob_opts sample_outbound) = Ok ob"
    by (auto simp: TuicOutbound_new_def send_auth_log [where token = "replicate 32 7"] sample_quinn_def)
  have "[0..<3] = [0, 1, 2]" by (simp add: upt_rec)
  with association_numbers [OF alist_cache_ok new, of alist_cache 3] new show ?thesis
    by (intro exI [of _ ob]) simp
qed

end
