(* ===== verification/Udp_Session.thy ===== *)
theory Udp_Session
  imports Tuic_Association
begin

text \<open>
  The TUIC client with all its tasks, \<^verbatim>\<open>handle_udp\<close> of \<^verbatim>\<open>crates/wind-tuic/src/outbound.rs\<close> as a
  whole: the polling task, and for every association a reader, a sender and the handler that waits
  for the cancellation. They share the connection, the streams and the session cache. The tasks run
  in any order, one turn at a time, which the step relation \<open>system_step\<close> says. A queue that is
  full makes its sender wait; as waiting is not a step, the bound of the queues only removes
  orders and is left out.
\<close>

section \<open>The system\<close>

text \<open>
  The tasks of one association. The queue between reader and sender is kept as all packets put into
  it and the number of those taken out; so is the channel of received packets, whose contents are
  in the stream. \<open>se_local\<close> is the local socket as far as the sender has used it.
\<close>

record ('s, 'k) udp_session =
  se_assoc_id :: u16
  se_socket :: 's
  se_buf :: bytes
  se_queue :: "UdpPacket list"
  se_taken :: nat
  se_received :: nat
  se_local :: 'k
  se_reader :: reader_status
  se_sender :: sender_status
  se_handling :: bool

record ('o, 'i, 'u, 's, 'k) client_system =
  cs_poll :: "('o, 'i, 'u) poll_task"
  cs_sessions :: "('s, 'k) udp_session list"
  cs_cancelled :: bool

abbreviation cs_outbound :: "('o, 'i, 'u, 's, 'k) client_system \<Rightarrow> ('o, 'i, 'u) TuicOutbound" where
  "cs_outbound st \<equiv> pt_outbound (cs_poll st)"

definition set_outbound :: "('o, 'i, 'u) TuicOutbound \<Rightarrow> ('o, 'i, 'u, 's, 'k) client_system \<Rightarrow> ('o, 'i, 'u, 's, 'k) client_system" where
  "set_outbound ob st = st\<lparr>cs_poll := (cs_poll st)\<lparr>pt_outbound := ob\<rparr>\<rparr>"

definition set_session :: "nat \<Rightarrow> ('s, 'k) udp_session \<Rightarrow> ('o, 'i, 'u, 's, 'k) client_system \<Rightarrow> ('o, 'i, 'u, 's, 'k) client_system" where
  "set_session i se st = st\<lparr>cs_sessions := (cs_sessions st)[i := se]\<rparr>"

definition system_start :: "('o, 'i, 'u) TuicOutbound \<Rightarrow> ('o, 'i, 'u, 's, 'k) client_system" where
  "system_start ob = \<lparr>cs_poll = poll_start ob, cs_sessions = [], cs_cancelled = False\<rparr>"

text \<open>\<^verbatim>\<open>handle_udp\<close> up to its loop: the association is opened and its two tasks are started.\<close>

definition handle_udp ::
  "'o outer_ops \<Rightarrow> 'u session_ops \<Rightarrow> 's \<Rightarrow> 'k \<Rightarrow> ('o, 'i, 'u, 's, 'k) client_system \<Rightarrow> ('o, 'i, 'u, 's, 'k) client_system" where
  "handle_udp co cu socket k st =
     (let ((assoc_id, a), ob) = handle_udp_open co cu (cs_outbound st)
      in set_outbound ob st\<lparr>cs_sessions := cs_sessions st @
           [\<lparr>se_assoc_id = assoc_id, se_socket = socket, se_buf = reader_buffer, se_queue = [], se_taken = 0, se_received = 0,
             se_local = k, se_reader = Reading, se_sender = Sending, se_handling = True\<rparr>]\<rparr>)"

text \<open>
  The loop of the handler, which only logs until the cancellation, and what follows it. The entry of
  the session cache stays.
\<close>

definition handle_udp_end :: "quinn \<Rightarrow> nat \<Rightarrow> ('o, 'i, 'u, 's, 'k) client_system \<Rightarrow> ('o, 'i, 'u, 's, 'k) client_system" where
  "handle_udp_end q i st =
     (let se = cs_sessions st ! i in
      if cs_cancelled st \<and> se_handling se
      then set_session i (se\<lparr>se_handling := False\<rparr>) (set_outbound (handle_udp_close q (se_assoc_id se) (cs_outbound st)) st)
      else st)"

text \<open>A turn of the reader. The queue refuses a packet when the sender, its receiver, is gone.\<close>

definition reader_task ::
  "('e attempt list \<Rightarrow> 's \<Rightarrow> bytes list \<Rightarrow> 'e RecvMeta list \<Rightarrow> ('s, 'e) poll_result option) \<Rightarrow> 'e attempt list \<Rightarrow> nat \<Rightarrow>
     ('o, 'i, 'u, 's, 'k) client_system \<Rightarrow> ('o, 'i, 'u, 's, 'k) client_system" where
  "reader_task poll_recv as i st =
     (let se = cs_sessions st ! i;
          (status, socket, buf, queue) =
            reader_turn poll_recv (\<lambda>_ _. se_sender se = Sending) as (se_socket se, se_buf se, se_queue se)
      in set_session i (se\<lparr>se_socket := socket, se_buf := buf, se_queue := queue, se_reader := status\<rparr>) st)"

text \<open>A turn of the sender: a packet is taken from the queue or from the channel before it is handled.\<close>

definition sender_task ::
  "bool \<Rightarrow> quinn \<Rightarrow> 'o outer_ops \<Rightarrow> (bytes \<Rightarrow> SocketAddr \<Rightarrow> 'k \<Rightarrow> (nat, string) result poll \<times> 'k) \<Rightarrow> sender_event \<Rightarrow> nat \<Rightarrow>
     ('o, 'i, 'u, 's, 'k) client_system \<Rightarrow> ('o, 'i, 'u, 's, 'k) client_system" where
  "sender_task oc q co socket_send ev i st =
     (let se = cs_sessions st ! i;
          se = (case ev of
              PacketQueued (Ok _) \<Rightarrow> se\<lparr>se_taken := Suc (se_taken se)\<rparr>
            | PacketReceived (Ok _) \<Rightarrow> se\<lparr>se_received := Suc (se_received se)\<rparr>
            | _ \<Rightarrow> se);
          (status, ob, k) = sender_step oc q co socket_send i ev (cs_outbound st, se_local se)
      in set_session i (se\<lparr>se_sender := status, se_local := k\<rparr>) (set_outbound ob st))"

text \<open>
  What the sender can see next: a packet in the queue, the end of the queue when it is empty and the
  reader is gone, a received packet, a tick, the cancellation.
\<close>

fun sender_sees :: "('o, 'i, 'u, 's, 'k) client_system \<Rightarrow> nat \<Rightarrow> sender_event \<Rightarrow> bool" where
  "sender_sees st i (PacketQueued (Ok packet)) \<longleftrightarrow>
     (let se = cs_sessions st ! i in se_taken se < length (se_queue se) \<and> packet = se_queue se ! se_taken se)"
| "sender_sees st i (PacketQueued (Err e)) \<longleftrightarrow>
     (let se = cs_sessions st ! i in se_taken se = length (se_queue se) \<and> se_reader se \<noteq> Reading)"
| "sender_sees st i (PacketReceived (Ok packet)) \<longleftrightarrow>
     (let n = se_received (cs_sessions st ! i); tx = us_receive_tx (ob_streams (cs_outbound st) ! i) in n < length tx \<and> packet = tx ! n)"
| "sender_sees st i SenderCancelled \<longleftrightarrow> cs_cancelled st"
| "sender_sees st i (GcTick now_ms) \<longleftrightarrow> True"
| "sender_sees st i _ \<longleftrightarrow> False"

text \<open>One turn of one task, in a client whose connection answers as one of \<open>conn\<close> at any time.\<close>

inductive system_step ::
  "(quinn \<Rightarrow> bool) \<Rightarrow> bool \<Rightarrow> 'o outer_ops \<Rightarrow> 'i inner_ops \<Rightarrow> 'u session_ops \<Rightarrow> channel \<Rightarrow>
     ('e attempt list \<Rightarrow> 's \<Rightarrow> bytes list \<Rightarrow> 'e RecvMeta list \<Rightarrow> ('s, 'e) poll_result option) \<Rightarrow>
     (bytes \<Rightarrow> SocketAddr \<Rightarrow> 'k \<Rightarrow> (nat, string) result poll \<times> 'k) \<Rightarrow> 'k \<Rightarrow>
     ('o, 'i, 'u, 's, 'k) client_system \<Rightarrow> ('o, 'i, 'u, 's, 'k) client_system \<Rightarrow> bool"
  for conn oc co ci cu chan poll_recv socket_send k where
  udp_request: "system_step conn oc co ci cu chan poll_recv socket_send k st (handle_udp co cu socket k st)"
| tcp_request: "conn q \<Longrightarrow>
    system_step conn oc co ci cu chan poll_recv socket_send k st (set_outbound (snd (handle_tcp q target turns (cs_outbound st))) st)"
| reader: "i < length (cs_sessions st) \<Longrightarrow> se_reader (cs_sessions st ! i) = Reading \<Longrightarrow>
    system_step conn oc co ci cu chan poll_recv socket_send k st (reader_task poll_recv as i st)"
| reader_cancelled: "i < length (cs_sessions st) \<Longrightarrow> se_reader (cs_sessions st ! i) = Reading \<Longrightarrow> cs_cancelled st \<Longrightarrow>
    system_step conn oc co ci cu chan poll_recv socket_send k st (set_session i ((cs_sessions st ! i)\<lparr>se_reader := ReaderStopped\<rparr>) st)"
| sender: "i < length (cs_sessions st) \<Longrightarrow> se_sender (cs_sessions st ! i) = Sending \<Longrightarrow> sender_sees st i ev \<Longrightarrow> conn q \<Longrightarrow>
    system_step conn oc co ci cu chan poll_recv socket_send k st (sender_task oc q co socket_send ev i st)"
| poll: "conn q \<Longrightarrow> (ev = PollCancelled \<longrightarrow> cs_cancelled st) \<Longrightarrow>
    system_step conn oc co ci cu chan poll_recv socket_send k st (st\<lparr>cs_poll := poll_step oc q co ci cu chan ev (cs_poll st)\<rparr>)"
| cancel: "system_step conn oc co ci cu chan poll_recv socket_send k st (st\<lparr>cs_cancelled := True\<rparr>)"
| finish: "i < length (cs_sessions st) \<Longrightarrow> conn q \<Longrightarrow>
    system_step conn oc co ci cu chan poll_recv socket_send k st (handle_udp_end q i st)"
| dropped: "i < length (cs_sessions st) \<Longrightarrow>
    system_step conn oc co ci cu chan poll_recv socket_send k st (set_session i ((cs_sessions st ! i)\<lparr>se_handling := False\<rparr>) st)"

section \<open>Datagrams on the connection\<close>

text \<open>The packet datagrams of an association among the operations on a connection, in order.\<close>

fun datagrams_of :: "quic_op \<Rightarrow> bytes list" where
  "datagrams_of (SendDatagram d) = [d]"
| "datagrams_of _ = []"

definition for_assoc :: "u16 \<Rightarrow> bytes \<Rightarrow> bool" where
  "for_assoc a d \<longleftrightarrow> take 4 d = [VER, CmdType_into TyPacket] @ u16_to_be_bytes a"

definition sent_for :: "u16 \<Rightarrow> log \<Rightarrow> bytes list" where
  "sent_for a l = filter (for_assoc a) (concat (map datagrams_of l))"

lemma sent_for_append [simp]: "sent_for a (l @ l') = sent_for a l @ sent_for a l'"
  by (simp add: sent_for_def)

lemma sent_for_datagrams: "sent_for a (map SendDatagram ds) = filter (for_assoc a) ds"
  by (induction ds) (simp_all add: sent_for_def)

lemma for_assoc_fragment [simp]: "for_assoc b (fragment_datagram a p n t cs k) \<longleftrightarrow> a = b"
  by (auto simp: for_assoc_def fragment_datagram_def packet_datagram_def message_def)

lemma sent_for_packet: "sent_for b (map SendDatagram (packet_datagrams L a p packet)) = (if a = b then packet_datagrams L a p packet else [])"
  unfolding sent_for_datagrams by (auto simp: packet_datagrams_def Let_def filter_map comp_def)

text \<open>Operations that send no packet.\<close>

definition quiet :: "(log, 'a, 'e) comp \<Rightarrow> bool" where
  "quiet m \<longleftrightarrow> (\<forall>a l. sent_for a (snd (m l)) = sent_for a l)"

lemma quiet_perform: "\<forall>d \<in> set (datagrams_of x). length d < 4 \<Longrightarrow> quiet (perform q x)"
  by (cases x) (auto simp: quiet_def perform_def sent_for_def for_assoc_def u16_to_be_bytes_def split: option.split dest: arg_cong [of _ _ length])

lemma quiet_pure: "quiet (pure x)" "quiet (fail e)"
  by (simp_all add: quiet_def pure_def fail_def)

lemma quiet_buffered: "quiet (buffered rb)"
  by (auto simp: quiet_def buffered_def split: prod.split result.split)

lemma quiet_and_then: "quiet m \<Longrightarrow> (\<And>x. quiet (f x)) \<Longrightarrow> quiet (and_then m f)"
  by (auto simp: quiet_def and_then_def split: prod.split result.split) (metis snd_conv)+

lemmas quiet_intros = quiet_perform quiet_pure quiet_buffered quiet_and_then

lemma quiet_operations: "quiet (open_tcp q t turns)" "quiet (drop_udp q a)" "quiet (send_heartbeat q)"
proof -
  show "quiet (open_tcp q t turns)" "quiet (drop_udp q a)"
    unfolding open_tcp_def drop_udp_def by (auto intro!: quiet_intros split: option.split)
  have "send_heartbeat q = and_then (perform q (SendDatagram [VER, CmdType_into TyHeartbeat])) (\<lambda>_. pure ())"
    by (rule ext) (simp add: send_heartbeat_def buffered_def and_then_def HeaderCodec_encode_def Header_new_def)
  then show "quiet (send_heartbeat q)"
    by (auto intro!: quiet_intros)
qed

section \<open>The packets of a queue\<close>

text \<open>
  What the packets of a queue look like on the wire when they are sent from the packet number \<open>p\<close> on;
  a packet of more than 255 pieces is refused and uses no number.
\<close>

definition sendable :: "nat \<Rightarrow> UdpPacket \<Rightarrow> bool" where
  "sendable L packet \<longleftrightarrow> length (packet_pieces L packet) \<le> 255"

fun queue_datagrams :: "nat \<Rightarrow> u16 \<Rightarrow> u16 \<Rightarrow> UdpPacket list \<Rightarrow> bytes list" where
  "queue_datagrams L a p [] = []"
| "queue_datagrams L a p (packet # packets) =
     (if sendable L packet then packet_datagrams L a p packet @ queue_datagrams L a (p + 1) packets
      else queue_datagrams L a p packets)"

definition queue_count :: "nat \<Rightarrow> UdpPacket list \<Rightarrow> u16" where
  "queue_count L packets = of_nat (length (filter (sendable L) packets))"

lemma queue_count_snoc [simp]: "queue_count L [] = 0"
  "queue_count L (packets @ [packet]) = queue_count L packets + (if sendable L packet then 1 else 0)"
  by (simp_all add: queue_count_def)

lemma queue_datagrams_snoc:
  "queue_datagrams L a p (packets @ [packet]) = queue_datagrams L a p packets @
     (if sendable L packet then packet_datagrams L a (p + queue_count L packets) packet else [])"
  by (induction packets arbitrary: p) (simp_all add: queue_count_def add.assoc)

text \<open>The reader queues packets for IP addresses only.\<close>

definition ip_packet :: "UdpPacket \<Rightarrow> bool" where
  "ip_packet packet \<longleftrightarrow> (case pk_target packet of TDomain _ _ \<Rightarrow> False | _ \<Rightarrow> True)"

lemma ip_packet_ok: "ip_packet packet \<Longrightarrow> target_ok (pk_target packet) \<and> target_addr_size (pk_target packet) \<le> 19"
  by (cases "pk_target packet") (simp_all add: ip_packet_def)

lemma segment_loop_appends:
  assumes "segment_loop tx t stride len buf idxs queue = Some queue'"
  shows "\<exists>new. queue' = queue @ new \<and> (\<forall>p \<in> set new. pk_target p = t)"
  using assms
proof (induction idxs arbitrary: queue)
  case (Cons i idxs)
  let ?p = "\<lparr>pk_source = None, pk_target = t, pk_payload = take (min (i * stride + stride) len - i * stride) (drop (i * stride) buf)\<rparr>"
  have "queue' = queue \<or> segment_loop tx t stride len buf idxs (queue @ [?p]) = Some queue'"
    using Cons.prems by (auto simp: queue_send_def Let_def split: if_splits)
  then show ?case
  proof
    assume "segment_loop tx t stride len buf idxs (queue @ [?p]) = Some queue'"
    from Cons.IH [OF this] obtain new where "queue' = queue @ [?p] @ new" "\<forall>p \<in> set new. pk_target p = t" by auto
    then show ?thesis by (intro exI [of _ "?p # new"]) simp
  qed simp
qed simp

lemma TargetAddr_from_ip: "(case TargetAddr_from a of TDomain _ _ \<Rightarrow> False | _ \<Rightarrow> True)"
  by (cases a) simp_all

lemma ip_packet_reader: "pk_target packet = reader_target meta \<Longrightarrow> ip_packet packet"
  using TargetAddr_from_ip by (simp add: ip_packet_def reader_target_def)

lemma reader_step_appends:
  assumes "reader_step tx received queue = (status, queue')"
  shows "\<exists>new. queue' = queue @ new \<and> (\<forall>p \<in> set new. ip_packet p)"
proof (cases received)
  case (Ok x)
  obtain n buf meta where x: "x = (n, buf, meta)" by (cases x)
  let ?p = "\<lparr>pk_source = None, pk_target = reader_target meta, pk_payload = take (rm_len meta) buf\<rparr>"
  consider "queue' = queue" | "queue' = queue @ [?p]"
    | idxs where "segment_loop tx (reader_target meta) (rm_stride meta) (rm_len meta) buf idxs queue = Some queue'"
    using assms unfolding Ok x reader_step_def
    by (simp add: Let_def queue_send_def split: if_splits option.splits)
  then show ?thesis
  proof cases
    case 2
    then show ?thesis by (simp add: ip_packet_reader)
  next
    case 3
    from segment_loop_appends [OF this] show ?thesis using ip_packet_reader by blast
  qed simp
qed (use assms in \<open>simp_all add: reader_step_def\<close>)

lemma reader_turn_appends:
  assumes "reader_turn poll_recv tx as (socket, buf, queue) = (status, socket', buf', queue')"
  shows "\<exists>new. queue' = queue @ new \<and> (\<forall>p \<in> set new. ip_packet p)"
  using assms
  by (auto simp: reader_turn_def split: option.splits poll.splits prod.splits dest!: reader_step_appends)

section \<open>What a task leaves alone\<close>

text \<open>A stream that only receives: its numbers stay, and its channel gets more packets.\<close>

definition stream_grows :: "('o, 'i) UdpStream \<Rightarrow> ('o, 'i) UdpStream \<Rightarrow> bool" where
  "stream_grows s s' \<longleftrightarrow> us_assoc_id s' = us_assoc_id s \<and> us_next_pkt_id s' = us_next_pkt_id s \<and>
     prefix (us_receive_tx s) (us_receive_tx s')"

lemma stream_grows_refl [simp]: "stream_grows s s"
  by (simp add: stream_grows_def)

lemma stream_grows_deliver: "stream_grows s (snd (deliver_packet co ci chan now a p ft fi payload target s))"
  by (auto simp: stream_grows_def deliver_packet_def process_fragment_def receive_packet_def Let_def split: prod.split option.split)

lemma stream_grows_update: "stream_grows (xs ! i) s \<Longrightarrow> stream_grows (xs ! j) (xs[i := s] ! j)"
  by (cases "i < length xs"; cases "i = j") (simp_all add: list_update_beyond)

text \<open>A client in which the streams may have received, and nothing was sent.\<close>

definition outbound_grows :: "('o, 'i, 'u) TuicOutbound \<Rightarrow> ('o, 'i, 'u) TuicOutbound \<Rightarrow> bool" where
  "outbound_grows ob ob' \<longleftrightarrow> ob_udp_assoc_counter ob' = ob_udp_assoc_counter ob \<and>
     length (ob_streams ob') = length (ob_streams ob) \<and>
     (\<forall>a. sent_for a (ob_connection ob') = sent_for a (ob_connection ob)) \<and>
     (\<forall>j. stream_grows (ob_streams ob ! j) (ob_streams ob' ! j))"

lemma outbound_grows_refl [simp]: "outbound_grows ob ob"
  by (simp add: outbound_grows_def)

lemma outbound_grows_connection:
  "quiet m \<Longrightarrow> outbound_grows ob (ob\<lparr>ob_connection := snd (m (ob_connection ob))\<rparr>)"
  by (simp add: outbound_grows_def quiet_def)

lemma outbound_grows_stream:
  "stream_grows (ob_streams ob ! i) (snd (f (ob_streams ob ! i))) \<Longrightarrow> outbound_grows ob (snd (on_stream i f (ob\<lparr>ob_udp_session := c\<rparr>)))"
  "stream_grows (ob_streams ob ! i) (snd (f (ob_streams ob ! i))) \<Longrightarrow> outbound_grows ob (snd (on_stream i f ob))"
  by (simp_all add: outbound_grows_def on_stream_def split_beta Let_def stream_grows_update)

lemma outbound_grows_packet: "outbound_grows ob (snd (handle_packet_cmd oc co ci cu chan now a p ft fi sz buf ob))"
proof (cases "\<exists>addr rest. addr_ok addr \<and> buf = addr_wire addr @ rest")
  case True
  then obtain addr rest where "addr_ok addr" and buf: "buf = addr_wire addr @ rest" by blast
  obtain r c where c: "cache_get cu a (ob_udp_session ob) = (r, c)" by fastforce
  have session: "outbound_grows ob (ob\<lparr>ob_udp_session := c\<rparr>)"
    by (simp add: outbound_grows_def)
  show ?thesis
    unfolding buf handle_packet_cmd_wire [OF \<open>addr_ok addr\<close>] c
    by (simp add: outbound_grows_stream(1) stream_grows_deliver session split: option.split)
qed (simp add: handle_packet_cmd_other)

lemma outbound_grows_datagram: "outbound_grows ob (snd (handle_datagram_in oc co ci cu chan now data ob))"
proof (cases rule: decode_head_cases [where data = data and c = "''datagram''"])
  case (1 cmd rest)
  then show ?thesis
    by (subst handle_datagram_in_message [OF 1(2,1)]) (simp add: outbound_grows_packet split: Command.split)
qed (simp add: handle_datagram_in_error)

lemma outbound_grows_poll: "outbound_grows (pt_outbound t) (pt_outbound (poll_step oc q co ci cu chan ev t))"
proof (cases "pt_status t")
  case Polling
  show ?thesis
  proof (cases ev)
    case HeartbeatTick
    then show ?thesis
      using Polling outbound_grows_connection [OF quiet_operations(3), of "pt_outbound t" q]
      by (simp add: poll_step_def on_tick_def split_beta Let_def split: option.split)
  next
    case (DatagramReceived now data)
    then show ?thesis
      using Polling by (simp add: poll_step_def split_beta Let_def outbound_grows_datagram)
  qed (use Polling in \<open>simp_all add: poll_step_def\<close>)
qed (simp add: poll_step_def)

lemma outbound_grows_tcp: "outbound_grows ob (snd (handle_tcp q t turns ob))"
proof -
  have "snd (handle_tcp q t turns ob) = ob\<lparr>ob_connection := snd (open_tcp q t turns (ob_connection ob))\<rparr>"
    by (simp add: handle_tcp_def and_then_def zoom_def pure_def split: prod.split result.split)
  with outbound_grows_connection [OF quiet_operations(1), of ob q t turns] show ?thesis by simp
qed

lemma outbound_grows_gc: "outbound_grows ob (snd (on_stream i (\<lambda>s. ((), collect_garbage co now_ms s)) ob))"
  by (rule outbound_grows_stream) (simp add: stream_grows_def collect_garbage_def)

lemma outbound_grows_close: "outbound_grows ob (handle_udp_close q a ob)"
  unfolding handle_udp_close_def by (rule outbound_grows_connection [OF quiet_operations(2)])

section \<open>The invariant\<close>

text \<open>
  How an association stands: the sender has taken some packets from the front of the queue, and the
  connection carries exactly their datagrams; it has taken some packets from the front of the channel,
  and the local socket has seen exactly their payloads.
\<close>

definition unspecified_v4 :: SocketAddr where
  "unspecified_v4 = SocketAddr_new (IpV4 ipv4_unspecified) 0"

definition assoc_ok ::
  "nat \<Rightarrow> (bytes \<Rightarrow> SocketAddr \<Rightarrow> 'k \<Rightarrow> (nat, string) result poll \<times> 'k) \<Rightarrow> 'k \<Rightarrow> log \<Rightarrow> u16 \<Rightarrow>
     ('s, 'k) udp_session \<Rightarrow> ('o, 'i) UdpStream \<Rightarrow> bool" where
  "assoc_ok L socket_send k l a se s \<longleftrightarrow>
     us_assoc_id s = a \<and> (\<forall>p \<in> set (se_queue se). ip_packet p) \<and>
     se_taken se \<le> length (se_queue se) \<and> se_received se \<le> length (us_receive_tx s) \<and>
     us_next_pkt_id s = queue_count L (take (se_taken se) (se_queue se)) \<and>
     sent_for a l = queue_datagrams L a 0 (take (se_taken se) (se_queue se)) \<and>
     se_local se = fold (\<lambda>p. snd \<circ> socket_send (pk_payload p) unspecified_v4) (take (se_received se) (us_receive_tx s)) k"

lemma assoc_ok_grows:
  assumes "assoc_ok L socket_send k l a se s" and "stream_grows s s'" and "sent_for a l' = sent_for a l"
  shows "assoc_ok L socket_send k l' a se s'"
  using assms by (auto simp: assoc_ok_def stream_grows_def prefix_def)

lemma assoc_ok_session:
  assumes "assoc_ok L socket_send k l a se s" and "se_queue se' = se_queue se @ new" and "\<forall>p \<in> set new. ip_packet p"
    and "se_taken se' = se_taken se" and "se_received se' = se_received se" and "se_local se' = se_local se"
  shows "assoc_ok L socket_send k l a se' s"
  using assms by (auto simp: assoc_ok_def)

text \<open>
  All associations of the client. The numbers are told apart as long as there are at most 65536.
\<close>

definition system_ok ::
  "nat \<Rightarrow> (bytes \<Rightarrow> SocketAddr \<Rightarrow> 'k \<Rightarrow> (nat, string) result poll \<times> 'k) \<Rightarrow> 'k \<Rightarrow> ('o, 'i, 'u, 's, 'k) client_system \<Rightarrow> bool" where
  "system_ok L socket_send k st \<longleftrightarrow>
     (let n = length (cs_sessions st); ob = cs_outbound st in
      length (ob_streams ob) = n \<and> ob_udp_assoc_counter ob = of_nat n \<and>
      (n \<le> 65536 \<longrightarrow>
        (\<forall>a. n \<le> unat a \<longrightarrow> sent_for a (ob_connection ob) = []) \<and>
        (\<forall>i<n. assoc_ok L socket_send k (ob_connection ob) (of_nat i) (cs_sessions st ! i) (ob_streams ob ! i))))"

lemma system_ok_grows:
  assumes "system_ok L socket_send k st" and "outbound_grows (cs_outbound st) (cs_outbound st')" and "cs_sessions st' = cs_sessions st"
  shows "system_ok L socket_send k st'"
proof -
  have "assoc_ok L socket_send k (ob_connection (cs_outbound st')) (of_nat i) (cs_sessions st ! i) (ob_streams (cs_outbound st') ! i)"
    if "assoc_ok L socket_send k (ob_connection (cs_outbound st)) (of_nat i) (cs_sessions st ! i) (ob_streams (cs_outbound st) ! i)" for i
    using that assms(2) by (intro assoc_ok_grows [OF that]) (simp_all add: outbound_grows_def)
  then show ?thesis
    using assms unfolding system_ok_def outbound_grows_def by (simp add: Let_def)
qed

lemma system_ok_session:
  assumes "system_ok L socket_send k st" and "i < length (cs_sessions st)"
    and "assoc_ok L socket_send k (ob_connection (cs_outbound st)) (of_nat i) (cs_sessions st ! i) (ob_streams (cs_outbound st) ! i) \<Longrightarrow>
      assoc_ok L socket_send k (ob_connection (cs_outbound st)) (of_nat i) se (ob_streams (cs_outbound st) ! i)"
  shows "system_ok L socket_send k (set_session i se st)"
  using assms unfolding system_ok_def set_session_def by (simp add: Let_def nth_list_update)

lemma set_outbound_simps [simp]:
  "cs_outbound (set_outbound ob st) = ob" "cs_sessions (set_outbound ob st) = cs_sessions st"
  "cs_outbound (set_session i se st) = cs_outbound st" "cs_sessions (set_session i se st) = (cs_sessions st)[i := se]"
  "cs_cancelled (set_outbound ob st) = cs_cancelled st"
  by (simp_all add: set_outbound_def set_session_def)

section \<open>Every task keeps it\<close>

text \<open>A connection that takes every datagram within a limit that stays the same.\<close>

definition steady :: "nat \<Rightarrow> quinn \<Rightarrow> bool" where
  "steady L q \<longleftrightarrow> (\<forall>l. max_datagram_size q l = Some L) \<and> (\<forall>l d. length d \<le> L \<longrightarrow> outcome q l (SendDatagram d) = None)"

lemma stream_send_steady:
  assumes "steady L q" and "29 \<le> L" and "ip_packet packet" and "i < length (ob_streams ob)"
  defines "s \<equiv> ob_streams ob ! i"
  shows "stream_send oc q i packet ob =
    (if sendable L packet
     then (Ok (), ob\<lparr>ob_streams := (ob_streams ob)[i := s\<lparr>
              us_connection := ob_connection ob @ map SendDatagram (packet_datagrams L (us_assoc_id s) (us_next_pkt_id s) packet),
              us_next_pkt_id := us_next_pkt_id s + 1\<rparr>],
            ob_connection := ob_connection ob @ map SendDatagram (packet_datagrams L (us_assoc_id s) (us_next_pkt_id s) packet)\<rparr>)
     else (Err (EMsg ''Packet too large for fragmentation, exceeds maximum fragment count''),
           ob\<lparr>ob_streams := (ob_streams ob)[i := s\<lparr>us_connection := ob_connection ob\<rparr>]\<rparr>))"
proof -
  have limit: "datagram_limit q s' = L" for s' :: "('a, 'b) UdpStream"
    using assms(1) by (simp add: datagram_limit_def steady_def)
  have send: "send_packet oc q packet (s\<lparr>us_connection := ob_connection ob\<rparr>) = (if sendable L packet
      then (Ok (), s\<lparr>us_connection := ob_connection ob @ map SendDatagram (packet_datagrams L (us_assoc_id s) (us_next_pkt_id s) packet),
             us_next_pkt_id := us_next_pkt_id s + 1\<rparr>)
      else (Err (EMsg ''Packet too large for fragmentation, exceeds maximum fragment count''), s\<lparr>us_connection := ob_connection ob\<rparr>))"
    using send_packet_datagrams [of packet q "s\<lparr>us_connection := ob_connection ob\<rparr>" oc] ip_packet_ok [OF assms(3)] assms(1,2)
    by (simp add: limit sendable_def steady_def)
  show ?thesis
    unfolding stream_send_def s_def [symmetric] send by (simp add: Let_def)
qed

lemma of_nat_u16_eq: "i < 65536 \<Longrightarrow> j < 65536 \<Longrightarrow> (of_nat i :: u16) = of_nat j \<longleftrightarrow> i = j"
  by (metis unat_of_nat_u16)

text \<open>The sender takes a packet from the queue. The other associations see nothing of it.\<close>

lemma assoc_ok_sent:
  assumes "assoc_ok L socket_send k l a se s" and "se_taken se < length (se_queue se)"
    and "sent_for a l' = sent_for a l @ (if sendable L (se_queue se ! se_taken se)
      then packet_datagrams L a (us_next_pkt_id s) (se_queue se ! se_taken se) else [])"
    and "us_next_pkt_id s' = us_next_pkt_id s + (if sendable L (se_queue se ! se_taken se) then 1 else 0)"
    and "us_assoc_id s' = us_assoc_id s" and "us_receive_tx s' = us_receive_tx s"
  shows "assoc_ok L socket_send k l' a (se\<lparr>se_taken := Suc (se_taken se), se_sender := status\<rparr>) s'"
proof -
  have "take (Suc (se_taken se)) (se_queue se) = take (se_taken se) (se_queue se) @ [se_queue se ! se_taken se]"
    using assms(2) by (rule take_Suc_conv_app_nth)
  then show ?thesis
    using assms by (simp add: assoc_ok_def queue_datagrams_snoc)
qed

lemma assoc_ok_received:
  assumes "assoc_ok L socket_send k l a se s" and "se_received se < length (us_receive_tx s)"
  shows "assoc_ok L socket_send k l a (se\<lparr>se_received := Suc (se_received se), se_sender := status,
    se_local := snd (socket_send (pk_payload (us_receive_tx s ! se_received se)) unspecified_v4 (se_local se))\<rparr>) s"
proof -
  have "take (Suc (se_received se)) (us_receive_tx s) = take (se_received se) (us_receive_tx s) @ [us_receive_tx s ! se_received se]"
    using assms(2) by (rule take_Suc_conv_app_nth)
  then show ?thesis
    using assms by (simp add: assoc_ok_def)
qed

lemma stream_send_effect:
  fixes oc :: bool
  assumes "steady L q" and "29 \<le> L" and "ip_packet packet" and "i < length (ob_streams ob)"
  defines "ob' \<equiv> snd (stream_send oc q i packet ob)" and "s \<equiv> ob_streams ob ! i"
  shows "sent_for b (ob_connection ob') = sent_for b (ob_connection ob) @
      (if b = us_assoc_id s \<and> sendable L packet then packet_datagrams L b (us_next_pkt_id s) packet else [])"
    and "length (ob_streams ob') = length (ob_streams ob)" and "ob_udp_assoc_counter ob' = ob_udp_assoc_counter ob"
    and "j \<noteq> i \<Longrightarrow> ob_streams ob' ! j = ob_streams ob ! j"
    and "us_assoc_id (ob_streams ob' ! i) = us_assoc_id s" and "us_receive_tx (ob_streams ob' ! i) = us_receive_tx s"
    and "us_next_pkt_id (ob_streams ob' ! i) = us_next_pkt_id s + (if sendable L packet then 1 else 0)"
  unfolding ob'_def s_def stream_send_steady [OF assms(1-4)] using assms(4) by (auto simp: sent_for_packet)

lemma system_ok_queued:
  assumes "system_ok L socket_send k st" and "i < length (cs_sessions st)" and "sender_sees st i (PacketQueued (Ok packet))"
    and "steady L q" and "29 \<le> L" and "length (cs_sessions st) \<le> 65536"
  shows "system_ok L socket_send k (sender_task oc q co socket_send (PacketQueued (Ok packet)) i st)"
proof -
  let ?ob = "cs_outbound st" and ?se = "cs_sessions st ! i" and ?n = "length (cs_sessions st)"
  define ob' where "ob' = snd (stream_send oc q i packet ?ob)"
  define se' where "se' = ?se\<lparr>se_taken := Suc (se_taken ?se),
    se_sender := if fst (stream_send oc q i packet ?ob) = Panic then SenderPanicked else Sending\<rparr>"
  have task: "sender_task oc q co socket_send (PacketQueued (Ok packet)) i st = set_session i se' (set_outbound ob' st)"
    by (simp add: sender_task_def sender_step_def split_beta Let_def ob'_def se'_def)
  have packet: "packet = se_queue ?se ! se_taken ?se" and taken: "se_taken ?se < length (se_queue ?se)"
    using assms(3) by (simp_all add: Let_def)
  have len: "length (ob_streams ?ob) = ?n" and counter: "ob_udp_assoc_counter ?ob = of_nat ?n"
    and fresh: "\<And>a. ?n \<le> unat a \<Longrightarrow> sent_for a (ob_connection ?ob) = []"
    and ok: "\<And>j. j < ?n \<Longrightarrow> assoc_ok L socket_send k (ob_connection ?ob) (of_nat j) (cs_sessions st ! j) (ob_streams ?ob ! j)"
    using assms(1,6) by (simp_all add: system_ok_def Let_def)
  have "ip_packet packet" and a: "us_assoc_id (ob_streams ?ob ! i) = of_nat i"
    using ok [OF assms(2)] taken packet by (auto simp: assoc_ok_def)
  note effect = stream_send_effect [where oc = oc and ob = ?ob and i = i, OF assms(4,5) this(1), unfolded len, OF assms(2), folded ob'_def, unfolded a]
  have "assoc_ok L socket_send k (ob_connection ob') (of_nat j) ((cs_sessions st)[i := se'] ! j) (ob_streams ob' ! j)" if "j < ?n" for j
  proof (cases "j = i")
    case True
    with assms(2) show ?thesis
      unfolding se'_def by (simp add: assoc_ok_sent [OF ok [OF assms(2)] taken] effect packet a)
  next
    case False
    then have "(of_nat j :: u16) \<noteq> of_nat i"
      using that assms(2,6) by (simp add: of_nat_u16_eq)
    with False show ?thesis by (simp add: effect assoc_ok_grows [OF ok [OF that]])
  qed
  moreover have "sent_for b (ob_connection ob') = []" if "?n \<le> unat b" for b
    using that fresh [OF that] assms(2,6) by (auto simp: effect unat_of_nat_u16)
  ultimately show ?thesis
    by (simp add: task system_ok_def effect(2,3) len counter Let_def)
qed

lemma system_ok_sender:
  assumes ok: "system_ok L socket_send k st" and i: "i < length (cs_sessions st)" and sees: "sender_sees st i ev"
    and "steady L q" and "29 \<le> L"
  shows "system_ok L socket_send k (sender_task oc q co socket_send ev i st)"
proof -
  let ?se = "cs_sessions st ! i"
  consider (queued) packet where "ev = PacketQueued (Ok packet)" | (received) packet where "ev = PacketReceived (Ok packet)"
    | (gc) now_ms where "ev = GcTick now_ms" | (stopped) "sender_task oc q co socket_send ev i st = set_session i (?se\<lparr>se_sender := SenderStopped\<rparr>) st"
    using sees by (cases "(st, i, ev)" rule: sender_sees.cases)
      (auto simp: sender_task_def sender_step_def set_session_def set_outbound_def)
  then show ?thesis
  proof cases
    case queued
    show ?thesis
    proof (cases "length (cs_sessions st) \<le> 65536")
      case True
      with system_ok_queued [OF ok i] assms(3-5) queued show ?thesis by simp
    next
      case False
      with ok show ?thesis
        by (auto simp: queued sender_task_def sender_step_def system_ok_def stream_send_def split_beta Let_def)
    qed
  next
    case received
    then have "se_received ?se < length (us_receive_tx (ob_streams (cs_outbound st) ! i))"
      and "packet = us_receive_tx (ob_streams (cs_outbound st) ! i) ! se_received ?se"
      using sees by (simp_all add: Let_def)
    then have "system_ok L socket_send k (set_session i (?se\<lparr>se_received := Suc (se_received ?se), se_sender := Sending,
        se_local := snd (socket_send (pk_payload packet) unspecified_v4 (se_local ?se))\<rparr>) st)"
      by (intro system_ok_session [OF ok i]) (simp add: assoc_ok_received)
    then show ?thesis
      by (simp add: received sender_task_def sender_step_def unspecified_v4_def set_session_def set_outbound_def Let_def)
  next
    case gc
    have "system_ok L socket_send k (set_outbound (snd (on_stream i (\<lambda>s. ((), collect_garbage co now_ms s)) (cs_outbound st))) st)"
      by (rule system_ok_grows [OF ok]) (simp_all add: outbound_grows_gc)
    from system_ok_session [OF this, of i "?se\<lparr>se_sender := Sending, se_local := se_local ?se\<rparr>"] i show ?thesis
      by (simp add: gc sender_task_def sender_step_def assoc_ok_def Let_def split_beta)
  next
    case stopped
    then show ?thesis
      by (simp add: stopped) (rule system_ok_session [OF ok i], simp add: assoc_ok_def)
  qed
qed

lemma system_ok_open:
  assumes "system_ok L socket_send k st"
  shows "system_ok L socket_send k (handle_udp co cu socket k st)"
proof -
  let ?n = "length (cs_sessions st)" and ?ob = "cs_outbound st"
  have sessions: "cs_sessions (handle_udp co cu socket k st) = cs_sessions st @ [\<lparr>se_assoc_id = of_nat ?n, se_socket = socket, se_buf = reader_buffer,
      se_queue = [], se_taken = 0, se_received = 0, se_local = k, se_reader = Reading, se_sender = Sending, se_handling = True\<rparr>]"
    and ob: "ob_streams (cs_outbound (handle_udp co cu socket k st)) = ob_streams ?ob @ [UdpStream_new co (ob_connection ?ob) (of_nat ?n)]"
      "ob_connection (cs_outbound (handle_udp co cu socket k st)) = ob_connection ?ob"
      "ob_udp_assoc_counter (cs_outbound (handle_udp co cu socket k st)) = of_nat (Suc ?n)"
    using assms by (simp_all add: handle_udp_def handle_udp_open_def system_ok_def set_outbound_def Let_def)
  have fresh: "assoc_ok L socket_send k (ob_connection ?ob) (of_nat ?n) (cs_sessions (handle_udp co cu socket k st) ! ?n)
      (UdpStream_new co (ob_connection ?ob) (of_nat ?n))" if "Suc ?n \<le> 65536"
    using assms that by (simp add: sessions assoc_ok_def UdpStream_new_def system_ok_def Let_def unat_of_nat_u16)
  have len: "length (cs_sessions (handle_udp co cu socket k st)) = Suc ?n" "length (ob_streams ?ob) = ?n"
    using assms by (simp_all add: sessions system_ok_def Let_def)
  show ?thesis
    using assms fresh unfolding system_ok_def Let_def ob len
    by (auto simp: sessions nth_append less_Suc_eq len)
qed

lemma system_step_ok:
  assumes "system_step conn oc co ci cu chan poll_recv socket_send k st st'" and "system_ok L socket_send k st"
    and "\<And>q. conn q \<Longrightarrow> steady L q" and "29 \<le> L"
  shows "system_ok L socket_send k st'"
  using assms(1)
proof cases
  case (reader i as)
  obtain status socket buf queue where turn: "reader_turn poll_recv (\<lambda>_ _. se_sender (cs_sessions st ! i) = Sending) as
      (se_socket (cs_sessions st ! i), se_buf (cs_sessions st ! i), se_queue (cs_sessions st ! i)) = (status, socket, buf, queue)"
    by (metis prod_cases4)
  from reader_turn_appends [OF this] reader show ?thesis
    by (auto simp: reader_task_def turn Let_def intro!: system_ok_session [OF assms(2)] elim!: assoc_ok_session)
next
  case (sender i ev q)
  with assms show ?thesis by (simp add: system_ok_sender)
next
  case (finish i q)
  have "system_ok L socket_send k (set_outbound (handle_udp_close q (se_assoc_id (cs_sessions st ! i)) (cs_outbound st)) st)"
    by (rule system_ok_grows [OF assms(2)]) (simp_all add: outbound_grows_close)
  from system_ok_session [OF this, of i "(cs_sessions st ! i)\<lparr>se_handling := False\<rparr>"] finish assms(2) show ?thesis
    by (simp add: handle_udp_end_def assoc_ok_def Let_def)
next
  case (reader_cancelled i)
  then show ?thesis by (auto simp: assoc_ok_def intro!: system_ok_session [OF assms(2)])
next
  case (dropped i)
  then show ?thesis by (auto simp: assoc_ok_def intro!: system_ok_session [OF assms(2)])
next
  case (udp_request socket)
  with system_ok_open [OF assms(2)] show ?thesis by simp
qed (auto simp: outbound_grows_tcp outbound_grows_poll intro!: system_ok_grows [OF assms(2)] assms(2))

lemma quiet_send_auth: "quiet (send_auth q uuid secret)"
  unfolding send_auth_def by (auto intro!: quiet_intros split: option.split)

lemma system_ok_start:
  assumes "TuicOutbound_new q cu setup opts = Ok ob"
  shows "system_ok L socket_send k (system_start ob :: ('o, 'i, 'u, 's, 'k) client_system)"
proof -
  have "ob_connection ob = snd (send_auth q (fst (oo_auth opts)) (snd (oo_auth opts)) [])"
    and "ob_streams ob = []" and "ob_udp_assoc_counter ob = 0"
    using assms by (auto simp: TuicOutbound_new_def split: result.splits prod.splits)
  moreover have "sent_for a (snd (send_auth q (fst (oo_auth opts)) (snd (oo_auth opts)) [])) = []" for a
    using quiet_send_auth [of q "fst (oo_auth opts)" "snd (oo_auth opts)"] by (simp add: quiet_def sent_for_def)
  ultimately show ?thesis
    by (simp add: system_ok_def system_start_def poll_start_def)
qed

text \<open>
  C5. Associations run side by side without mixing. A client comes up, and then its polling task, the readers,
  senders and handlers of its associations, and its TCP requests run in any order, also across a cancellation.
  The connection takes datagrams up to a limit that has room for a header. Then at any time, for each of up to
  65536 associations: the packet datagrams on the connection that carry its number are exactly those of the
  packets its sender has taken from its queue, in the order in which its reader queued them, under
  consecutive packet numbers and without those of more than 255 pieces; and its local socket has been
  given exactly the payloads its sender has taken from the channel of received packets, in order.
\<close>

theorem associations_forward:
  assumes "TuicOutbound_new q cu setup opts = Ok ob"
    and "(system_step conn oc co ci cu chan poll_recv socket_send k)\<^sup>*\<^sup>* (system_start ob) st"
    and "\<And>q. conn q \<Longrightarrow> steady L q" and "29 \<le> L"
    and "i < length (cs_sessions st)" and "length (cs_sessions st) \<le> 65536"
    and "se = cs_sessions st ! i" and "received = us_receive_tx (ob_streams (cs_outbound st) ! i)"
  shows "se_taken se \<le> length (se_queue se) \<and>
    sent_for (of_nat i) (ob_connection (cs_outbound st)) = queue_datagrams L (of_nat i) 0 (take (se_taken se) (se_queue se)) \<and>
    se_received se \<le> length received \<and>
    se_local se = fold (\<lambda>p. snd \<circ> socket_send (pk_payload p) unspecified_v4) (take (se_received se) received) k"
proof -
  from assms(2) have "system_ok L socket_send k st"
    by (induction rule: rtranclp_induct) (use assms in \<open>auto intro: system_ok_start system_step_ok\<close>)
  with assms(5-8) show ?thesis
    by (auto simp: system_ok_def assoc_ok_def Let_def)
qed

text \<open>A run: a client comes up, opens an association, reads one request and sends it.\<close>

definition sample_up :: "((pkt_key, nat) alist_state, (u8, bytes) alist_state, (u16, nat) alist_state) TuicOutbound" where
  "sample_up = sample_outbound\<lparr>ob_connection := snd (send_auth (sample_quinn 1200) (replicate 16 0) [1, 2, 3] [])\<rparr>"

lemma sample_up_new: "TuicOutbound_new (sample_quinn 1200) alist_cache [] (ob_opts sample_outbound) = Ok sample_up"
proof -
  have "oo_auth (ob_opts sample_outbound) = (replicate 16 0, [1, 2, 3])"
    by (simp add: sample_outbound_def)
  then show ?thesis
    by (simp add: TuicOutbound_new_def sample_up_def send_auth_log [where token = "replicate 32 7"] sample_quinn_def)
       (simp add: sample_outbound_def)
qed

definition sample_destination :: SocksTargetAddr where
  "sample_destination = SIp (SockV4 (Ipv4Addr 1 1 1 1) 53)"

definition sample_send :: "bytes \<Rightarrow> SocketAddr \<Rightarrow> bytes list \<Rightarrow> (nat, string) result poll \<times> bytes list" where
  "sample_send d a k = (Ready (Ok (length d)), k @ [d])"

lemma sample_turn:
  assumes "\<And>qu p. tx qu p"
  shows "reader_turn socks_poll_recv tx [TryOk 1 [socks_header 0 sample_destination @ [7] @ replicate 65524 0] [sample_qmeta 11]]
    (Socks5UdpSocket_new, reader_buffer, []) =
    (Reading, Socks5UdpSocket_new\<lparr>sk_source_addr := q_addr (sample_qmeta 11)\<rparr>, [7] @ drop 1 reader_buffer,
     [segment_packet (TIPv4 (Ipv4Addr 1 1 1 1) 53) [7]])"
  using reader_turn_request [of sample_destination "sample_qmeta 11" 0 "[7]" "replicate 65524 0" reader_buffer tx Socks5UdpSocket_new "[]"] assms
  by (simp add: sample_destination_def socks_header_def sample_qmeta_def reader_buffer_def u16_to_be_bytes_def)

theorem associations_forward_witness:
  "\<exists>st :: (_, _, _, unit Socks5UdpSocket, _) client_system. (system_step ((=) (sample_quinn 1200)) True alist_cache alist_cache alist_cache (\<lambda>_ _. None) socks_poll_recv sample_send [])\<^sup>*\<^sup>*
      (system_start sample_up) st \<and>
    sent_for 0 (ob_connection (cs_outbound st)) = packet_datagrams 1200 0 0 (segment_packet (TIPv4 (Ipv4Addr 1 1 1 1) 53) [7])"
proof -
  let ?R = "system_step ((=) (sample_quinn 1200)) True alist_cache alist_cache alist_cache (\<lambda>_ _. None)
    (socks_poll_recv :: unit attempt list \<Rightarrow> _) sample_send []"
  let ?p = "segment_packet (TIPv4 (Ipv4Addr 1 1 1 1) 53) [7]"
  define st1 where "st1 = handle_udp alist_cache alist_cache Socks5UdpSocket_new [] (system_start sample_up :: (_, _, _, unit Socks5UdpSocket, bytes list) client_system)"
  define st2 where "st2 = reader_task socks_poll_recv [TryOk 1 [socks_header 0 sample_destination @ [7] @ replicate 65524 0] [sample_qmeta 11]] 0 st1"
  define st3 where "st3 = sender_task True (sample_quinn 1200) alist_cache sample_send (PacketQueued (Ok ?p)) 0 st2"
  have st1: "cs_sessions st1 = [\<lparr>se_assoc_id = 0, se_socket = Socks5UdpSocket_new, se_buf = reader_buffer, se_queue = [], se_taken = 0,
      se_received = 0, se_local = [], se_reader = Reading, se_sender = Sending, se_handling = True\<rparr>]"
    by (simp add: st1_def handle_udp_def handle_udp_open_def system_start_def poll_start_def sample_up_def sample_outbound_def
        set_outbound_def Let_def)
  have st2: "cs_sessions st2 = [(cs_sessions st1 ! 0)\<lparr>se_socket := Socks5UdpSocket_new\<lparr>sk_source_addr := q_addr (sample_qmeta 11)\<rparr>,
      se_buf := [7] @ drop 1 reader_buffer, se_queue := [?p]\<rparr>]"
    by (simp add: st2_def reader_task_def st1 sample_turn Let_def del: append_Cons One_nat_def)
  have st3: "length (cs_sessions st3) = 1" "se_queue (cs_sessions st3 ! 0) = [?p]" "se_taken (cs_sessions st3 ! 0) = 1"
    by (simp_all add: st3_def sender_task_def st2 st1 split_beta Let_def)
  have "?R (system_start sample_up) st1"
    unfolding st1_def by (rule udp_request)
  moreover have "?R st1 st2"
    unfolding st2_def by (rule reader) (simp_all add: st1)
  moreover have "?R st2 st3"
    unfolding st3_def by (rule sender) (simp_all add: st2 st1)
  ultimately have run: "?R\<^sup>*\<^sup>* (system_start sample_up) st3" by simp
  have "sendable 1200 ?p"
    by (simp add: sendable_def packet_pieces_def segment_packet_def fragment_count_def)
  moreover have "steady 1200 q" if "sample_quinn 1200 = q" for q
    unfolding that [symmetric] by (simp add: steady_def sample_quinn_def)
  ultimately show ?thesis
    using associations_forward [OF sample_up_new run, of 1200 0] run st3 by auto
qed

end
