(* ===== verification/Tuic_Inbound.thy ===== *)
theory Tuic_Inbound
  imports Proto
begin

text \<open>
  The TUIC server, \<^verbatim>\<open>crates/wind-tuic/src/inbound.rs\<close>: one QUIC connection with its
  authentication state, the handlers of its streams and datagrams, and the loop that
  dispatches to them next to the authentication timer. A receive stream is \<^verbatim>\<open>quinn\<close>'s and a
  parameter: the operations \<open>recv_ops\<close> on an arbitrary type of streams, with the documented
  behaviour of reading in \<open>recv_ok\<close>. The callback that takes over TCP streams is a parameter
  too, asked for its answer with the calls made so far.

  A handler runs to completion before the loop looks at the next event. The only other task is
  the timer; a connection never loses its authentication, so a timer that fires inside a handler
  acts like one that fires before or after it.
\<close>

section \<open>Streams\<close>

record 'r recv_ops =
  read_to_end :: "nat \<Rightarrow> 'r \<Rightarrow> (bytes, string) result \<times> 'r"
  read_exact :: "nat \<Rightarrow> 'r \<Rightarrow> (bytes, string) result \<times> 'r"

text \<open>
  \<open>content r = Some d\<close>: the peer sends exactly \<open>d\<close> on the stream and then finishes it.
\<close>

definition recv_ok :: "'r recv_ops \<Rightarrow> ('r \<Rightarrow> bytes option) \<Rightarrow> bool" where
  "recv_ok ops content \<longleftrightarrow>
     (\<forall>n r. fst (read_to_end ops n r) \<noteq> Panic \<and> fst (read_exact ops n r) \<noteq> Panic) \<and>
     (\<forall>n r d. content r = Some d \<longrightarrow> length d \<le> n \<longrightarrow>
        fst (read_to_end ops n r) = Ok d \<and> content (snd (read_to_end ops n r)) = Some []) \<and>
     (\<forall>n r d. content r = Some d \<longrightarrow> n < length d \<longrightarrow> is_err (fst (read_to_end ops n r))) \<and>
     (\<forall>n r d. content r = Some d \<longrightarrow> n \<le> length d \<longrightarrow>
        fst (read_exact ops n r) = Ok (take n d) \<and> content (snd (read_exact ops n r)) = Some (drop n d)) \<and>
     (\<forall>n r d. content r = Some d \<longrightarrow> length d < n \<longrightarrow> is_err (fst (read_exact ops n r)))"

lemma recv_to_end:
  assumes "recv_ok ops content" and "content r = Some d" and "length d \<le> n"
  obtains r' where "read_to_end ops n r = (Ok d, r')" and "content r' = Some []"
proof -
  have "fst (read_to_end ops n r) = Ok d" and "content (snd (read_to_end ops n r)) = Some []"
    using assms unfolding recv_ok_def by simp_all
  then show thesis
    using that by (cases "read_to_end ops n r") simp
qed

lemma recv_to_end_long:
  assumes "recv_ok ops content" and "content r = Some d" and "n < length d"
  obtains e r' where "read_to_end ops n r = (Err e, r')"
proof -
  have "is_err (fst (read_to_end ops n r))"
    using assms unfolding recv_ok_def by simp
  then show thesis
    using that by (cases "read_to_end ops n r"; cases "fst (read_to_end ops n r)") simp_all
qed

lemma recv_exact:
  assumes "recv_ok ops content" and "content r = Some d" and "n \<le> length d"
  obtains r' where "read_exact ops n r = (Ok (take n d), r')" and "content r' = Some (drop n d)"
proof -
  have "fst (read_exact ops n r) = Ok (take n d)" and "content (snd (read_exact ops n r)) = Some (drop n d)"
    using assms unfolding recv_ok_def by simp_all
  then show thesis
    using that by (cases "read_exact ops n r") simp
qed

text \<open>A stream as the bytes it still delivers, for evaluation on concrete inputs.\<close>

definition byte_stream :: "bytes recv_ops" where
  "byte_stream = \<lparr>
     read_to_end = (\<lambda>n d. if length d \<le> n then (Ok d, []) else (Err ''stream too long'', d)),
     read_exact = (\<lambda>n d. if n \<le> length d then (Ok (take n d), drop n d) else (Err ''stream finished early'', d))\<rparr>"

lemma byte_stream_ok: "recv_ok byte_stream Some"
  by (simp add: recv_ok_def byte_stream_def)

section \<open>The connection context\<close>

record UdpSession =
  session_assoc_id :: u16
  session_fragments :: "u16 \<rightharpoonup> bytes"

text \<open>
  \<open>ic_conn\<close> is the log of the connection, \<open>ic_tcp\<close> the TCP streams handed to the callback, each
  with its target and its receive half, and \<open>ic_udp\<close> the packets \<open>handle_udp_packet\<close> has
  reported.
\<close>

record 'r InboundCtx =
  ic_conn :: log
  ic_uuid :: "uuid option"
  ic_users :: "uuid \<rightharpoonup> string"
  ic_udp_sessions :: "u16 \<rightharpoonup> UdpSession"
  ic_tcp :: "(TargetAddr \<times> 'r) list"
  ic_udp :: "(u16 \<times> TargetAddr \<times> bytes) list"

definition InboundCtx_new :: "(uuid \<rightharpoonup> string) \<Rightarrow> 'r InboundCtx" where
  "InboundCtx_new users = \<lparr>ic_conn = [], ic_uuid = None, ic_users = users, ic_udp_sessions = Map.empty,
     ic_tcp = [], ic_udp = []\<rparr>"

type_synonym 'r handler = "('r InboundCtx, unit, Error) comp"
type_synonym 'r callback = "(TargetAddr \<times> 'r) list \<Rightarrow> TargetAddr \<Rightarrow> 'r \<Rightarrow> string option"

section \<open>Handlers\<close>

definition handle_auth :: "quinn \<Rightarrow> uuid \<Rightarrow> bytes \<Rightarrow> 'r handler" where
  "handle_auth q uuid token s = (case ic_users s uuid of
     None \<Rightarrow> (Err (EMsg ''Unknown user''), s)
   | Some password \<Rightarrow>
       (case export_keying_material q 32 uuid (as_bytes password) of
          None \<Rightarrow> (Err (EMsg ''Failed to export keying material''), s)
        | Some expected_token \<Rightarrow>
            if token \<noteq> expected_token then (Err (EMsg ''Invalid authentication token''), s)
            else (Ok (), s\<lparr>ic_uuid := Some uuid\<rparr>)))"

definition handle_udp_packet :: "u16 \<Rightarrow> TargetAddr \<Rightarrow> bytes \<Rightarrow> 'r handler" where
  "handle_udp_packet assoc_id target_addr payload s =
     (Ok (), s\<lparr>ic_udp := ic_udp s @ [(assoc_id, target_addr, payload)]\<rparr>)"

definition handle_dissociate :: "u16 \<Rightarrow> 'r handler" where
  "handle_dissociate assoc_id s = (Ok (), s\<lparr>ic_udp_sessions := (ic_udp_sessions s)(assoc_id := None)\<rparr>)"

text \<open>
  The tail that the stream and the datagram handler share: the address, the payload of the
  announced size, the conversion of the address. \<^verbatim>\<open>split_to\<close> panics when fewer bytes are left.
\<close>

definition handle_packet :: "string \<Rightarrow> u16 \<Rightarrow> u16 \<Rightarrow> bytes \<Rightarrow> 'r handler" where
  "handle_packet ctxt assoc_id sz buf s = (case decode_address ctxt buf of
     (Err e, _) \<Rightarrow> (Err e, s)
   | (Panic, _) \<Rightarrow> (Panic, s)
   | (Ok addr, buf1) \<Rightarrow>
       (case split_to (unat sz) buf1 of
          None \<Rightarrow> (Panic, s)
        | Some (payload, _) \<Rightarrow>
            and_then (lift_result (address_to_target addr)) (\<lambda>target_addr.
              handle_udp_packet assoc_id target_addr payload) s))"

definition handle_uni_stream :: "'r recv_ops \<Rightarrow> quinn \<Rightarrow> 'r \<Rightarrow> 'r handler" where
  "handle_uni_stream rops q recv s = (case fst (read_to_end rops 65536 recv) of
     Err e \<Rightarrow> (Err (EMsg (''Failed to read stream: '' @ e)), s)
   | Panic \<Rightarrow> (Panic, s)
   | Ok data \<Rightarrow>
       (case and_then (decode_header ''uni stream'') (\<lambda>h. decode_command (command h) ''uni stream'') data of
          (Err e, _) \<Rightarrow> (Err e, s)
        | (Panic, _) \<Rightarrow> (Panic, s)
        | (Ok cmd, buf) \<Rightarrow>
            (case cmd of
               Auth uuid token \<Rightarrow> handle_auth q uuid token s
             | Packet assoc_id _ _ _ sz \<Rightarrow> handle_packet ''uni stream packet'' assoc_id sz buf s
             | Dissociate assoc_id \<Rightarrow> handle_dissociate assoc_id s
             | Heartbeat \<Rightarrow> (Ok (), s)
             | Connect \<Rightarrow> (Ok (), s))))"

text \<open>The call of the callback, which takes over the stream, and the arm for \<^verbatim>\<open>CmdType::Connect\<close>.\<close>

definition call_handle_tcpstream :: "'r callback \<Rightarrow> TargetAddr \<Rightarrow> 'r \<Rightarrow> 'r handler" where
  "call_handle_tcpstream callback target_addr recv s =
     (case callback (ic_tcp s) target_addr recv of None \<Rightarrow> Ok () | Some e \<Rightarrow> Err (EMsg e),
      s\<lparr>ic_tcp := ic_tcp s @ [(target_addr, recv)]\<rparr>)"

definition handle_connect :: "'r recv_ops \<Rightarrow> 'r callback \<Rightarrow> 'r \<Rightarrow> 'r handler" where
  "handle_connect rops callback recv s = (case fst (decode_command TyConnect ''bi stream'' []) of
     Err e \<Rightarrow> (Err e, s)
   | Panic \<Rightarrow> (Panic, s)
   | Ok _ \<Rightarrow>
       (case read_to_end rops 512 recv of
          (Err e, _) \<Rightarrow> (Err (EMsg (''Failed to read address: '' @ e)), s)
        | (Panic, _) \<Rightarrow> (Panic, s)
        | (Ok addr_data, recv1) \<Rightarrow>
            (case fst (decode_address ''bi stream'' addr_data) of
               Err e \<Rightarrow> (Err e, s)
             | Panic \<Rightarrow> (Panic, s)
             | Ok addr \<Rightarrow>
                 (case address_to_target addr of
                    Err e \<Rightarrow> (Err e, s)
                  | Panic \<Rightarrow> (Panic, s)
                  | Ok target_addr \<Rightarrow> call_handle_tcpstream callback target_addr recv1 s))))"

definition handle_bi_stream :: "'r recv_ops \<Rightarrow> 'r callback \<Rightarrow> 'r \<Rightarrow> 'r handler" where
  "handle_bi_stream rops callback recv s =
     (if ic_uuid s = None then (Ok (), s)
      else case read_exact rops 2 recv of
        (Err e, _) \<Rightarrow> (Err (EMsg (''Failed to read header: '' @ e)), s)
      | (Panic, _) \<Rightarrow> (Panic, s)
      | (Ok header_buf, recv1) \<Rightarrow>
          (case fst (decode_header ''bi stream'' header_buf) of
             Err e \<Rightarrow> (Err e, s)
           | Panic \<Rightarrow> (Panic, s)
           | Ok header \<Rightarrow>
               if command header = TyConnect then handle_connect rops callback recv1 s
               else (Ok (), s)))"

definition handle_datagram :: "bytes \<Rightarrow> 'r handler" where
  "handle_datagram data s =
     (if ic_uuid s = None then (Ok (), s)
      else case decode_header ''datagram'' data of
        (Err e, _) \<Rightarrow> (Err e, s)
      | (Panic, _) \<Rightarrow> (Panic, s)
      | (Ok header, buf) \<Rightarrow>
          if command header = TyPacket then
            (case decode_command TyPacket ''datagram'' buf of
               (Err e, _) \<Rightarrow> (Err e, s)
             | (Panic, _) \<Rightarrow> (Panic, s)
             | (Ok cmd, buf1) \<Rightarrow>
                 (case cmd of
                    Packet assoc_id _ _ _ sz \<Rightarrow> handle_packet ''datagram packet'' assoc_id sz buf1 s
                  | _ \<Rightarrow> (Ok (), s)))
          else (Ok (), s))"

section \<open>The connection loop\<close>

text \<open>The task that waits for the authentication timeout closes the connection by then.\<close>

definition auth_timeout_task :: "'r InboundCtx \<Rightarrow> 'r InboundCtx" where
  "auth_timeout_task s =
     (if ic_uuid s = None then s\<lparr>ic_conn := ic_conn s @ [Close 0 (as_bytes ''auth timeout'')]\<rparr> else s)"

text \<open>
  What the select of \<^verbatim>\<open>handle_connection\<close> can see next, and the firing of the timer. An accept
  that fails leaves the loop.
\<close>

datatype 'r conn_event =
    AcceptUni "('r, string) result"
  | AcceptBi "('r, string) result"
  | ReadDatagram "(bytes, string) result"
  | AuthTimer

datatype 'r conn_state = Serving "'r InboundCtx" | Closed "'r InboundCtx" | Panicked "'r InboundCtx"

text \<open>An error of a handler is logged and the loop goes on; a panic unwinds it.\<close>

definition after_handler :: "(unit, Error) result \<times> 'r InboundCtx \<Rightarrow> 'r conn_state" where
  "after_handler rs = (case fst rs of Panic \<Rightarrow> Panicked (snd rs) | _ \<Rightarrow> Serving (snd rs))"

inductive conn_step :: "'r recv_ops \<Rightarrow> quinn \<Rightarrow> 'r callback \<Rightarrow> 'r conn_state \<Rightarrow> 'r conn_event \<Rightarrow> 'r conn_state \<Rightarrow> bool"
  for rops :: "'r recv_ops" and q :: quinn and cb :: "'r callback" where
  uni: "conn_step rops q cb (Serving s) (AcceptUni (Ok recv)) (after_handler (handle_uni_stream rops q recv s))"
| uni_err: "conn_step rops q cb (Serving s) (AcceptUni (Err e)) (Closed s)"
| bi: "conn_step rops q cb (Serving s) (AcceptBi (Ok recv)) (after_handler (handle_bi_stream rops cb recv s))"
| bi_err: "conn_step rops q cb (Serving s) (AcceptBi (Err e)) (Closed s)"
| datagram: "conn_step rops q cb (Serving s) (ReadDatagram (Ok data)) (after_handler (handle_datagram data s))"
| datagram_err: "conn_step rops q cb (Serving s) (ReadDatagram (Err e)) (Closed s)"
| timer: "conn_step rops q cb (Serving s) AuthTimer (Serving (auth_timeout_task s))"
| timer_closed: "conn_step rops q cb (Closed s) AuthTimer (Closed (auth_timeout_task s))"

inductive conn_run :: "'r recv_ops \<Rightarrow> quinn \<Rightarrow> 'r callback \<Rightarrow> 'r conn_state \<Rightarrow> 'r conn_event list \<Rightarrow> 'r conn_state \<Rightarrow> bool"
  for rops :: "'r recv_ops" and q :: quinn and cb :: "'r callback" where
  start: "conn_run rops q cb st [] st"
| step: "conn_run rops q cb st evs st' \<Longrightarrow> conn_step rops q cb st' ev st'' \<Longrightarrow> conn_run rops q cb st (evs @ [ev]) st''"

fun ctx_of :: "'r conn_state \<Rightarrow> 'r InboundCtx" where
  "ctx_of (Serving s) = s"
| "ctx_of (Closed s) = s"
| "ctx_of (Panicked s) = s"

inductive_cases conn_step_cases [elim]: "conn_step rops q cb st ev st'"

section \<open>Authentication\<close>

definition token_valid :: "quinn \<Rightarrow> (uuid \<rightharpoonup> string) \<Rightarrow> uuid \<Rightarrow> bytes \<Rightarrow> bool" where
  "token_valid q users uuid token \<longleftrightarrow> (case users uuid of
     None \<Rightarrow> False
   | Some password \<Rightarrow> export_keying_material q 32 uuid (as_bytes password) = Some token)"

text \<open>A unidirectional stream that carries an authentication command with a valid token.\<close>

definition auth_event :: "'r recv_ops \<Rightarrow> quinn \<Rightarrow> (uuid \<rightharpoonup> string) \<Rightarrow> uuid \<Rightarrow> 'r conn_event \<Rightarrow> bool" where
  "auth_event rops q users uuid ev \<longleftrightarrow> (\<exists>recv token rest.
     ev = AcceptUni (Ok recv) \<and> command_wf (Auth uuid token) \<and>
     fst (read_to_end rops 65536 recv) = Ok (message (Auth uuid token) None @ rest) \<and>
     token_valid q users uuid token)"

lemma handle_auth_valid:
  "token_valid q (ic_users s) uuid token \<Longrightarrow> handle_auth q uuid token s = (Ok (), s\<lparr>ic_uuid := Some uuid\<rparr>)"
  by (auto simp: handle_auth_def token_valid_def split: option.splits)

lemma handle_auth_invalid:
  "\<not> token_valid q (ic_users s) uuid token \<Longrightarrow> \<exists>e. handle_auth q uuid token s = (Err (EMsg e), s)"
  by (auto simp: handle_auth_def token_valid_def split: option.splits)

lemma handle_auth_cases:
  obtains "token_valid q (ic_users s) uuid token" and "handle_auth q uuid token s = (Ok (), s\<lparr>ic_uuid := Some uuid\<rparr>)"
  | e where "\<not> token_valid q (ic_users s) uuid token" and "handle_auth q uuid token s = (Err (EMsg e), s)"
  using handle_auth_valid handle_auth_invalid by blast

section \<open>What a handler can change\<close>

lemma handle_packet_frame:
  "\<exists>us. snd (handle_packet ctxt a sz buf s) = s\<lparr>ic_udp := ic_udp s @ us\<rparr>"
proof -
  have "\<exists>us. s = s\<lparr>ic_udp := ic_udp s @ us\<rparr>"
    by (rule exI [of _ "[]"]) simp
  then show ?thesis
    by (auto simp: handle_packet_def handle_udp_packet_def and_then_def split: prod.splits result.splits option.splits)
qed

lemma handle_packet_payload:
  assumes "target_ok t" and "length payload < 65536"
  shows "handle_packet ctxt a (of_nat (length payload)) (addr_wire (Address_from t) @ payload @ rest) s =
    (Ok (), s\<lparr>ic_udp := ic_udp s @ [(a, t, payload)]\<rparr>)"
    and "handle_packet ctxt a (of_nat (length payload)) (addr_wire (Address_from t) @ payload) s =
    (Ok (), s\<lparr>ic_udp := ic_udp s @ [(a, t, payload)]\<rparr>)"
  using assms split_to_append [of payload "[]"]
  by (simp_all add: handle_packet_def decode_address_wire unat_of_nat_u16 handle_udp_packet_def)

lemma handle_uni_stream_frame:
  obtains "snd (handle_uni_stream rops q recv s) = s"
  | uuid where "auth_event rops q (ic_users s) uuid (AcceptUni (Ok recv))"
      and "snd (handle_uni_stream rops q recv s) = s\<lparr>ic_uuid := Some uuid\<rparr>"
  | us where "snd (handle_uni_stream rops q recv s) = s\<lparr>ic_udp := ic_udp s @ us\<rparr>"
  | a where "snd (handle_uni_stream rops q recv s) = s\<lparr>ic_udp_sessions := (ic_udp_sessions s)(a := None)\<rparr>"
proof (cases "fst (read_to_end rops 65536 recv)")
  case (Ok data)
  let ?d = "and_then (decode_header ''uni stream'') (\<lambda>h. decode_command (command h) ''uni stream'') data"
  show thesis
  proof (cases "fst ?d")
    case (Ok cmd)
    then have d: "?d = (Ok cmd, snd ?d)" by (metis prod.collapse)
    then have cmd: "command_wf cmd" "data = message cmd None @ snd ?d"
      by (simp_all add: decode_head)
    have run: "handle_uni_stream rops q recv s = (case cmd of
        Auth uuid token \<Rightarrow> handle_auth q uuid token s
      | Packet assoc_id _ _ _ sz \<Rightarrow> handle_packet ''uni stream packet'' assoc_id sz (snd ?d) s
      | Dissociate assoc_id \<Rightarrow> handle_dissociate assoc_id s
      | _ \<Rightarrow> (Ok (), s))"
      unfolding handle_uni_stream_def \<open>fst (read_to_end rops 65536 recv) = Ok data\<close> result.case
      by (subst d) (simp split: Command.split)
    show thesis
    proof (cases cmd)
      case (Auth uuid token)
      show thesis
      proof (cases rule: handle_auth_cases [of q s uuid token])
        case 1
        with Auth cmd \<open>fst (read_to_end rops 65536 recv) = Ok data\<close>
        have "auth_event rops q (ic_users s) uuid (AcceptUni (Ok recv))"
          by (auto simp: auth_event_def)
        with 1 run Auth show thesis by (intro that(2)) simp_all
      next
        case 2
        with run Auth show thesis by (intro that(1)) simp
      qed
    next
      case (Packet a p ft fi sz)
      with run handle_packet_frame [of "''uni stream packet''" a sz "snd ?d" s] show thesis
        by (auto intro: that(3))
    next
      case (Dissociate a)
      with run show thesis by (intro that(4) [of a]) (simp add: handle_dissociate_def)
    qed (use run that(1) in simp_all)
  next
    case (Err e)
    with \<open>fst (read_to_end rops 65536 recv) = Ok data\<close> show thesis
      by (intro that(1)) (auto simp: handle_uni_stream_def split: prod.split)
  next
    case Panic
    then show thesis using decode_head_no_panic by metis
  qed
qed (use that(1) in \<open>simp_all add: handle_uni_stream_def\<close>)

lemma handle_connect_frame:
  "snd (handle_connect rops cb recv s) = s \<or> (\<exists>x. snd (handle_connect rops cb recv s) = s\<lparr>ic_tcp := ic_tcp s @ [x]\<rparr>)"
  unfolding handle_connect_def call_handle_tcpstream_def
  by (simp split: prod.split result.split) blast

lemma handle_bi_stream_frame:
  "snd (handle_bi_stream rops cb recv s) = s \<or>
     ic_uuid s \<noteq> None \<and> (\<exists>x. snd (handle_bi_stream rops cb recv s) = s\<lparr>ic_tcp := ic_tcp s @ [x]\<rparr>)"
  using handle_connect_frame [of rops cb _ s]
  unfolding handle_bi_stream_def by (simp split: prod.split result.split)

lemma handle_datagram_frame: "\<exists>us. snd (handle_datagram d s) = s\<lparr>ic_udp := ic_udp s @ us\<rparr>"
proof -
  have "\<exists>us. s = s\<lparr>ic_udp := ic_udp s @ us\<rparr>"
    by (rule exI [of _ "[]"]) simp
  then show ?thesis
    using handle_packet_frame
    by (auto simp: handle_datagram_def split: prod.splits result.splits Command.splits)
qed

lemma ctx_of_after_handler [simp]: "ctx_of (after_handler rs) = snd rs"
  by (auto simp: after_handler_def split: result.split)

text \<open>The effect of a step on the fields the guards look at.\<close>

lemma conn_step_effect:
  assumes "conn_step rops q cb st ev st'"
  shows "ic_users (ctx_of st') = ic_users (ctx_of st) \<and>
    (ic_uuid (ctx_of st') = ic_uuid (ctx_of st) \<or>
      (\<exists>uuid. ic_uuid (ctx_of st') = Some uuid \<and> auth_event rops q (ic_users (ctx_of st)) uuid ev)) \<and>
    (ic_tcp (ctx_of st') = ic_tcp (ctx_of st) \<or> ic_uuid (ctx_of st) \<noteq> None)"
  using assms
proof cases
  case (uni s recv)
  then show ?thesis
    by (cases rule: handle_uni_stream_frame [of rops q recv s]) auto
next
  case (bi s recv)
  then show ?thesis
    using handle_bi_stream_frame [of rops cb recv s] by auto
next
  case (datagram s data)
  then show ?thesis
    using handle_datagram_frame [of data s] by auto
qed (auto simp: auth_timeout_task_def)

lemma conn_run_users:
  "conn_run rops q cb st evs st' \<Longrightarrow> ic_users (ctx_of st') = ic_users (ctx_of st)"
  by (induction rule: conn_run.induct) (auto dest: conn_step_effect)

lemma conn_run_auth:
  assumes "conn_run rops q cb st evs st'" and "ic_uuid (ctx_of st) = None" and "ic_tcp (ctx_of st) = []"
  shows "(\<forall>uuid. ic_uuid (ctx_of st') = Some uuid \<longrightarrow> (\<exists>ev \<in> set evs. auth_event rops q (ic_users (ctx_of st)) uuid ev)) \<and>
    (ic_tcp (ctx_of st') \<noteq> [] \<longrightarrow> ic_uuid (ctx_of st') \<noteq> None)"
  using assms
proof (induction rule: conn_run.induct)
  case (step st evs st' ev st'')
  have "ic_users (ctx_of st') = ic_users (ctx_of st)"
    using step.hyps(1) by (rule conn_run_users)
  with conn_step_effect [OF step.hyps(2)] step.IH step.prems show ?case
    by auto
qed simp

text \<open>
  C3. No access without a valid token. Whatever streams and datagrams a client sends, in whatever order
  and also around the authentication timeout: when the server regards the connection as
  authenticated as some user, an authentication command for that user whose token is the keying
  material exported for the user's password has arrived on it, and a TCP stream has been handed to
  the callback only if the connection is authenticated.
\<close>

theorem no_access_without_token:
  assumes "conn_run rops q cb (Serving (InboundCtx_new users)) evs st"
  shows "(ic_uuid (ctx_of st) = Some uuid \<longrightarrow> (\<exists>ev \<in> set evs. auth_event rops q users uuid ev)) \<and>
    (ic_tcp (ctx_of st) \<noteq> [] \<longrightarrow> (\<exists>ev \<in> set evs. \<exists>u. auth_event rops q users u ev))"
  using conn_run_auth [OF assms] by (simp add: InboundCtx_new_def) blast

lemma handle_uni_stream_message:
  assumes "fst (read_to_end rops 65536 recv) = Ok (message cmd None @ rest)" and "command_wf cmd"
  shows "handle_uni_stream rops q recv s = (case cmd of
        Auth uuid token \<Rightarrow> handle_auth q uuid token s
      | Packet assoc_id _ _ _ sz \<Rightarrow> handle_packet ''uni stream packet'' assoc_id sz rest s
      | Dissociate assoc_id \<Rightarrow> handle_dissociate assoc_id s
      | _ \<Rightarrow> (Ok (), s))"
proof -
  have d: "and_then (decode_header ''uni stream'') (\<lambda>h. decode_command (command h) ''uni stream'') (message cmd None @ rest) =
      (Ok cmd, rest)"
    using assms(2) by (simp add: decode_head)
  show ?thesis
    unfolding handle_uni_stream_def assms(1) by (simp add: d split: Command.split)
qed

definition sample_users :: "uuid \<rightharpoonup> string" where
  "sample_users = [replicate 16 1 \<mapsto> ''secret'']"

definition sample_auth :: bytes where
  "sample_auth = message (Auth (replicate 16 1) (replicate 32 7)) None"

lemma sample_auth_run:
  "conn_run byte_stream (sample_quinn 1200) cb (Serving (InboundCtx_new sample_users)) [AcceptUni (Ok sample_auth)]
     (Serving ((InboundCtx_new sample_users)\<lparr>ic_uuid := Some (replicate 16 1)\<rparr>))"
proof -
  have "fst (read_to_end byte_stream 65536 sample_auth) = Ok (message (Auth (replicate 16 1) (replicate 32 7)) None @ [])"
    by (simp add: byte_stream_def sample_auth_def message_def)
  then have "handle_uni_stream byte_stream (sample_quinn 1200) sample_auth (InboundCtx_new sample_users) =
      (Ok (), (InboundCtx_new sample_users)\<lparr>ic_uuid := Some (replicate 16 1)\<rparr>)"
    by (subst handle_uni_stream_message [where cmd = "Auth (replicate 16 1) (replicate 32 7)" and rest = "[]"])
       (simp_all add: handle_auth_def sample_users_def InboundCtx_new_def sample_quinn_def)
  then show ?thesis
    using conn_run.step [OF conn_run.start conn_step.uni, of byte_stream "sample_quinn 1200" cb
        "InboundCtx_new sample_users" sample_auth]
    by (simp add: after_handler_def)
qed

theorem no_access_without_token_witness:
  "\<exists>ev \<in> set [AcceptUni (Ok sample_auth)]. auth_event byte_stream (sample_quinn 1200) sample_users (replicate 16 1) ev"
  using no_access_without_token [OF sample_auth_run, where uuid = "replicate 16 1"] by simp

text \<open>
  C33. Unauthenticated connections. Bidirectional streams and datagrams are ignored: their handlers
  return without reading the stream, calling the callback or changing anything. The handler of
  unidirectional streams has no such guard: a dissociate command is carried out and a packet is
  accepted whether or not the connection is authenticated.
\<close>

theorem unauthenticated_handlers:
  assumes "ic_uuid s = None"
  shows "handle_bi_stream rops cb recv s = (Ok (), s) \<and> handle_datagram d s = (Ok (), s) \<and>
    (fst (read_to_end rops 65536 recv) = Ok (message (Dissociate a) None) \<longrightarrow>
       handle_uni_stream rops q recv s = (Ok (), s\<lparr>ic_udp_sessions := (ic_udp_sessions s)(a := None)\<rparr>)) \<and>
    (target_ok t \<longrightarrow> length payload < 65536 \<longrightarrow>
     fst (read_to_end rops 65536 recv) = Ok (packet_datagram a p ft fi (Address_from t) payload) \<longrightarrow>
       handle_uni_stream rops q recv s = (Ok (), s\<lparr>ic_udp := ic_udp s @ [(a, t, payload)]\<rparr>))"
proof (intro conjI impI)
  show "handle_bi_stream rops cb recv s = (Ok (), s)" and "handle_datagram d s = (Ok (), s)"
    using assms by (simp_all add: handle_bi_stream_def handle_datagram_def)
next
  assume "fst (read_to_end rops 65536 recv) = Ok (message (Dissociate a) None)"
  then show "handle_uni_stream rops q recv s = (Ok (), s\<lparr>ic_udp_sessions := (ic_udp_sessions s)(a := None)\<rparr>)"
    by (subst handle_uni_stream_message [where cmd = "Dissociate a" and rest = "[]"])
       (simp_all add: handle_dissociate_def)
next
  assume t: "target_ok t" and len: "length payload < 65536"
    and data: "fst (read_to_end rops 65536 recv) = Ok (packet_datagram a p ft fi (Address_from t) payload)"
  let ?cmd = "Packet a p ft fi (of_nat (length payload))"
  have "packet_datagram a p ft fi (Address_from t) payload = message ?cmd None @ addr_wire (Address_from t) @ payload"
    by (simp add: packet_datagram_def message_def)
  moreover have "handle_packet ''uni stream packet'' a (of_nat (length payload)) (addr_wire (Address_from t) @ payload) s =
      (Ok (), s\<lparr>ic_udp := ic_udp s @ [(a, t, payload)]\<rparr>)"
    using t len by (simp add: handle_packet_payload)
  ultimately show "handle_uni_stream rops q recv s = (Ok (), s\<lparr>ic_udp := ic_udp s @ [(a, t, payload)]\<rparr>)"
    using data by (subst handle_uni_stream_message [where cmd = ?cmd and rest = "addr_wire (Address_from t) @ payload"]) simp_all
qed

theorem unauthenticated_handlers_witness:
  "handle_bi_stream byte_stream (\<lambda>_ _ _. None) [5, 3, 0, 9] (InboundCtx_new sample_users) = (Ok (), InboundCtx_new sample_users) \<and>
   handle_uni_stream byte_stream (sample_quinn 1200) [5, 3, 0, 9] (InboundCtx_new sample_users) = (Ok (), InboundCtx_new sample_users)"
  using unauthenticated_handlers [of "InboundCtx_new sample_users" byte_stream "\<lambda>_ _ _. None" "[5, 3, 0, 9]" "[]" 9 "sample_quinn 1200"]
  by (simp add: InboundCtx_new_def byte_stream_def message_def VER_def u16_to_be_bytes_def fun_upd_idem)

section \<open>Panics\<close>

lemma handle_packet_wire:
  assumes "addr_ok addr"
  shows "fst (handle_packet ctxt a sz (addr_wire addr @ rest) s) = Panic \<longleftrightarrow> length rest < unat sz"
  using assms address_to_target_no_panic [of addr]
  by (cases "address_to_target addr")
     (simp_all add: handle_packet_def decode_address_wire split_to_def handle_udp_packet_def)

lemma handle_packet_panics_iff:
  "fst (handle_packet ctxt a sz buf s) = Panic \<longleftrightarrow>
     (\<exists>addr rest. addr_ok addr \<and> buf = addr_wire addr @ rest \<and> length rest < unat sz)"
    (is "?L \<longleftrightarrow> ?R")
proof
  assume ?R
  then show ?L by (auto simp: handle_packet_wire)
next
  assume L: ?L
  then obtain addr rest where "decode_address ctxt buf = (Ok addr, rest)"
    using decode_no_panic(3) [of ctxt buf] by (auto simp: handle_packet_def split: prod.splits result.splits)
  then have "addr_ok addr" and "buf = addr_wire addr @ rest"
    by (simp_all add: decode_address_def addr.complete_Ok_iff)
  with L show ?R by (auto simp: handle_packet_wire)
qed

text \<open>
  C31. When the handler of a unidirectional stream panics. Its panics are exactly the streams that carry
  a packet command whose size field announces more payload than follows the address. No
  authentication is needed for one.
\<close>

theorem handle_uni_stream_panics_iff:
  assumes "fst (read_to_end rops 65536 recv) = Ok data"
  shows "fst (handle_uni_stream rops q recv s) = Panic \<longleftrightarrow>
    (\<exists>a p ft fi sz addr rest. addr_ok addr \<and> length rest < unat sz \<and>
       data = message (Packet a p ft fi sz) (Some addr) @ rest)"
    (is "?L \<longleftrightarrow> ?R")
proof
  assume ?R
  then obtain a p ft fi sz addr rest where ok: "addr_ok addr" "length rest < unat sz"
    and "data = message (Packet a p ft fi sz) None @ addr_wire addr @ rest"
    by (auto simp: message_def)
  with assms have "handle_uni_stream rops q recv s =
      handle_packet ''uni stream packet'' a sz (addr_wire addr @ rest) s"
    by (subst handle_uni_stream_message [where cmd = "Packet a p ft fi sz" and rest = "addr_wire addr @ rest"]) simp_all
  moreover have "fst (handle_packet ''uni stream packet'' a sz (addr_wire addr @ rest) s) = Panic"
    unfolding handle_packet_panics_iff using ok by blast
  ultimately show ?L by simp
next
  assume L: ?L
  show ?R
  proof (cases rule: decode_head_cases [where data = data and c = "''uni stream''"])
    case (1 cmd rest)
    note step = handle_uni_stream_message [where cmd = cmd and rest = rest, OF assms [unfolded 1(2)] 1(1), of q s]
    show ?thesis
    proof (cases cmd)
      case (Packet a p ft fi sz)
      with L step obtain addr r where "addr_ok addr" "rest = addr_wire addr @ r" "length r < unat sz"
        by (auto simp: handle_packet_panics_iff)
      moreover from this have "data = message (Packet a p ft fi sz) (Some addr) @ r"
        using 1 Packet by (simp add: message_def)
      ultimately show ?thesis by blast
    next
      case (Auth u t)
      with L step show ?thesis
        by (cases rule: handle_auth_cases [of q s u t]) simp_all
    qed (use L step in \<open>simp_all add: handle_dissociate_def\<close>)
  next
    case (2 e rest)
    with L assms show ?thesis by (simp add: handle_uni_stream_def)
  qed
qed

theorem handle_uni_stream_panics_iff_witness:
  "fst (handle_uni_stream byte_stream (sample_quinn 1200) [5, 2, 0, 1, 0, 0, 1, 0, 0, 9, 1, 10, 0, 0, 1, 0, 53, 7]
     (InboundCtx_new sample_users)) = Panic"
proof -
  have "addr_ok (IPv4 (Ipv4Addr 10 0 0 1) 53) \<and> length [7 :: u8] < unat (9 :: u16) \<and>
      [5, 2, 0, 1, 0, 0, 1, 0, 0, 9, 1, 10, 0, 0, 1, 0, 53, 7] = message (Packet 1 0 1 0 9) (Some (IPv4 (Ipv4Addr 10 0 0 1) 53)) @ [7]"
    by (simp add: message_def VER_def u16_to_be_bytes_def)
  then show ?thesis
    by (subst handle_uni_stream_panics_iff [where data = "[5, 2, 0, 1, 0, 0, 1, 0, 0, 9, 1, 10, 0, 0, 1, 0, 53, 7]"])
       (simp add: byte_stream_def, blast)
qed

section \<open>TCP relaying\<close>

lemma handle_bi_stream_message:
  assumes "recv_ok rops content" and "ic_uuid s = Some uuid" and "target_ok t"
    and "content recv = Some (message Connect (Some (Address_from t)) @ extra)"
  shows "if length (addr_wire (Address_from t) @ extra) \<le> 512
    then \<exists>recv'. content recv' = Some [] \<and>
      handle_bi_stream rops cb recv s =
        (case cb (ic_tcp s) t recv' of None \<Rightarrow> Ok () | Some e \<Rightarrow> Err (EMsg e), s\<lparr>ic_tcp := ic_tcp s @ [(t, recv')]\<rparr>)
    else \<exists>e. handle_bi_stream rops cb recv s = (Err e, s)"
proof -
  let ?addr = "addr_wire (Address_from t) @ extra"
  have recv: "content recv = Some ([VER, 1] @ ?addr)"
    using assms(4) by (simp add: message_def)
  obtain recv1 where r1: "read_exact rops 2 recv = (Ok [VER, 1], recv1)" and c1: "content recv1 = Some ?addr"
    using recv_exact [OF assms(1) recv, of 2] by auto
  have head: "fst (decode_header ''bi stream'' [VER, 1]) = Ok (Header_new TyConnect)"
    using decode_header_wire [of TyConnect "''bi stream''" "[]"] by simp
  have cmd: "fst (decode_command TyConnect ''bi stream'' []) = Ok Connect"
    using decode_command_wire [of TyConnect Connect "''bi stream''" "[]"] by simp
  have step: "handle_bi_stream rops cb recv s = handle_connect rops cb recv1 s"
    using assms(2) by (simp add: handle_bi_stream_def r1 head Header_new_def)
  show ?thesis
  proof (cases "length ?addr \<le> 512")
    case True
    obtain recv2 where r2: "read_to_end rops 512 recv1 = (Ok ?addr, recv2)" and "content recv2 = Some []"
      using recv_to_end [OF assms(1) c1 True] by auto
    moreover have "fst (decode_address ''bi stream'' ?addr) = Ok (Address_from t)"
      using assms(3) by (simp add: decode_address_wire)
    ultimately show ?thesis
      using True step by (auto simp: handle_connect_def cmd call_handle_tcpstream_def)
  next
    case False
    then obtain e recv2 where "read_to_end rops 512 recv1 = (Err e, recv2)"
      using recv_to_end_long [OF assms(1) c1, of 512] by (metis not_le)
    with False step show ?thesis
      by (simp add: handle_connect_def cmd)
  qed
qed

text \<open>
  C29. A connect request on an authenticated connection. If the client finishes the stream after the
  address and at most 512 bytes in all, the callback is called once, with the requested target and
  a receive half from which nothing can be read any more: whatever the client sent after the address
  has been read with the address and is lost. If more than 512 bytes follow the header, the request
  fails and the callback is not called.
\<close>

theorem handle_bi_stream_connect:
  assumes "recv_ok rops content" and "ic_uuid s = Some uuid" and "target_ok t"
    and "content recv = Some (message Connect (Some (Address_from t)) @ extra)"
  shows "if length (addr_wire (Address_from t) @ extra) \<le> 512
    then \<exists>recv'. content recv' = Some [] \<and>
      handle_bi_stream rops cb recv s =
        (case cb (ic_tcp s) t recv' of None \<Rightarrow> Ok () | Some e \<Rightarrow> Err (EMsg e), s\<lparr>ic_tcp := ic_tcp s @ [(t, recv')]\<rparr>)
    else \<exists>e. handle_bi_stream rops cb recv s = (Err e, s)"
  by (rule handle_bi_stream_message [OF assms])

theorem handle_bi_stream_connect_witness:
  "\<exists>recv'. handle_bi_stream byte_stream (\<lambda>_ _ _. None) [5, 1, 1, 10, 0, 0, 1, 0, 80, 71, 69, 84]
     ((InboundCtx_new sample_users)\<lparr>ic_uuid := Some (replicate 16 1)\<rparr>) =
   (Ok (), (InboundCtx_new sample_users)\<lparr>ic_uuid := Some (replicate 16 1), ic_tcp := [(TIPv4 (Ipv4Addr 10 0 0 1) 80, recv')]\<rparr>) \<and> recv' = []"
  using handle_bi_stream_connect [OF byte_stream_ok, where s = "(InboundCtx_new sample_users)\<lparr>ic_uuid := Some (replicate 16 1)\<rparr>"
      and t = "TIPv4 (Ipv4Addr 10 0 0 1) 80" and extra = "[71, 69, 84]" and recv = "[5, 1, 1, 10, 0, 0, 1, 0, 80, 71, 69, 84]"
      and cb = "\<lambda>_ _ _. None"]
  by (simp add: InboundCtx_new_def message_def VER_def u16_to_be_bytes_def)

section \<open>The authentication timer\<close>

text \<open>
  C30. The authentication timeout. If no authentication command with a valid token has arrived when the
  timer fires, the server closes the connection with code 0 and reason \<^verbatim>\<open>auth timeout\<close>; if the
  connection is authenticated by then, the timer changes nothing.
\<close>

theorem auth_timeout_closes:
  assumes "conn_run rops q cb (Serving (InboundCtx_new users)) evs (Serving s)"
    and "\<forall>ev \<in> set evs. \<forall>uuid. \<not> auth_event rops q users uuid ev"
  shows "conn_run rops q cb (Serving (InboundCtx_new users)) (evs @ [AuthTimer])
      (Serving (s\<lparr>ic_conn := ic_conn s @ [Close 0 (as_bytes ''auth timeout'')]\<rparr>)) \<and>
    (\<forall>uuid. auth_timeout_task (s\<lparr>ic_uuid := Some uuid\<rparr>) = s\<lparr>ic_uuid := Some uuid\<rparr>)"
proof -
  have "ic_uuid s = None"
    using conn_run_auth [OF assms(1)] assms(2) by (cases "ic_uuid s") (auto simp: InboundCtx_new_def)
  then have "auth_timeout_task s = s\<lparr>ic_conn := ic_conn s @ [Close 0 (as_bytes ''auth timeout'')]\<rparr>"
    by (simp add: auth_timeout_task_def)
  with conn_run.step [OF assms(1) conn_step.timer] show ?thesis
    by (simp add: auth_timeout_task_def)
qed

theorem auth_timeout_closes_witness:
  "conn_run byte_stream (sample_quinn 1200) (\<lambda>_ _ _. None) (Serving (InboundCtx_new sample_users)) ([] @ [AuthTimer])
     (Serving ((InboundCtx_new sample_users)\<lparr>ic_conn := [Close 0 (as_bytes ''auth timeout'')]\<rparr>))"
  using auth_timeout_closes [OF conn_run.start, where users = sample_users and rops = byte_stream and q = "sample_quinn 1200" and cb = "\<lambda>_ _ _. None"]
  by (simp add: InboundCtx_new_def)

text \<open>
  C34. A failed authentication. A command with an unknown user or a wrong token makes its handler fail,
  and that is all: the connection keeps serving in the same state, is not closed, and the client may
  try again.
\<close>

theorem failed_auth_keeps_serving:
  assumes "command_wf (Auth uuid token)" and "\<not> token_valid q (ic_users s) uuid token"
    and "fst (read_to_end rops 65536 recv) = Ok (message (Auth uuid token) None)"
  shows "(\<exists>e. handle_uni_stream rops q recv s = (Err (EMsg e), s)) \<and>
    conn_step rops q cb (Serving s) (AcceptUni (Ok recv)) (Serving s)"
proof -
  have "handle_uni_stream rops q recv s = handle_auth q uuid token s"
    using assms(1,3) by (subst handle_uni_stream_message [where cmd = "Auth uuid token" and rest = "[]"]) simp_all
  with handle_auth_invalid [OF assms(2)] have "\<exists>e. handle_uni_stream rops q recv s = (Err (EMsg e), s)"
    by simp
  with conn_step.uni [of rops q cb s recv] show ?thesis
    by (auto simp: after_handler_def)
qed

theorem failed_auth_keeps_serving_witness:
  "conn_step byte_stream (sample_quinn 1200) (\<lambda>_ _ _. None) (Serving (InboundCtx_new sample_users))
     (AcceptUni (Ok (message (Auth (replicate 16 1) (replicate 32 8)) None))) (Serving (InboundCtx_new sample_users))"
proof -
  have "\<not> token_valid (sample_quinn 1200) (ic_users (InboundCtx_new sample_users :: bytes InboundCtx)) (replicate 16 1) (replicate 32 8)"
    by (simp add: token_valid_def InboundCtx_new_def sample_users_def sample_quinn_def)
  moreover have "fst (read_to_end byte_stream 65536 (message (Auth (replicate 16 1) (replicate 32 8)) None)) =
      Ok (message (Auth (replicate 16 1) (replicate 32 8)) None)"
    by (simp add: byte_stream_def message_def)
  ultimately show ?thesis
    using failed_auth_keeps_serving [of "replicate 16 1" "replicate 32 8" "sample_quinn 1200" "InboundCtx_new sample_users" byte_stream] by simp
qed

section \<open>Datagrams\<close>

lemma handle_datagram_packet:
  assumes "ic_uuid s \<noteq> None"
  shows "handle_datagram (message (Packet a p ft fi sz) None @ rest) s = handle_packet ''datagram packet'' a sz rest s"
proof -
  let ?cmd = "Packet a p ft fi sz"
  have "decode_header ''datagram'' (message ?cmd None @ rest) = (Ok (Header_new TyPacket), cmd_wire ?cmd @ rest)"
    using decode_header_wire [of TyPacket "''datagram''" "cmd_wire ?cmd @ rest"] by (simp add: message_def)
  moreover have "decode_command TyPacket ''datagram'' (cmd_wire ?cmd @ rest) = (Ok ?cmd, rest)"
    by (rule decode_command_wire) simp
  ultimately show ?thesis
    using assms by (auto simp: handle_datagram_def Header_new_def simp del: cmd_wire.simps)
qed

end
