(* ===== verification/Tuic_Server.thy ===== *)
theory Tuic_Server
  imports Tuic_Inbound
begin

text \<open>
  The server around its connections, from \<^verbatim>\<open>crates/wind-tuic/src/inbound.rs\<close>: the options, the QUIC and
  TLS configuration made from them, and the accept loop, which handles one connection after the
  other. \<^verbatim>\<open>rustls\<close> and \<^verbatim>\<open>quinn\<close> enter as the checks they make (\<open>tls_ops\<close>) and as what an incoming
  connection does: how its handshake ends and which events its streams give. Durations are in
  milliseconds.

  The loop of a connection, a step relation in \<open>Tuic_Inbound\<close>, is run here as a function;
  \<open>conn_run_exec\<close> shows that a run of the relation is the run of the function.
\<close>

section \<open>Options and configuration\<close>

record TuicInboundOpts =
  io_listen_addr :: SocketAddr
  io_certificate :: "bytes list"
  io_private_key :: bytes
  io_alpn :: "string list"
  io_users :: "uuid \<rightharpoonup> string"
  io_auth_timeout :: nat
  io_max_idle_time :: nat
  io_max_concurrent_bi_streams :: u32
  io_max_concurrent_uni_streams :: u32
  io_send_window :: u64
  io_receive_window :: u32
  io_zero_rtt :: bool
  io_initial_mtu :: u16
  io_min_mtu :: u16
  io_gso :: bool

definition TuicInboundOpts_default :: TuicInboundOpts where
  "TuicInboundOpts_default = \<lparr>
     io_listen_addr = SockV4 (Ipv4Addr 0 0 0 0) 443, io_certificate = [], io_private_key = [], io_alpn = [''h3''],
     io_users = Map.empty, io_auth_timeout = 3000, io_max_idle_time = 15000,
     io_max_concurrent_bi_streams = 32, io_max_concurrent_uni_streams = 32,
     io_send_window = 8 * 1024 * 1024, io_receive_window = 8 * 1024 * 1024,
     io_zero_rtt = False, io_initial_mtu = 1200, io_min_mtu = 1200, io_gso = True\<rparr>"

text \<open>The parts of the configuration the program sets; a new TLS configuration has no early data.\<close>

record server_crypto =
  cr_certificate :: "bytes list"
  cr_private_key :: bytes
  cr_alpn_protocols :: "bytes list"
  cr_max_early_data_size :: u32
  cr_send_half_rtt_data :: bool

record server_transport =
  tp_max_concurrent_bidi_streams :: u32
  tp_max_concurrent_uni_streams :: u32
  tp_send_window :: u64
  tp_stream_receive_window :: u32
  tp_max_idle_timeout :: nat
  tp_initial_mtu :: u16
  tp_min_mtu :: u16
  tp_segmentation_offload :: bool

record ServerConfig =
  sc_crypto :: server_crypto
  sc_transport :: server_transport

record tls_ops =
  with_single_cert :: "bytes list \<Rightarrow> bytes \<Rightarrow> string option"
  quic_server_config :: "server_crypto \<Rightarrow> string option"
  idle_timeout_ok :: "nat \<Rightarrow> bool"

definition create_server_config :: "tls_ops \<Rightarrow> TuicInboundOpts \<Rightarrow> (ServerConfig, string) result" where
  "create_server_config tls opts = (case with_single_cert tls (io_certificate opts) (io_private_key opts) of
     Some e \<Rightarrow> Err (''Failed to configure TLS certificate: '' @ e)
   | None \<Rightarrow>
       let crypto = \<lparr>cr_certificate = io_certificate opts, cr_private_key = io_private_key opts,
             cr_alpn_protocols = map as_bytes (io_alpn opts), cr_max_early_data_size = 0, cr_send_half_rtt_data = False\<rparr>;
           crypto = (if io_zero_rtt opts then crypto\<lparr>cr_max_early_data_size := 4294967295, cr_send_half_rtt_data := True\<rparr> else crypto)
       in (case quic_server_config tls crypto of
             Some e \<Rightarrow> Err (''Failed to create QUIC server config: '' @ e)
           | None \<Rightarrow>
               if \<not> idle_timeout_ok tls (io_max_idle_time opts) then Err ''Invalid max idle time''
               else Ok \<lparr>sc_crypto = crypto, sc_transport = \<lparr>
                   tp_max_concurrent_bidi_streams = io_max_concurrent_bi_streams opts,
                   tp_max_concurrent_uni_streams = io_max_concurrent_uni_streams opts,
                   tp_send_window = io_send_window opts,
                   tp_stream_receive_window = io_receive_window opts,
                   tp_max_idle_timeout = io_max_idle_time opts,
                   tp_initial_mtu = io_initial_mtu opts,
                   tp_min_mtu = io_min_mtu opts,
                   tp_segmentation_offload = io_gso opts\<rparr>\<rparr>))"

section \<open>One connection\<close>

fun conn_next :: "'r recv_ops \<Rightarrow> quinn \<Rightarrow> 'r callback \<Rightarrow> 'r conn_state \<Rightarrow> 'r conn_event \<Rightarrow> 'r conn_state option" where
  "conn_next rops q cb (Serving s) (AcceptUni (Ok recv)) = Some (after_handler (handle_uni_stream rops q recv s))"
| "conn_next rops q cb (Serving s) (AcceptUni (Err e)) = Some (Closed s)"
| "conn_next rops q cb (Serving s) (AcceptBi (Ok recv)) = Some (after_handler (handle_bi_stream rops cb recv s))"
| "conn_next rops q cb (Serving s) (AcceptBi (Err e)) = Some (Closed s)"
| "conn_next rops q cb (Serving s) (ReadDatagram (Ok data)) = Some (after_handler (handle_datagram data s))"
| "conn_next rops q cb (Serving s) (ReadDatagram (Err e)) = Some (Closed s)"
| "conn_next rops q cb (Serving s) AuthTimer = Some (Serving (auth_timeout_task s))"
| "conn_next rops q cb (Closed s) AuthTimer = Some (Closed (auth_timeout_task s))"
| "conn_next rops q cb _ _ = None"

text \<open>Events after the loop has ended are not looked at.\<close>

fun conn_exec :: "'r recv_ops \<Rightarrow> quinn \<Rightarrow> 'r callback \<Rightarrow> 'r conn_event list \<Rightarrow> 'r conn_state \<Rightarrow> 'r conn_state" where
  "conn_exec rops q cb [] st = st"
| "conn_exec rops q cb (ev # evs) st = (case conn_next rops q cb st ev of
     Some st' \<Rightarrow> conn_exec rops q cb evs st'
   | None \<Rightarrow> conn_exec rops q cb evs st)"

lemma conn_step_iff_next: "conn_step rops q cb st ev st' \<longleftrightarrow> conn_next rops q cb st ev = Some st'"
proof
  show "conn_next rops q cb st ev = Some st'" if "conn_step rops q cb st ev st'"
    using that by cases simp_all
next
  assume "conn_next rops q cb st ev = Some st'"
  then show "conn_step rops q cb st ev st'"
    by (cases "(rops, q, cb, st, ev)" rule: conn_next.cases) (auto intro: conn_step.intros)
qed

lemma conn_exec_append: "conn_exec rops q cb (evs @ evs') st = conn_exec rops q cb evs' (conn_exec rops q cb evs st)"
  by (induction evs arbitrary: st) (simp_all split: option.split)

lemma conn_run_exec: "conn_run rops q cb st evs st' \<Longrightarrow> conn_exec rops q cb evs st = st'"
  by (induction rule: conn_run.induct) (simp_all add: conn_exec_append conn_step_iff_next)

text \<open>A handshake that may fail, and the events of the connection once it stands.\<close>

record 'r incoming =
  inc_accept :: "string option"
  inc_0rtt :: bool
  inc_await :: "string option"
  inc_quinn :: quinn
  inc_events :: "'r conn_event list"

text \<open>
  \<open>Err\<close> and \<open>Ok\<close> are the result when the connection is over, \<open>Panic\<close> a panic inside it; \<open>None\<close>: it
  is still being served.
\<close>

definition connection_result :: "'r conn_state \<Rightarrow> (unit, string) result option" where
  "connection_result st = (case st of Serving _ \<Rightarrow> None | Closed _ \<Rightarrow> Some (Ok ()) | Panicked _ \<Rightarrow> Some Panic)"

definition handle_connection :: "'r recv_ops \<Rightarrow> 'r callback \<Rightarrow> (uuid \<rightharpoonup> string) \<Rightarrow> bool \<Rightarrow> 'r incoming \<Rightarrow>
    (unit, string) result option \<times> 'r InboundCtx option" where
  "handle_connection rops cb users zero_rtt inc = (case inc_accept inc of
     Some e \<Rightarrow> (Some (Ok ()), None)
   | None \<Rightarrow>
       (case (if zero_rtt \<and> inc_0rtt inc then None else inc_await inc) of
          Some e \<Rightarrow> (Some (Err (''Failed to establish QUIC connection: '' @ e)), None)
        | None \<Rightarrow>
            let st = conn_exec rops (inc_quinn inc) cb (inc_events inc) (Serving (InboundCtx_new users))
            in (connection_result st, Some (ctx_of st))))"

section \<open>The accept loop\<close>

datatype 'r listen_event = ListenCancelled | Incoming "'r incoming"
datatype listen_status = Waiting | Busy | ListenStopped | ListenPanicked

text \<open>
  \<open>Waiting\<close> for the next connection, \<open>Busy\<close> with one, stopped by cancellation, or unwound by a
  panic. The contexts of the connections are collected. While a connection is being served the loop
  sees no other event, not even the cancellation.
\<close>

fun listen_loop :: "'r recv_ops \<Rightarrow> 'r callback \<Rightarrow> TuicInboundOpts \<Rightarrow> 'r listen_event list \<Rightarrow> 'r InboundCtx list \<Rightarrow>
    listen_status \<times> 'r InboundCtx list" where
  "listen_loop rops cb opts [] ctxs = (Waiting, ctxs)"
| "listen_loop rops cb opts (ListenCancelled # evs) ctxs = (ListenStopped, ctxs)"
| "listen_loop rops cb opts (Incoming inc # evs) ctxs =
     (case handle_connection rops cb (io_users opts) (io_zero_rtt opts) inc of
        (r, c) \<Rightarrow>
          let ctxs' = ctxs @ (case c of None \<Rightarrow> [] | Some s \<Rightarrow> [s]) in
          (case r of
             None \<Rightarrow> (Busy, ctxs')
           | Some Panic \<Rightarrow> (ListenPanicked, ctxs')
           | Some _ \<Rightarrow> listen_loop rops cb opts evs ctxs'))"

text \<open>\<open>bind\<close> and \<open>endpoint\<close> are the errors of binding the socket and creating the endpoint.\<close>

definition TuicInbound_listen ::
  "tls_ops \<Rightarrow> string option \<Rightarrow> string option \<Rightarrow> 'r recv_ops \<Rightarrow> 'r callback \<Rightarrow> TuicInboundOpts \<Rightarrow> 'r listen_event list \<Rightarrow>
     (listen_status \<times> 'r InboundCtx list, string) result" where
  "TuicInbound_listen tls bind endpoint rops cb opts evs = (case create_server_config tls opts of
     Err e \<Rightarrow> Err e
   | Panic \<Rightarrow> Panic
   | Ok config \<Rightarrow>
       (case bind of
          Some e \<Rightarrow> Err (''Failed to bind socket: '' @ e)
        | None \<Rightarrow>
            (case endpoint of
               Some e \<Rightarrow> Err (''Failed to create QUIC endpoint: '' @ e)
             | None \<Rightarrow> Ok (listen_loop rops cb opts evs []))))"

section \<open>A connection that panics\<close>

lemma handle_uni_stream_oversized:
  assumes "fst (read_to_end rops 65536 recv) = Ok (message (Packet a p ft fi sz) (Some addr) @ rest)"
    and "addr_ok addr" and "length rest < unat sz"
  shows "handle_uni_stream rops q recv s = (Panic, s)"
proof -
  have "message (Packet a p ft fi sz) (Some addr) @ rest = message (Packet a p ft fi sz) None @ addr_wire addr @ rest"
    by (simp add: message_def)
  then have "handle_uni_stream rops q recv s = handle_packet ''uni stream packet'' a sz (addr_wire addr @ rest) s"
    using assms(1) by (subst handle_uni_stream_message [where cmd = "Packet a p ft fi sz" and rest = "addr_wire addr @ rest"]) simp_all
  also have "\<dots> = (Panic, s)"
    using assms(2,3) by (simp add: handle_packet_def decode_address_wire split_to_def)
  finally show ?thesis .
qed

lemma conn_exec_panicked: "conn_exec rops q cb evs (Panicked s) = Panicked s"
  by (induction evs) simp_all

lemma listen_loop_append:
  assumes "listen_loop rops cb opts pre ctxs = (Waiting, ctxs')"
  shows "listen_loop rops cb opts (pre @ post) ctxs = listen_loop rops cb opts post ctxs'"
  using assms
proof (induction rops cb opts pre ctxs rule: listen_loop.induct)
  case (3 rops cb opts inc evs ctxs)
  then show ?case
    by (cases "handle_connection rops cb (io_users opts) (io_zero_rtt opts) inc")
       (auto simp: Let_def split: option.splits result.splits)
qed simp_all

text \<open>
  C32. One stream stops the server. Suppose the accept loop is waiting for the next connection, after
  whatever came before. A client that completes the handshake and, without authenticating, sends a
  packet command on a unidirectional stream whose size field announces more bytes than follow ends
  the loop: it unwinds with a panic, and no later connection is served.
\<close>

theorem malformed_packet_stops_server:
  assumes "listen_loop rops cb opts pre [] = (Waiting, ctxs)"
    and "inc_accept inc = None" and "inc_await inc = None" and "inc_events inc = AcceptUni (Ok recv) # evs"
    and "fst (read_to_end rops 65536 recv) = Ok (message (Packet a p ft fi sz) (Some addr) @ rest)"
    and "addr_ok addr" and "length rest < unat sz"
  shows "listen_loop rops cb opts (pre @ Incoming inc # post) [] =
    (ListenPanicked, ctxs @ [InboundCtx_new (io_users opts)])"
proof -
  have "handle_connection rops cb (io_users opts) (io_zero_rtt opts) inc = (Some Panic, Some (InboundCtx_new (io_users opts)))"
    using assms(2-4) handle_uni_stream_oversized [OF assms(5-7)]
    by (simp add: handle_connection_def after_handler_def conn_exec_panicked connection_result_def Let_def)
  with listen_loop_append [OF assms(1)] show ?thesis by simp
qed

definition sample_incoming :: "bytes incoming" where
  "sample_incoming = \<lparr>inc_accept = None, inc_0rtt = False, inc_await = None, inc_quinn = sample_quinn 1200,
     inc_events = [AcceptUni (Ok [5, 2, 0, 1, 0, 0, 1, 0, 0, 9, 1, 10, 0, 0, 1, 0, 53, 7])]\<rparr>"

theorem malformed_packet_stops_server_witness:
  "listen_loop byte_stream (\<lambda>_ _ _. None) TuicInboundOpts_default ([] @ Incoming sample_incoming # [ListenCancelled]) [] =
     (ListenPanicked, [] @ [InboundCtx_new Map.empty])"
proof -
  have "fst (read_to_end byte_stream 65536 [5, 2, 0, 1, 0, 0, 1, 0, 0, 9, 1, 10, 0, 0, 1, 0, 53, 7]) =
      Ok (message (Packet 1 0 1 0 9) (Some (IPv4 (Ipv4Addr 10 0 0 1) 53)) @ [7])"
    by (simp add: byte_stream_def message_def VER_def u16_to_be_bytes_def)
  from malformed_packet_stops_server [OF _ _ _ _ this, of "\<lambda>_ _ _. None" TuicInboundOpts_default "[]" "[]" sample_incoming "[]"
      "[ListenCancelled]"]
  show ?thesis by (simp add: sample_incoming_def TuicInboundOpts_default_def del: listen_loop.simps(3))
qed

end
