(* ===== verification/Socks_Inbound.thy ===== *)
theory Socks_Inbound
  imports Socks_Udp
begin

text \<open>
  The SOCKS5 server, \<^verbatim>\<open>crates/wind-socks/src/inbound.rs\<close>, \<^verbatim>\<open>ext.rs\<close> and \<^verbatim>\<open>lib.rs\<close>: the accept loop, one client
  connection from the handshake to the callback, and the setup of a UDP association. The protocol
  implementation is \<^verbatim>\<open>fast_socks5\<close>, a parameter: the operations \<open>socks_ops\<close> on an arbitrary type of
  client connections. \<open>socks_ok\<close> is its documented behaviour for password authentication: it
  succeeds only if the client has sent a user name and a password that the check accepts, and it
  reports failures as errors. The
  sockets of the system and the callback are parameters as well; the callback is asked for its
  answer with the calls made so far.
\<close>

section \<open>Options and errors\<close>

datatype AuthMode = NoAuth | Password string string

record SocksInboundOpt =
  so_listen_addr :: SocketAddr
  so_public_addr :: "IpAddr option"
  so_auth :: AuthMode
  so_skip_auth :: bool
  so_allow_udp :: bool

datatype SocksServerError = SocksEof | SocksBug string | SocksIo string | SocksOther string

datatype ReplyError = CommandNotSupported | OtherReply string

datatype SocksError =
    BindSocket SocketAddr string
  | SockIo string
  | Socks SocksServerError
  | SocksReply ReplyError
  | CallbackErr string

definition convert_addr :: "SocksTargetAddr \<Rightarrow> TargetAddr" where
  "convert_addr addr = (case addr of
     SDomain domain p \<Rightarrow> TDomain domain p
   | SIp socket_addr \<Rightarrow>
       (case ip socket_addr of
          IpV4 a \<Rightarrow> TIPv4 a (port socket_addr)
        | IpV6 a \<Rightarrow> TIPv6 a (port socket_addr)))"

section \<open>The protocol\<close>

datatype Socks5Command = TCPConnect | TCPBind | UDPAssociate

record 'p socks_ops =
  accept_no_auth :: "('p, unit, SocksServerError) comp"
  accept_password_auth :: "(string \<Rightarrow> string \<Rightarrow> bool) \<Rightarrow> ('p, unit, SocksServerError) comp"
  read_command :: "('p, Socks5Command \<times> SocksTargetAddr, SocksServerError) comp"
  reply_success :: "SocketAddr \<Rightarrow> ('p, unit, SocksServerError) comp"
  reply_error :: "ReplyError \<Rightarrow> ('p, unit, SocksServerError) comp"
  wait_on_tcp :: "('p, unit, SocksServerError) comp"

definition socks_ok :: "'p socks_ops \<Rightarrow> ('p \<Rightarrow> (string \<times> string) option) \<Rightarrow> bool" where
  "socks_ok ops credentials \<longleftrightarrow>
     (\<forall>check p. fst (accept_password_auth ops check p) = Ok () \<longrightarrow>
        (\<exists>user pass. credentials p = Some (user, pass) \<and> check user pass)) \<and>
     (\<forall>check p. fst (accept_password_auth ops check p) \<noteq> Panic)"

section \<open>Binding the UDP socket\<close>

text \<open>A socket: its family (IPv6 or not) and the address it is bound to.\<close>

record socket =
  sk_v6 :: bool
  sk_bound :: "SocketAddr option"

record sys_sockets =
  sys_new :: "bool \<Rightarrow> string option"
  sys_set_only_v6 :: "bool \<Rightarrow> string option"
  sys_bind :: "SocketAddr \<Rightarrow> string option"
  sys_set_nonblocking :: "bool \<Rightarrow> string option"
  sys_local_addr :: "socket \<Rightarrow> (SocketAddr option, string) result"

definition sys_result :: "string option \<Rightarrow> 'a \<Rightarrow> ('a, string) result" where
  "sys_result r x = (case r of None \<Rightarrow> Ok x | Some e \<Rightarrow> Err e)"

definition and_res :: "('a, 'e) result \<Rightarrow> ('a \<Rightarrow> ('b, 'e) result) \<Rightarrow> ('b, 'e) result" where
  "and_res r f = (case r of Ok x \<Rightarrow> f x | Err e \<Rightarrow> Err e | Panic \<Rightarrow> Panic)"

definition or_else :: "('a, 'e) result \<Rightarrow> ('e \<Rightarrow> ('a, 'e) result) \<Rightarrow> ('a, 'e) result" where
  "or_else r f = (case r of Ok x \<Rightarrow> Ok x | Err e \<Rightarrow> f e | Panic \<Rightarrow> Panic)"

fun is_v6 :: "SocketAddr \<Rightarrow> bool" where
  "is_v6 (SockV4 _ _) \<longleftrightarrow> False"
| "is_v6 (SockV6 _ _ _ _) \<longleftrightarrow> True"

definition socket_new :: "sys_sockets \<Rightarrow> bool \<Rightarrow> (socket, string) result" where
  "socket_new sys v6 = sys_result (sys_new sys v6) \<lparr>sk_v6 = v6, sk_bound = None\<rparr>"

definition socket_bind :: "sys_sockets \<Rightarrow> SocketAddr \<Rightarrow> socket \<Rightarrow> (socket, string) result" where
  "socket_bind sys a s = sys_result (sys_bind sys a) (s\<lparr>sk_bound := Some a\<rparr>)"

definition V4_UNSPEC :: SocketAddr where
  "V4_UNSPEC = SocketAddr_new (IpV4 ipv4_unspecified) 0"

definition V6_UNSPEC :: SocketAddr where
  "V6_UNSPEC = SocketAddr_new (IpV6 ipv6_unspecified) 0"

definition udp_bind_random_port :: "sys_sockets \<Rightarrow> IpAddr option \<Rightarrow> (socket, string) result" where
  "udp_bind_random_port sys addr = (case addr of
     Some a \<Rightarrow>
       let sock_addr = SocketAddr_new a 0 in
       and_res (socket_new sys (is_v6 sock_addr)) (\<lambda>s.
       and_res (socket_bind sys sock_addr s) (\<lambda>s.
       sys_result (sys_set_nonblocking sys True) s))
   | None \<Rightarrow>
       and_res
         (or_else
           (and_res (and_res (socket_new sys True) (\<lambda>s. sys_result (sys_set_only_v6 sys False) s)) (socket_bind sys V6_UNSPEC))
           (\<lambda>_. and_res (socket_new sys False) (socket_bind sys V4_UNSPEC)))
         (\<lambda>s. sys_result (sys_set_nonblocking sys True) s))"

section \<open>One client\<close>

text \<open>
  The state while clients are served: the client's connection, the targets of the TCP streams handed to the
  callback, and the number of UDP sockets handed to it.
\<close>

record 'p SocksCtx =
  sx_client :: 'p
  sx_tcp :: "TargetAddr list"
  sx_udp :: "socket list"

type_synonym 'p socks_handler = "('p SocksCtx, unit, SocksError) comp"

record socks_callback =
  cb_tcp :: "TargetAddr list \<Rightarrow> TargetAddr \<Rightarrow> string option"
  cb_udp :: "socket list \<Rightarrow> socket \<Rightarrow> string option"

text \<open>An operation of the protocol; its errors become \<open>Socks\<close> errors.\<close>

definition on_client :: "('p, 'a, SocksServerError) comp \<Rightarrow> ('p SocksCtx, 'a, SocksError) comp" where
  "on_client m = mapping_err Socks (zoom sx_client (\<lambda>p c. c\<lparr>sx_client := p\<rparr>) m)"

definition handle_tcpstream :: "socks_callback \<Rightarrow> TargetAddr \<Rightarrow> 'p socks_handler" where
  "handle_tcpstream cb target c =
     (case cb_tcp cb (sx_tcp c) target of None \<Rightarrow> Ok () | Some e \<Rightarrow> Err (CallbackErr e),
      c\<lparr>sx_tcp := sx_tcp c @ [target]\<rparr>)"

text \<open>\<^verbatim>\<open>Socks5UdpSocket::new\<close> can fail (\<open>sock_new\<close>); otherwise the socket goes to the callback.\<close>

definition udp_transfer :: "socks_callback \<Rightarrow> string option \<Rightarrow> socket \<Rightarrow> 'p socks_handler" where
  "udp_transfer cb sock_new s c = (case sock_new of
     Some e \<Rightarrow> (Err (SockIo e), c)
   | None \<Rightarrow>
       (case cb_udp cb (sx_udp c) s of None \<Rightarrow> Ok () | Some e \<Rightarrow> Err (CallbackErr e),
        c\<lparr>sx_udp := sx_udp c @ [s]\<rparr>))"

text \<open>Report an error to the client and return it (the macro \<^verbatim>\<open>try_notify\<close>).\<close>

definition try_notify :: "'p socks_ops \<Rightarrow> (SocksServerError \<Rightarrow> ReplyError) \<Rightarrow> ('a, SocksServerError) result \<Rightarrow>
    ('a \<Rightarrow> 'p socks_handler) \<Rightarrow> 'p socks_handler" where
  "try_notify ops to_reply r k c = (case r of
     Ok x \<Rightarrow> k x c
   | Err e \<Rightarrow> (Err (Socks e), snd (on_client (reply_error ops (to_reply e)) c))
   | Panic \<Rightarrow> (Panic, c))"

text \<open>
  \<open>run_udp_proxy\<close>: the two futures run until one of them fails or both are done; whatever they
  return is logged and the result is \<open>Ok\<close>.
\<close>

definition run_udp_proxy ::
  "'p socks_ops \<Rightarrow> sys_sockets \<Rightarrow> (SocksServerError \<Rightarrow> ReplyError) \<Rightarrow> IpAddr option \<Rightarrow> IpAddr \<Rightarrow>
     (socket \<Rightarrow> 'p socks_handler) \<Rightarrow> 'p socks_handler" where
  "run_udp_proxy ops sys to_reply peer_bind_ip reply_ip transfer =
     try_notify ops to_reply (map_err SocksIo (udp_bind_random_port sys peer_bind_ip)) (\<lambda>peer_sock.
     try_notify ops to_reply (map_err SocksIo (sys_local_addr sys peer_sock)) (\<lambda>peer_addr.
       case peer_addr of
         None \<Rightarrow> fail (Socks (SocksBug ''addr not IP''))
       | Some a \<Rightarrow>
           and_then (on_client (reply_success ops (SocketAddr_new reply_ip (port a)))) (\<lambda>_ c.
             (let (_, c1) = transfer peer_sock c; (_, c2) = on_client (wait_on_tcp ops) c1 in (Ok (), c2)))))"

definition handle_income ::
  "'p socks_ops \<Rightarrow> sys_sockets \<Rightarrow> (SocksServerError \<Rightarrow> ReplyError) \<Rightarrow> string option \<Rightarrow> socks_callback \<Rightarrow> SocksInboundOpt \<Rightarrow>
     'p socks_handler" where
  "handle_income ops sys to_reply sock_new cb opts =
     and_then (case so_auth opts of
         NoAuth \<Rightarrow> on_client (accept_no_auth ops)
       | Password username password \<Rightarrow>
           on_client (accept_password_auth ops (\<lambda>user pass. user = username \<and> pass = password))) (\<lambda>_.
     and_then (on_client (read_command ops)) (\<lambda>(cmd, target_addr).
       if cmd = TCPConnect then
         and_then (on_client (reply_success ops (SocketAddr_new (IpV4 (Ipv4Addr 127 0 0 1)) 0))) (\<lambda>_.
           handle_tcpstream cb (case target_addr of
              SIp (SockV4 a p) \<Rightarrow> TIPv4 a p
            | SIp (SockV6 a p _ _) \<Rightarrow> TIPv6 a p
            | SDomain domain p \<Rightarrow> TDomain domain p))
       else if cmd = UDPAssociate \<and> so_allow_udp opts then
         run_udp_proxy ops sys to_reply None (IpV4 (Ipv4Addr 127 0 0 1)) (udp_transfer cb sock_new)
       else
         and_then (on_client (reply_error ops CommandNotSupported)) (\<lambda>_. fail (SocksReply CommandNotSupported))))"

section \<open>The accept loop\<close>

datatype 'p socks_event = SocksCancelled | SocksAccept "('p, string) result"

datatype socks_status = SocksListening | SocksStopped | SocksPanicked

text \<open>
  Clients are served one after the other; the errors of accepting and of serving are logged. The calls of
  the callback are collected over all clients.
\<close>

fun socks_loop ::
  "'p socks_ops \<Rightarrow> sys_sockets \<Rightarrow> (SocksServerError \<Rightarrow> ReplyError) \<Rightarrow> string option \<Rightarrow> socks_callback \<Rightarrow> SocksInboundOpt \<Rightarrow>
     'p socks_event list \<Rightarrow> TargetAddr list \<times> socket list \<Rightarrow> socks_status \<times> TargetAddr list \<times> socket list" where
  "socks_loop ops sys to_reply sock_new cb opts [] calls = (SocksListening, calls)"
| "socks_loop ops sys to_reply sock_new cb opts (SocksCancelled # evs) calls = (SocksStopped, calls)"
| "socks_loop ops sys to_reply sock_new cb opts (SocksAccept (Ok client) # evs) calls =
     (case handle_income ops sys to_reply sock_new cb opts \<lparr>sx_client = client, sx_tcp = fst calls, sx_udp = snd calls\<rparr> of
        (r, c) \<Rightarrow>
          if r = Panic then (SocksPanicked, sx_tcp c, sx_udp c)
          else socks_loop ops sys to_reply sock_new cb opts evs (sx_tcp c, sx_udp c))"
| "socks_loop ops sys to_reply sock_new cb opts (SocksAccept _ # evs) calls =
     socks_loop ops sys to_reply sock_new cb opts evs calls"

definition SocksInbound_listen ::
  "string option \<Rightarrow> 'p socks_ops \<Rightarrow> sys_sockets \<Rightarrow> (SocksServerError \<Rightarrow> ReplyError) \<Rightarrow> string option \<Rightarrow> socks_callback \<Rightarrow>
     SocksInboundOpt \<Rightarrow> 'p socks_event list \<Rightarrow> (socks_status \<times> TargetAddr list \<times> socket list, string) result" where
  "SocksInbound_listen bind ops sys to_reply sock_new cb opts evs = (case bind of
     Some e \<Rightarrow> Err e
   | None \<Rightarrow> Ok (socks_loop ops sys to_reply sock_new cb opts evs ([], [])))"

section \<open>Calls of the callback\<close>

text \<open>A handler that makes at most \<open>n\<close> calls.\<close>

definition calls_at_most :: "nat \<Rightarrow> ('p SocksCtx, 'a, SocksError) comp \<Rightarrow> bool" where
  "calls_at_most n m \<longleftrightarrow> (\<forall>c. \<exists>ts us. sx_tcp (snd (m c)) = sx_tcp c @ ts \<and> sx_udp (snd (m c)) = sx_udp c @ us \<and>
     length ts + length us \<le> n)"

lemma calls_at_most_mono: "calls_at_most n m \<Longrightarrow> n \<le> n' \<Longrightarrow> calls_at_most n' m"
  unfolding calls_at_most_def by (meson le_trans)

lemma calls_at_most_no_change:
  "(\<And>c. sx_tcp (snd (m c)) = sx_tcp c \<and> sx_udp (snd (m c)) = sx_udp c) \<Longrightarrow> calls_at_most n m"
  unfolding calls_at_most_def by (auto intro!: exI [of _ "[]"])

lemma on_client_frame [simp]:
  "sx_tcp (snd (on_client m c)) = sx_tcp c" "sx_udp (snd (on_client m c)) = sx_udp c"
  by (simp_all add: on_client_def mapping_err_def zoom_def split_beta Let_def)

lemma on_client_calls: "calls_at_most n (on_client m)"
  by (rule calls_at_most_no_change) simp

lemma fail_calls: "calls_at_most n (fail e)"
  by (rule calls_at_most_no_change) (simp add: fail_def)

lemma and_then_calls:
  assumes "calls_at_most a m" and "\<And>x. calls_at_most b (k x)"
  shows "calls_at_most (a + b) (and_then m k)"
  unfolding calls_at_most_def
proof
  fix c
  obtain ts us where m: "sx_tcp (snd (m c)) = sx_tcp c @ ts" "sx_udp (snd (m c)) = sx_udp c @ us" "length ts + length us \<le> a"
    using assms(1) unfolding calls_at_most_def by blast
  show "\<exists>ts us. sx_tcp (snd (and_then m k c)) = sx_tcp c @ ts \<and> sx_udp (snd (and_then m k c)) = sx_udp c @ us \<and>
      length ts + length us \<le> a + b"
  proof (cases "fst (m c)")
    case (Ok x)
    obtain ts' us' where "sx_tcp (snd (k x (snd (m c)))) = sx_tcp (snd (m c)) @ ts'"
        "sx_udp (snd (k x (snd (m c)))) = sx_udp (snd (m c)) @ us'" "length ts' + length us' \<le> b"
      using assms(2) [of x] unfolding calls_at_most_def by blast
    with Ok m show ?thesis
      by (intro exI [of _ "ts @ ts'"] exI [of _ "us @ us'"]) (simp add: and_then_def split_beta)
  qed (use m in \<open>auto simp: and_then_def split_beta\<close>)
qed

lemma handle_tcpstream_calls: "calls_at_most 1 (handle_tcpstream cb t)"
  by (auto simp: calls_at_most_def handle_tcpstream_def)

lemma udp_transfer_calls: "calls_at_most 1 (udp_transfer cb sn s)"
  by (auto simp: calls_at_most_def udp_transfer_def split: option.split)

lemma try_notify_calls: "(\<And>x. calls_at_most n (k x)) \<Longrightarrow> calls_at_most n (try_notify ops tr r k)"
  by (cases r) (auto simp: calls_at_most_def try_notify_def intro!: exI [of _ "[]"])

lemma run_udp_proxy_calls:
  assumes "\<And>s. calls_at_most 1 (tr s)"
  shows "calls_at_most 1 (run_udp_proxy ops sys to_reply b rip tr)"
proof -
  have "calls_at_most 1 (\<lambda>c. (let (_, c1) = tr s c; (_, c2) = on_client (wait_on_tcp ops) c1 in (Ok (), c2)))" for s
    using assms [of s] by (simp add: calls_at_most_def split_beta Let_def)
  then have "calls_at_most (0 + 1) (and_then (on_client (reply_success ops x))
      (\<lambda>_ c. (let (_, c1) = tr s c; (_, c2) = on_client (wait_on_tcp ops) c1 in (Ok (), c2))))" for x s
    by (intro and_then_calls on_client_calls) simp
  then show ?thesis
    unfolding run_udp_proxy_def by (intro try_notify_calls) (simp add: fail_calls split: option.split)
qed

lemma handle_command_calls:
  "calls_at_most 1 (and_then (on_client (read_command ops)) (\<lambda>(cmd, target_addr).
       if cmd = TCPConnect then
         and_then (on_client (reply_success ops a)) (\<lambda>_. handle_tcpstream cb (f target_addr))
       else if cmd = UDPAssociate \<and> allow then
         run_udp_proxy ops sys to_reply None rip (udp_transfer cb sn)
       else and_then (on_client (reply_error ops CommandNotSupported)) (\<lambda>_. fail e)))"
proof -
  have "calls_at_most (0 + 1) (and_then (on_client (reply_success ops a)) (\<lambda>_. handle_tcpstream cb t))" for t
    by (intro and_then_calls on_client_calls handle_tcpstream_calls)
  moreover have "calls_at_most (0 + 1) (and_then (on_client (reply_error ops CommandNotSupported)) (\<lambda>_. fail e))"
    by (intro and_then_calls on_client_calls fail_calls)
  moreover have "calls_at_most 1 (run_udp_proxy ops sys to_reply None rip (udp_transfer cb sn))"
    by (intro run_udp_proxy_calls udp_transfer_calls)
  ultimately have "calls_at_most (0 + 1) (and_then (on_client (read_command ops)) (\<lambda>(cmd, target_addr).
       if cmd = TCPConnect then
         and_then (on_client (reply_success ops a)) (\<lambda>_. handle_tcpstream cb (f target_addr))
       else if cmd = UDPAssociate \<and> allow then
         run_udp_proxy ops sys to_reply None rip (udp_transfer cb sn)
       else and_then (on_client (reply_error ops CommandNotSupported)) (\<lambda>_. fail e)))"
    by (intro and_then_calls on_client_calls) (auto split: prod.split)
  then show ?thesis by simp
qed

text \<open>A client without the right credentials causes no call, any other client at most one.\<close>

lemma handle_income_calls:
  assumes "socks_ok ops credentials" and "so_auth opts = Password username password"
  obtains ts us where "sx_tcp (snd (handle_income ops sys to_reply sn cb opts c)) = sx_tcp c @ ts"
    and "sx_udp (snd (handle_income ops sys to_reply sn cb opts c)) = sx_udp c @ us"
    and "length ts + length us \<le> (if credentials (sx_client c) = Some (username, password) then 1 else 0)"
    and "credentials (sx_client c) \<noteq> Some (username, password) \<Longrightarrow>
      fst (handle_income ops sys to_reply sn cb opts c) \<noteq> Panic"
proof -
  let ?auth = "on_client (accept_password_auth ops (\<lambda>user pass. user = username \<and> pass = password))"
  define rest where "rest = and_then (on_client (read_command ops)) (\<lambda>(cmd, target_addr).
       if cmd = TCPConnect then
         and_then (on_client (reply_success ops (SocketAddr_new (IpV4 (Ipv4Addr 127 0 0 1)) 0))) (\<lambda>_.
           handle_tcpstream cb (case target_addr of
              SIp (SockV4 a p) \<Rightarrow> TIPv4 a p
            | SIp (SockV6 a p _ _) \<Rightarrow> TIPv6 a p
            | SDomain domain p \<Rightarrow> TDomain domain p))
       else if cmd = UDPAssociate \<and> so_allow_udp opts then
         run_udp_proxy ops sys to_reply None (IpV4 (Ipv4Addr 127 0 0 1)) (udp_transfer cb sn)
       else
         and_then (on_client (reply_error ops CommandNotSupported)) (\<lambda>_. fail (SocksReply CommandNotSupported)))"
  have run: "handle_income ops sys to_reply sn cb opts c = and_then ?auth (\<lambda>_. rest) c"
    by (simp add: handle_income_def assms(2) rest_def)
  show thesis
  proof (cases "credentials (sx_client c) = Some (username, password)")
    case True
    have "calls_at_most (0 + 1) (and_then ?auth (\<lambda>_. rest))"
      unfolding rest_def by (intro and_then_calls on_client_calls handle_command_calls)
    then have "calls_at_most 1 (and_then ?auth (\<lambda>_. rest))" by simp
    then obtain ts us where "sx_tcp (snd (and_then ?auth (\<lambda>_. rest) c)) = sx_tcp c @ ts"
        "sx_udp (snd (and_then ?auth (\<lambda>_. rest) c)) = sx_udp c @ us" "length ts + length us \<le> 1"
      unfolding calls_at_most_def by blast
    with True run show thesis by (intro that [of ts us]) simp_all
  next
    case False
    have "fst (accept_password_auth ops (\<lambda>user pass. user = username \<and> pass = password) (sx_client c)) \<noteq> Ok ()"
        "fst (accept_password_auth ops (\<lambda>user pass. user = username \<and> pass = password) (sx_client c)) \<noteq> Panic"
      using assms(1) False unfolding socks_ok_def by fastforce+
    then obtain e where "fst (?auth c) = Err e"
      by (cases "fst (accept_password_auth ops (\<lambda>user pass. user = username \<and> pass = password) (sx_client c))")
         (simp_all add: on_client_def mapping_err_def zoom_def split_beta Let_def)
    then have "and_then ?auth (\<lambda>_. rest) c = (Err e, snd (?auth c))"
      by (simp add: and_then_def split_beta)
    with False run show thesis by (intro that [of "[]" "[]"]) simp_all
  qed
qed

text \<open>The clients that have been accepted and have sent the given credentials.\<close>

definition authenticated_clients :: "('p \<Rightarrow> (string \<times> string) option) \<Rightarrow> string \<times> string \<Rightarrow> 'p socks_event list \<Rightarrow> 'p list" where
  "authenticated_clients credentials up evs =
     [p. SocksAccept (Ok p) \<leftarrow> evs, credentials p = Some up]"

lemma authenticated_clients_simps [simp]:
  "authenticated_clients credentials up [] = []"
  "authenticated_clients credentials up (SocksCancelled # evs) = authenticated_clients credentials up evs"
  "authenticated_clients credentials up (SocksAccept (Err e) # evs) = authenticated_clients credentials up evs"
  "authenticated_clients credentials up (SocksAccept Panic # evs) = authenticated_clients credentials up evs"
  "authenticated_clients credentials up (SocksAccept (Ok p) # evs) =
     (if credentials p = Some up then [p] else []) @ authenticated_clients credentials up evs"
  by (simp_all add: authenticated_clients_def)

lemma socks_loop_calls:
  assumes "socks_ok ops credentials" and "so_auth opts = Password username password"
    and "socks_loop ops sys to_reply sn cb opts evs calls = (status, tcp, udp)"
  shows "length tcp + length udp \<le>
      length (fst calls) + length (snd calls) + length (authenticated_clients credentials (username, password) evs)"
  using assms(3)
proof (induction evs arbitrary: calls)
  case (Cons ev evs)
  show ?case
  proof (cases ev)
    case (SocksAccept r)
    show ?thesis
    proof (cases r)
      case (Ok client)
      let ?c = "\<lparr>sx_client = client, sx_tcp = fst calls, sx_udp = snd calls\<rparr>"
      obtain ts us where one: "sx_tcp (snd (handle_income ops sys to_reply sn cb opts ?c)) = fst calls @ ts"
          "sx_udp (snd (handle_income ops sys to_reply sn cb opts ?c)) = snd calls @ us"
          "length ts + length us \<le> (if credentials client = Some (username, password) then 1 else 0)"
        by (rule handle_income_calls [OF assms(1,2), of sys to_reply sn cb ?c]) simp
      show ?thesis
      proof (cases "fst (handle_income ops sys to_reply sn cb opts ?c) = Panic")
        case True
        with Cons.prems SocksAccept Ok one(1,2) have "tcp = fst calls @ ts" and "udp = snd calls @ us"
          by (simp_all add: split_beta)
        with SocksAccept Ok one(3) show ?thesis by (auto split: if_splits)
      next
        case False
        with Cons.prems SocksAccept Ok one
        have "socks_loop ops sys to_reply sn cb opts evs (fst calls @ ts, snd calls @ us) = (status, tcp, udp)"
          by (simp add: split_beta)
        from Cons.IH [OF this] SocksAccept Ok one(3) show ?thesis by (auto split: if_splits)
      qed
    qed (use Cons SocksAccept in simp_all)
  qed (use Cons.prems in simp)
qed simp

text \<open>Without the clients that have not sent the right credentials the loop makes the same calls.\<close>

fun may_serve :: "('p \<Rightarrow> (string \<times> string) option) \<Rightarrow> string \<times> string \<Rightarrow> 'p socks_event \<Rightarrow> bool" where
  "may_serve credentials up (SocksAccept (Ok p)) = (credentials p = Some up)"
| "may_serve credentials up _ = True"

lemma socks_loop_filter:
  assumes "socks_ok ops credentials" and "so_auth opts = Password username password"
  shows "socks_loop ops sys to_reply sn cb opts (filter (may_serve credentials (username, password)) evs) calls =
    socks_loop ops sys to_reply sn cb opts evs calls"
proof (induction evs arbitrary: calls)
  case (Cons ev evs)
  show ?case
  proof (cases "may_serve credentials (username, password) ev")
    case True
    then show ?thesis
      using Cons.IH by (cases "(ops, sys, to_reply, sn, cb, opts, ev # evs, calls)" rule: socks_loop.cases) (simp_all add: split_beta)
  next
    case False
    then obtain client where ev: "ev = SocksAccept (Ok client)" and bad: "credentials client \<noteq> Some (username, password)"
      by (cases "(credentials, (username, password), ev)" rule: may_serve.cases) auto
    let ?c = "\<lparr>sx_client = client, sx_tcp = fst calls, sx_udp = snd calls\<rparr>"
    have "sx_tcp (snd (handle_income ops sys to_reply sn cb opts ?c)) = fst calls \<and>
        sx_udp (snd (handle_income ops sys to_reply sn cb opts ?c)) = snd calls \<and>
        fst (handle_income ops sys to_reply sn cb opts ?c) \<noteq> Panic"
      by (rule handle_income_calls [OF assms, of sys to_reply sn cb ?c]) (use bad in simp_all)
    with ev bad Cons.IH show ?thesis by (simp add: split_beta)
  qed
qed simp


text \<open>A protocol implementation over the client's messages, for evaluation on concrete inputs.\<close>

record sample_client =
  cl_credentials :: "(string \<times> string) option"
  cl_command :: "Socks5Command \<times> SocksTargetAddr"

definition sample_socks :: "sample_client socks_ops" where
  "sample_socks = \<lparr>accept_no_auth = pure (),
     accept_password_auth = (\<lambda>check p. (case cl_credentials p of
        Some (user, pass) \<Rightarrow> if check user pass then Ok () else Err (SocksOther ''authentication rejected'')
      | None \<Rightarrow> Err (SocksOther ''no authentication''), p)),
     read_command = (\<lambda>p. (Ok (cl_command p), p)), reply_success = (\<lambda>_. pure ()), reply_error = (\<lambda>_. pure ()),
     wait_on_tcp = fail SocksEof\<rparr>"

lemma sample_socks_ok: "socks_ok sample_socks cl_credentials"
  by (auto simp: socks_ok_def sample_socks_def split: option.splits if_splits)

definition sample_sockets :: sys_sockets where
  "sample_sockets = \<lparr>sys_new = (\<lambda>_. None), sys_set_only_v6 = (\<lambda>_. None), sys_bind = (\<lambda>_. None),
     sys_set_nonblocking = (\<lambda>_. None), sys_local_addr = (\<lambda>_. Ok (Some (SockV4 ipv4_unspecified 40000)))\<rparr>"

definition sample_opt :: SocksInboundOpt where
  "sample_opt = \<lparr>so_listen_addr = SockV4 (Ipv4Addr 127 0 0 1) 6666, so_public_addr = None,
     so_auth = Password ''u'' ''p'', so_skip_auth = False, so_allow_udp = True\<rparr>"

definition sample_clients :: "sample_client socks_event list" where
  "sample_clients =
     [SocksAccept (Ok \<lparr>cl_credentials = Some (''u'', ''x''), cl_command = (TCPConnect, SDomain ''a.b'' 80)\<rparr>),
      SocksAccept (Err ''too many open files''),
      SocksAccept (Ok \<lparr>cl_credentials = Some (''u'', ''p''), cl_command = (TCPConnect, SDomain ''a.b'' 80)\<rparr>),
      SocksAccept (Ok \<lparr>cl_credentials = None, cl_command = (UDPAssociate, SDomain ''a.b'' 80)\<rparr>)]"

definition sample_calls :: "TargetAddr list \<times> socket list" where
  "sample_calls = snd (socks_loop sample_socks sample_sockets (\<lambda>_. OtherReply ''general failure'') None
      \<lparr>cb_tcp = (\<lambda>_ _. None), cb_udp = (\<lambda>_ _. None)\<rparr> sample_opt sample_clients ([], []))"


end
