(* ===== verification/Tuic_Client_Tasks.thy ===== *)
theory Tuic_Client_Tasks
  imports Tuic_Outbound
begin

text \<open>
  Two helpers of the TUIC client. \<^verbatim>\<open>crates/wind-tuic/src/tls.rs\<close> makes the TLS configuration of a client and
  its verifier that accepts every certificate. \<^verbatim>\<open>crates/wind-tuic/src/task.rs\<close> spawns the three tasks that
  take datagrams and streams from the connection and put them into the queues the polling task
  reads. \<^verbatim>\<open>rustls\<close> is a parameter (\<open>client_tls_ops\<close>), and so are the answers of the connection and of
  the bounded queue, which come as events.
\<close>

section \<open>TLS\<close>

datatype verifier = SkipServerVerification | PlatformVerifier

record ClientConfig =
  cc_verifier :: verifier
  cc_only_tls13 :: bool
  cc_alpn_protocols :: "bytes list"

text \<open>
  \<open>crypto_provider\<close>: a process-wide default provider is installed (the two lookups panic otherwise).
  The others are the errors of restricting the versions and of loading the platform's verifier.
\<close>

record client_tls_ops =
  crypto_provider :: bool
  protocol_versions :: "string option"
  platform_verifier :: "string option"

definition tls_config :: "client_tls_ops \<Rightarrow> string \<Rightarrow> TuicOutboundOpts \<Rightarrow> (ClientConfig, Error) result" where
  "tls_config tls servername opts =
     (if \<not> crypto_provider tls then Panic
      else
        let config = (if oo_skip_cert_verify opts
              then Ok \<lparr>cc_verifier = SkipServerVerification, cc_only_tls13 = False, cc_alpn_protocols = []\<rparr>
              else case protocol_versions tls of
                  Some e \<Rightarrow> Err (EMsg e)
                | None \<Rightarrow>
                    (case platform_verifier tls of
                       Some e \<Rightarrow> Err (EMsg e)
                     | None \<Rightarrow> Ok \<lparr>cc_verifier = PlatformVerifier, cc_only_tls13 = True, cc_alpn_protocols = []\<rparr>))
        in case config of
             Ok c \<Rightarrow> Ok (c\<lparr>cc_alpn_protocols := map as_bytes [''h3'']\<rparr>)
           | Err e \<Rightarrow> Err e
           | Panic \<Rightarrow> Panic)"

text \<open>
  What a verifier says to a certificate and to a handshake signature. The platform's answers and the
  check of a signature by the provider's algorithms are parameters.
\<close>

fun verify_server_cert :: "(bytes \<Rightarrow> string \<Rightarrow> bool) \<Rightarrow> verifier \<Rightarrow> bytes \<Rightarrow> string \<Rightarrow> bool" where
  "verify_server_cert platform SkipServerVerification end_entity server_name = True"
| "verify_server_cert platform PlatformVerifier end_entity server_name = platform end_entity server_name"

definition verify_tls_signature :: "(bytes \<Rightarrow> bytes \<Rightarrow> bytes \<Rightarrow> bool) \<Rightarrow> verifier \<Rightarrow> bytes \<Rightarrow> bytes \<Rightarrow> bytes \<Rightarrow> bool" where
  "verify_tls_signature provider v msg cert dss = provider msg cert dss"

text \<open>A handshake is accepted when the certificate and the signature made with its key are.\<close>

definition server_accepted ::
  "(bytes \<Rightarrow> string \<Rightarrow> bool) \<Rightarrow> (bytes \<Rightarrow> bytes \<Rightarrow> bytes \<Rightarrow> bool) \<Rightarrow> ClientConfig \<Rightarrow> string \<Rightarrow> bytes \<Rightarrow> bytes \<Rightarrow> bytes \<Rightarrow> bool" where
  "server_accepted platform provider c server_name cert msg dss \<longleftrightarrow>
     verify_server_cert platform (cc_verifier c) cert server_name \<and>
     verify_tls_signature provider (cc_verifier c) msg cert dss"

text \<open>
  Which servers a client accepts. With a configuration made from its options the client accepts a
  server that proves possession of the key of its certificate if and only if certificate checks are
  turned off or the platform accepts the certificate for the server name. The protocol offered is
  always \<^verbatim>\<open>h3\<close>: the configured list of protocols has no influence on the configuration.
\<close>

theorem tls_config_trust:
  assumes "tls_config tls name opts = Ok c"
  shows "(server_accepted platform provider c name cert msg dss \<longleftrightarrow>
      provider msg cert dss \<and> (oo_skip_cert_verify opts \<or> platform cert name)) \<and>
    cc_alpn_protocols c = [as_bytes ''h3''] \<and>
    tls_config tls name (opts\<lparr>oo_alpn := other\<rparr>) = Ok c"
  using assms
  by (auto simp: tls_config_def server_accepted_def verify_tls_signature_def Let_def split: if_splits option.splits)

theorem tls_config_trust_witness:
  "tls_config \<lparr>crypto_provider = True, protocol_versions = None, platform_verifier = None\<rparr> ''localhost''
     ((ob_opts sample_outbound)\<lparr>oo_alpn := [''h2'']\<rparr>) =
   Ok \<lparr>cc_verifier = SkipServerVerification, cc_only_tls13 = False, cc_alpn_protocols = [as_bytes ''h3'']\<rparr>"
proof -
  have "tls_config \<lparr>crypto_provider = True, protocol_versions = None, platform_verifier = None\<rparr> ''localhost'' (ob_opts sample_outbound) =
      Ok \<lparr>cc_verifier = SkipServerVerification, cc_only_tls13 = False, cc_alpn_protocols = [as_bytes ''h3'']\<rparr>"
    by (simp add: tls_config_def sample_outbound_def)
  from tls_config_trust [OF this, where other = "[''h2'']"] show ?thesis by simp
qed

section \<open>The accepting tasks\<close>

definition SPSC_BUFFER_SIZE :: nat where
  "SPSC_BUFFER_SIZE = 16"

text \<open>
  What such a task sees: an item or an error from the connection, the consumer taking the next item
  of the queue, the consumer dropping its end of the queue, and the cancellation. An item finds a
  queue that is full for the whole second of the timeout, or it finds room; once the consumer has
  dropped its end, sending fails at once.
\<close>

datatype 'a accept_event = Accept "('a, string) result" | Consume | ReceiverDropped | TaskCancelled

datatype task_status = Accepting | TaskStopped | TaskPanicked

record 'a accept_task =
  at_status :: task_status
  at_queue :: "'a list"
  at_taken :: "'a list"
  at_open :: bool

definition accept_start :: "'a accept_task" where
  "accept_start = \<lparr>at_status = Accepting, at_queue = [], at_taken = [], at_open = True\<rparr>"

definition accept_step :: "'a accept_event \<Rightarrow> 'a accept_task \<Rightarrow> 'a accept_task" where
  "accept_step ev t = (case ev of
     Consume \<Rightarrow>
       if at_open t then (case at_queue t of [] \<Rightarrow> t | x # xs \<Rightarrow> t\<lparr>at_queue := xs, at_taken := at_taken t @ [x]\<rparr>) else t
   | ReceiverDropped \<Rightarrow> t\<lparr>at_open := False\<rparr>
   | Accept r \<Rightarrow>
       if at_status t \<noteq> Accepting then t
       else (case r of
           Ok item \<Rightarrow>
             if at_open t \<and> length (at_queue t) < SPSC_BUFFER_SIZE then t\<lparr>at_queue := at_queue t @ [item]\<rparr>
             else t\<lparr>at_status := TaskPanicked\<rparr>
         | Err e \<Rightarrow> t\<lparr>at_status := TaskPanicked\<rparr>
         | Panic \<Rightarrow> t\<lparr>at_status := TaskPanicked\<rparr>)
   | TaskCancelled \<Rightarrow> if at_status t = Accepting then t\<lparr>at_status := TaskStopped\<rparr> else t)"

definition spawn_handler :: "'a accept_event list \<Rightarrow> 'a accept_task" where
  "spawn_handler evs = fold accept_step evs accept_start"

definition handle_incoming ::
  "bytes accept_event list \<Rightarrow> 'b accept_event list \<Rightarrow> 'u accept_event list \<Rightarrow> bytes accept_task \<times> 'b accept_task \<times> 'u accept_task" where
  "handle_incoming datagram bi uni = (spawn_handler datagram, spawn_handler bi, spawn_handler uni)"

text \<open>The items the connection has handed over in a sequence of events.\<close>

fun accepted_items :: "'a accept_event list \<Rightarrow> 'a list" where
  "accepted_items [] = []"
| "accepted_items (Accept (Ok x) # evs) = x # accepted_items evs"
| "accepted_items (_ # evs) = accepted_items evs"

lemma accepted_items_append [simp]: "accepted_items (evs @ evs') = accepted_items evs @ accepted_items evs'"
  by (induction evs rule: accepted_items.induct) simp_all

definition accept_inv :: "'a accept_event list \<Rightarrow> 'a accept_task \<Rightarrow> bool" where
  "accept_inv evs t \<longleftrightarrow> length (at_queue t) \<le> SPSC_BUFFER_SIZE \<and> prefix (at_taken t @ at_queue t) (accepted_items evs) \<and>
     (at_open t \<longleftrightarrow> ReceiverDropped \<notin> set evs) \<and>
     (at_status t = Accepting \<longrightarrow> at_taken t @ at_queue t = accepted_items evs \<and> (\<forall>e. Accept (Err e) \<notin> set evs))"

lemma accept_step_inv: "accept_inv evs t \<Longrightarrow> accept_inv (evs @ [ev]) (accept_step ev t)"
proof (cases ev)
  case (Accept r)
  assume "accept_inv evs t"
  with Accept show ?thesis
    by (cases r) (auto simp: accept_inv_def accept_step_def intro: prefix_prefix)
next
  case Consume
  assume "accept_inv evs t"
  with Consume show ?thesis
    by (cases "at_queue t") (auto simp: accept_inv_def accept_step_def)
next
  case ReceiverDropped
  assume "accept_inv evs t"
  with ReceiverDropped show ?thesis
    by (auto simp: accept_inv_def accept_step_def)
next
  case TaskCancelled
  assume "accept_inv evs t"
  with TaskCancelled show ?thesis
    by (auto simp: accept_inv_def accept_step_def)
qed

lemma spawn_handler_inv: "accept_inv evs (spawn_handler evs)"
proof (induction evs rule: rev_induct)
  case Nil
  show ?case by (simp add: accept_inv_def spawn_handler_def accept_start_def)
next
  case (snoc ev evs)
  then show ?case
    using accept_step_inv [of evs "spawn_handler evs" ev] by (simp add: spawn_handler_def)
qed



end
