(* ===== verification/Wind_App.thy ===== *)
theory Wind_App
  imports Socks_Inbound Tuic_Client_Tasks
begin

text \<open>
  The program, \<^verbatim>\<open>crates/wind/src\<close>: command line, configuration files, and the start of the proxy. Third-party
  code is a parameter: the parsers and printers of TOML and YAML and the conversion of the merged
  settings into the configuration (\<^verbatim>\<open>figment\<close> and \<^verbatim>\<open>serde\<close>), and the resolver of the system. The file
  system is the map of the files that exist. The settings of a source are a tree of dictionaries;
  the sources are merged one after the other. Durations are in milliseconds.
\<close>

section \<open>Configuration\<close>

datatype AuthModeConfig = AcNoAuth | AcPassword string string

record SocksOpt =
  sp_listen_addr :: SocketAddr
  sp_public_addr :: "IpAddr option"
  sp_auth :: AuthModeConfig
  sp_skip_auth :: bool
  sp_allow_udp :: bool

record TuicOpt =
  tc_server_addr :: TargetAddr
  tc_sni :: string
  tc_uuid :: uuid
  tc_password :: string
  tc_zero_rtt_handshake :: bool
  tc_heartbeat :: nat
  tc_gc_interval :: nat
  tc_gc_lifetime :: nat
  tc_skip_cert_verify :: bool
  tc_alpn :: "string list"

record PersistentConfig =
  pc_socks_opt :: SocksOpt
  pc_tuic_opt :: TuicOpt

definition SocksOpt_default :: SocksOpt where
  "SocksOpt_default = \<lparr>sp_listen_addr = SockV4 (Ipv4Addr 127 0 0 1) 6666, sp_public_addr = None, sp_auth = AcNoAuth,
     sp_skip_auth = False, sp_allow_udp = True\<rparr>"

text \<open>The default user is \<^verbatim>\<open>c1e6dbe2-f417-4890-994c-9ee15b926597\<close>.\<close>

definition TuicOpt_default :: TuicOpt where
  "TuicOpt_default = \<lparr>tc_server_addr = TIPv4 (Ipv4Addr 127 0 0 1) 9443, tc_sni = ''localhost'',
     tc_uuid = [0xc1, 0xe6, 0xdb, 0xe2, 0xf4, 0x17, 0x48, 0x90, 0x99, 0x4c, 0x9e, 0xe1, 0x5b, 0x92, 0x65, 0x97],
     tc_password = ''test_passwd'', tc_zero_rtt_handshake = False, tc_heartbeat = 10000, tc_gc_interval = 20000,
     tc_gc_lifetime = 20000, tc_skip_cert_verify = True, tc_alpn = [''h3'']\<rparr>"

definition PersistentConfig_default :: PersistentConfig where
  "PersistentConfig_default = \<lparr>pc_socks_opt = SocksOpt_default, pc_tuic_opt = TuicOpt_default\<rparr>"

fun AuthMode_from :: "AuthModeConfig \<Rightarrow> AuthMode" where
  "AuthMode_from AcNoAuth = NoAuth"
| "AuthMode_from (AcPassword username password) = Password username password"

text \<open>\<open>resolve\<close> answers with the addresses of a domain and a port, or fails.\<close>

fun target_addr_to_socket_addr :: "(string \<Rightarrow> u16 \<Rightarrow> (SocketAddr list, string) result) \<Rightarrow> TargetAddr \<Rightarrow> (SocketAddr, string) result" where
  "target_addr_to_socket_addr resolve (TIPv4 a p) = Ok (SockV4 a p)"
| "target_addr_to_socket_addr resolve (TIPv6 a p) = Ok (SockV6 a p 0 0)"
| "target_addr_to_socket_addr resolve (TDomain domain p) = (case resolve domain p of
     Ok (addr # _) \<Rightarrow> Ok addr
   | _ \<Rightarrow> Panic)"

record Config =
  cf_socks_opt :: SocksInboundOpt
  cf_tuic_opt :: TuicOutboundOpts

definition from_persist :: "(string \<Rightarrow> u16 \<Rightarrow> (SocketAddr list, string) result) \<Rightarrow> PersistentConfig \<Rightarrow> (Config, string) result" where
  "from_persist resolve config =
     (let s = pc_socks_opt config; t = pc_tuic_opt config in
      case target_addr_to_socket_addr resolve (tc_server_addr t) of
        Ok peer_addr \<Rightarrow> Ok \<lparr>
          cf_socks_opt = \<lparr>so_listen_addr = sp_listen_addr s, so_public_addr = sp_public_addr s,
            so_auth = AuthMode_from (sp_auth s), so_skip_auth = sp_skip_auth s, so_allow_udp = sp_allow_udp s\<rparr>,
          cf_tuic_opt = \<lparr>oo_peer_addr = peer_addr, oo_sni = tc_sni t, oo_auth = (tc_uuid t, as_bytes (tc_password t)),
            oo_zero_rtt_handshake = tc_zero_rtt_handshake t, oo_heartbeat = tc_heartbeat t,
            oo_gc_interval = tc_gc_interval t, oo_gc_lifetime = tc_gc_lifetime t,
            oo_skip_cert_verify = tc_skip_cert_verify t, oo_alpn = tc_alpn t\<rparr>\<rparr>
      | Err e \<Rightarrow> Err e
      | Panic \<Rightarrow> Panic)"

section \<open>Loading and exporting\<close>

text \<open>The value of a source: a setting, or a dictionary of values.\<close>

datatype 'v settings = Setting 'v | Dict "string \<rightharpoonup> 'v settings"

type_synonym 'v dict = "string \<rightharpoonup> 'v settings"
type_synonym files = "string \<rightharpoonup> string"

record 'v config_formats =
  find_file :: "files \<Rightarrow> string \<Rightarrow> string option"
  from_toml :: "string \<Rightarrow> ('v dict, string) result"
  from_yaml :: "string \<Rightarrow> ('v dict, string) result"
  extract_config :: "'v dict \<Rightarrow> (PersistentConfig, string) result"
  to_toml :: "PersistentConfig \<Rightarrow> (string, string) result"
  to_yaml :: "PersistentConfig \<Rightarrow> (string, string) result"

text \<open>
  \<open>find_file\<close> is figment's search for a file. It finds a file that exists at the path; a relative path is also
  looked up in the directories above.
\<close>

definition find_ok :: "'v config_formats \<Rightarrow> bool" where
  "find_ok fm \<longleftrightarrow> (\<forall>fs p text. fs p = Some text \<longrightarrow> find_file fm fs p = Some text)"

text \<open>
  Merging: dictionaries are merged entry by entry, and otherwise the later value replaces the earlier one. A
  source that cannot be read makes the extraction fail; a file that is not found is empty.
\<close>

primrec coalesce :: "'v settings \<Rightarrow> 'v settings \<Rightarrow> 'v settings" where
  "coalesce (Setting v) t = t"
| "coalesce (Dict f) t = (case t of
     Setting _ \<Rightarrow> t
   | Dict g \<Rightarrow> Dict (\<lambda>k. case ((map_option coalesce \<circ> f) k, g k) of
       (Some m, Some y) \<Rightarrow> Some (m y)
     | (Some _, None) \<Rightarrow> f k
     | (None, y) \<Rightarrow> y))"

definition merge_dicts :: "'v dict \<Rightarrow> 'v dict \<Rightarrow> 'v dict" where
  "merge_dicts f g = (\<lambda>k. case (f k, g k) of
     (Some x, Some y) \<Rightarrow> Some (coalesce x y)
   | (Some x, None) \<Rightarrow> Some x
   | (None, y) \<Rightarrow> y)"

definition merge :: "('v dict, string) result \<Rightarrow> ('v dict, string) result \<Rightarrow> ('v dict, string) result" where
  "merge figment source = (case (figment, source) of
     (Ok a, Ok b) \<Rightarrow> Ok (merge_dicts a b)
   | (Ok a, e) \<Rightarrow> e
   | (e, _) \<Rightarrow> e)"

definition source_file :: "'v config_formats \<Rightarrow> (string \<Rightarrow> ('v dict, string) result) \<Rightarrow> files \<Rightarrow> string \<Rightarrow> ('v dict, string) result" where
  "source_file fm parse fs path = (case find_file fm fs path of None \<Rightarrow> Ok Map.empty | Some text \<Rightarrow> parse text)"

text \<open>\<^verbatim>\<open>Path::join\<close> with a relative file name.\<close>

definition join_path :: "string \<Rightarrow> string \<Rightarrow> string" where
  "join_path d f = (if d = [] \<or> last d = CHR ''/'' then d @ f else d @ ''/'' @ f)"

definition ends_with :: "string \<Rightarrow> string \<Rightarrow> bool" where
  "ends_with s e \<longleftrightarrow> suffix e s"

definition load :: "'v config_formats \<Rightarrow> files \<Rightarrow> 'v dict \<Rightarrow> string option \<Rightarrow> string option \<Rightarrow> (PersistentConfig, string) result" where
  "load fm fs env config_path config_dir =
     (let figment = Ok Map.empty;
          file = (case config_dir of Some d \<Rightarrow> join_path d | None \<Rightarrow> (\<lambda>name. name));
          config_file = file ''config.toml'';
          figment = (if fs config_file \<noteq> None then merge figment (source_file fm (from_toml fm) fs config_file) else figment);
          config_file = file ''config.yaml'';
          figment = (if fs config_file \<noteq> None then merge figment (source_file fm (from_yaml fm) fs config_file) else figment);
          figment = (case config_path of
              None \<Rightarrow> figment
            | Some p \<Rightarrow>
                if ends_with p ''.toml'' then merge figment (source_file fm (from_toml fm) fs p)
                else if ends_with p ''.yaml'' \<or> ends_with p ''.yml'' then merge figment (source_file fm (from_yaml fm) fs p)
                else merge figment (source_file fm (from_toml fm) fs p));
          figment = merge figment (Ok env)
      in case figment of Ok v \<Rightarrow> extract_config fm v | Err e \<Rightarrow> Err e | Panic \<Rightarrow> Panic)"

text \<open>\<^verbatim>\<open>str::to_lowercase\<close> on the letters that occur in the names of the formats.\<close>

definition to_lowercase :: "string \<Rightarrow> string" where
  "to_lowercase = map (\<lambda>c. let n = of_char c :: nat in if 65 \<le> n \<and> n \<le> 90 then char_of (n + 32) else c)"

text \<open>\<open>create\<close> is the error of creating or writing the file.\<close>

definition export_to_file :: "'v config_formats \<Rightarrow> string option \<Rightarrow> PersistentConfig \<Rightarrow> string \<Rightarrow> string \<Rightarrow> (files, unit, string) comp" where
  "export_to_file fm create self file_path format fs =
     (let write = (\<lambda>content. case content of
            Ok text \<Rightarrow> (case create of None \<Rightarrow> (Ok (), fs(file_path \<mapsto> text)) | Some e \<Rightarrow> (Err e, fs))
          | Err e \<Rightarrow> (Err e, fs)
          | Panic \<Rightarrow> (Panic, fs))
      in if to_lowercase format = ''yaml'' then write (to_yaml fm self)
         else if to_lowercase format = ''toml'' then write (to_toml fm self)
         else (Err (''Unsupported file format: '' @ format), fs))"

section \<open>The command line and the start\<close>

datatype ConfigFormat = FmtYaml | FmtToml
datatype Commands = Init ConfigFormat

record Cli =
  cli_config :: "string option"
  cli_config_dir :: "string option"
  cli_work_dir :: "string option"
  cli_version :: bool
  cli_command :: "Commands option"

text \<open>What \<^verbatim>\<open>main\<close> has done when it returns or starts the proxy.\<close>

datatype main_outcome =
    PrintedUsageError string
  | PrintedVersion
  | CreatedConfig string
  | RunProxy Config
  | Failed string
  | MainPanicked

fun format_str :: "ConfigFormat \<Rightarrow> string" where
  "format_str FmtYaml = ''yaml''"
| "format_str FmtToml = ''toml''"

definition init_path :: "Cli \<Rightarrow> ConfigFormat \<Rightarrow> string" where
  "init_path cli format =
     (let file_name = ''config.'' @ format_str format
      in case cli_config_dir cli of Some d \<Rightarrow> join_path d file_name | None \<Rightarrow> file_name)"

text \<open>\<open>mkdir\<close> is the error of creating the configuration directory.\<close>

definition main_start ::
  "'v config_formats \<Rightarrow> (string \<Rightarrow> u16 \<Rightarrow> (SocketAddr list, string) result) \<Rightarrow> 'v dict \<Rightarrow> string option \<Rightarrow> string option \<Rightarrow>
     (Cli, string) result \<Rightarrow> files \<Rightarrow> main_outcome \<times> files" where
  "main_start fm resolve env mkdir create parsed fs = (case parsed of
     Err err \<Rightarrow> (PrintedUsageError err, fs)
   | Panic \<Rightarrow> (MainPanicked, fs)
   | Ok cli \<Rightarrow>
       if cli_version cli then (PrintedVersion, fs)
       else
         (case cli_command cli of
            Some (Init format) \<Rightarrow>
              (case (case cli_config_dir cli of Some _ \<Rightarrow> mkdir | None \<Rightarrow> None) of
                 Some e \<Rightarrow> (Failed e, fs)
               | None \<Rightarrow>
                   (case export_to_file fm create PersistentConfig_default (init_path cli format) (format_str format) fs of
                      (Ok _, fs') \<Rightarrow> (CreatedConfig (init_path cli format), fs')
                    | (Err e, fs') \<Rightarrow> (Failed e, fs')
                    | (Panic, fs') \<Rightarrow> (MainPanicked, fs')))
          | None \<Rightarrow>
              (case load fm fs env (cli_config cli) (cli_config_dir cli) of
                 Err e \<Rightarrow> (Failed e, fs)
               | Panic \<Rightarrow> (MainPanicked, fs)
               | Ok persistent_config \<Rightarrow>
                   (case from_persist resolve persistent_config of
                      Ok runtime_config \<Rightarrow> (RunProxy runtime_config, fs)
                    | Err e \<Rightarrow> (Failed e, fs)
                    | Panic \<Rightarrow> (MainPanicked, fs)))))"

text \<open>
  \<^verbatim>\<open>run\<close>: the client is set up first, and nothing is spawned when that fails; then the polling task
  and the listener are spawned.
\<close>

datatype spawned = PollTask | ListenTask SocksInboundOpt

definition run ::
  "quinn \<Rightarrow> 'u session_ops \<Rightarrow> (unit, Error) result list \<Rightarrow> Config \<Rightarrow> (('o, 'i, 'u) TuicOutbound \<times> spawned list, Error) result" where
  "run q cu setup config = (case TuicOutbound_new q cu setup (cf_tuic_opt config) of
     Err e \<Rightarrow> Err e
   | Panic \<Rightarrow> Panic
   | Ok outbound \<Rightarrow> Ok (outbound, [PollTask, ListenTask (cf_socks_opt config)]))"

text \<open>The callback of the listener: TCP streams go to the client.\<close>

definition Manager_handle_tcpstream :: "quinn \<Rightarrow> TargetAddr \<Rightarrow> io_turn list \<Rightarrow> (('o, 'i, 'u) TuicOutbound, unit, Error) comp" where
  "Manager_handle_tcpstream q target_addr turns outbound =
     and_then (handle_tcp q target_addr turns) (\<lambda>_. pure ()) outbound"

text \<open>The shutdown: the tasks get ten seconds after the interrupt.\<close>

definition main_shutdown :: "string option \<Rightarrow> nat \<Rightarrow> (unit, string) result" where
  "main_shutdown ctrl_c tasks_done = (case ctrl_c of
     Some e \<Rightarrow> Err e
   | None \<Rightarrow> if tasks_done \<le> 10000 then Ok () else Err ''deadline has elapsed'')"

section \<open>Which setting wins\<close>

text \<open>The setting a source has at a path of keys, and whether the source decides what is at that path.\<close>

fun setting_at :: "'v settings \<Rightarrow> string list \<Rightarrow> 'v option" where
  "setting_at (Setting v) [] = Some v"
| "setting_at (Dict f) (k # ks) = (case f k of None \<Rightarrow> None | Some t \<Rightarrow> setting_at t ks)"
| "setting_at _ _ = None"

fun decides :: "'v settings \<Rightarrow> string list \<Rightarrow> bool" where
  "decides t [] = True"
| "decides (Setting v) (k # ks) = True"
| "decides (Dict f) (k # ks) = (case f k of None \<Rightarrow> False | Some t \<Rightarrow> decides t ks)"

lemma setting_at_undecided: "\<not> decides t ks \<Longrightarrow> setting_at t ks = None"
  by (induction t ks rule: decides.induct) (auto split: option.splits)

lemma setting_at_coalesce: "setting_at (coalesce a b) ks = (if decides b ks then setting_at b ks else setting_at a ks)"
proof (induction ks arbitrary: a b)
  case Nil
  show ?case by (cases a; cases b) simp_all
next
  case (Cons k ks)
  show ?case
    by (cases a; cases b) (auto simp: Cons.IH setting_at_undecided split: option.split)
qed

text \<open>The parser for a path given on the command line, and the files in the configuration directory.\<close>

definition path_parser :: "'v config_formats \<Rightarrow> string \<Rightarrow> string \<Rightarrow> ('v dict, string) result" where
  "path_parser fm p = (if ends_with p ''.yaml'' \<or> ends_with p ''.yml'' then from_yaml fm else from_toml fm)"

definition dir_file :: "string option \<Rightarrow> string \<Rightarrow> string" where
  "dir_file config_dir name = (case config_dir of Some d \<Rightarrow> join_path d name | None \<Rightarrow> name)"

text \<open>The four sources, in the order in which they are merged.\<close>

definition dir_source :: "(string \<Rightarrow> ('v dict, string) result) \<Rightarrow> files \<Rightarrow> string \<Rightarrow> ('v dict, string) result" where
  "dir_source parse fs f = (case fs f of None \<Rightarrow> Ok Map.empty | Some text \<Rightarrow> parse text)"

definition path_source :: "'v config_formats \<Rightarrow> files \<Rightarrow> string option \<Rightarrow> ('v dict, string) result" where
  "path_source fm fs config_path = (case config_path of None \<Rightarrow> Ok Map.empty | Some p \<Rightarrow> source_file fm (path_parser fm p) fs p)"

lemma suffix_toml_not_yaml:
  "suffix ''.toml'' p \<Longrightarrow> \<not> suffix ''.yaml'' p" "suffix ''.toml'' p \<Longrightarrow> \<not> suffix ''.yml'' p"
  by (auto simp: suffix_def)

lemma coalesce_dicts: "coalesce (Dict f) (Dict g) = Dict (merge_dicts f g)"
  by (auto simp: merge_dicts_def fun_eq_iff split: option.split)

lemma merge_dicts_empty [simp]: "merge_dicts f Map.empty = f" "merge_dicts Map.empty f = f"
  by (auto simp: merge_dicts_def fun_eq_iff split: option.split)

lemma setting_at_merge_dicts:
  "setting_at (Dict (merge_dicts f g)) ks = (if decides (Dict g) ks then setting_at (Dict g) ks else setting_at (Dict f) ks)"
  by (simp only: coalesce_dicts [symmetric] setting_at_coalesce)

lemma load_sources:
  assumes "find_ok fm"
  shows "load fm fs env config_path config_dir =
     (case merge (merge (merge (merge (Ok Map.empty)
          (dir_source (from_toml fm) fs (dir_file config_dir ''config.toml'')))
          (dir_source (from_yaml fm) fs (dir_file config_dir ''config.yaml'')))
          (path_source fm fs config_path)) (Ok env) of
        Ok v \<Rightarrow> extract_config fm v | Err e \<Rightarrow> Err e | Panic \<Rightarrow> Panic)"
proof -
  have skip: "(if fs f \<noteq> None then merge x (source_file fm parse fs f) else x) = merge x (dir_source parse fs f)"
    for f x and parse :: "string \<Rightarrow> ('a dict, string) result"
    using assms by (cases x; cases "fs f") (simp_all add: source_file_def dir_source_def merge_def find_ok_def)
  have path: "(case config_path of
        None \<Rightarrow> x
      | Some p \<Rightarrow>
          if ends_with p ''.toml'' then merge x (source_file fm (from_toml fm) fs p)
          else if ends_with p ''.yaml'' \<or> ends_with p ''.yml'' then merge x (source_file fm (from_yaml fm) fs p)
          else merge x (source_file fm (from_toml fm) fs p)) =
      merge x (path_source fm fs config_path)" for x
    by (cases x; cases config_path)
       (auto simp: path_source_def path_parser_def ends_with_def merge_def suffix_toml_not_yaml)
  show ?thesis
    unfolding load_def Let_def skip path dir_file_def by (cases config_dir) simp_all
qed

lemma merge_Ok_iff: "merge a b = Ok v \<longleftrightarrow> (\<exists>x y. a = Ok x \<and> b = Ok y \<and> v = merge_dicts x y)"
  by (cases a; cases b) (auto simp: merge_def)


text \<open>Formats with one setting, the name of the server, for evaluation on concrete inputs.\<close>

definition sni_dict :: "string \<Rightarrow> string dict" where
  "sni_dict name = [''tuic_opt'' \<mapsto> Dict [''sni'' \<mapsto> Setting name]]"

definition sample_formats :: "string config_formats" where
  "sample_formats = \<lparr>find_file = (\<lambda>fs p. fs p),
     from_toml = (\<lambda>text. if text = ''bad'' then Err ''syntax'' else Ok (sni_dict text)),
     from_yaml = (\<lambda>text. if text = ''bad'' then Err ''syntax'' else Ok (sni_dict text)),
     extract_config = (\<lambda>v. case setting_at (Dict v) [''tuic_opt'', ''sni''] of
        Some name \<Rightarrow> Ok (PersistentConfig_default\<lparr>pc_tuic_opt := TuicOpt_default\<lparr>tc_sni := name\<rparr>\<rparr>)
      | None \<Rightarrow> Err ''missing field''),
     to_toml = (\<lambda>c. Ok (tc_sni (pc_tuic_opt c))), to_yaml = (\<lambda>c. Ok (tc_sni (pc_tuic_opt c)))\<rparr>"

lemma sample_formats_find_ok: "find_ok sample_formats"
  by (simp add: find_ok_def sample_formats_def)


section \<open>A first start\<close>

definition printer :: "'v config_formats \<Rightarrow> ConfigFormat \<Rightarrow> PersistentConfig \<Rightarrow> (string, string) result" where
  "printer fm format = (case format of FmtYaml \<Rightarrow> to_yaml fm | FmtToml \<Rightarrow> to_toml fm)"

definition parser :: "'v config_formats \<Rightarrow> ConfigFormat \<Rightarrow> string \<Rightarrow> ('v dict, string) result" where
  "parser fm format = (case format of FmtYaml \<Rightarrow> from_yaml fm | FmtToml \<Rightarrow> from_toml fm)"

fun other_format :: "ConfigFormat \<Rightarrow> ConfigFormat" where
  "other_format FmtYaml = FmtToml"
| "other_format FmtToml = FmtYaml"

lemma dir_file_inject: "dir_file dir (''config.'' @ a) = dir_file dir (''config.'' @ b) \<longleftrightarrow> a = b"
  by (cases dir) (simp_all add: dir_file_def join_path_def)

lemma export_default:
  assumes "printer fm format c = Ok text"
  shows "export_to_file fm None c f (format_str format) fs = (Ok (), fs(f \<mapsto> text))"
  using assms by (cases format) (simp_all add: export_to_file_def printer_def to_lowercase_def Let_def)



end
