(* ===== verification/End_To_End.thy ===== *)
theory End_To_End
  imports Udp_Session Tuic_Server Wind_App
begin

text \<open>
  Requests from the local client to the server's callback, across the components: a SOCKS5 UDP request goes
  through the socket, the reader and the sender of an association and the connection to the
  server's datagram handler; a TCP request goes from the callback of the SOCKS5 server through the
  client to the server's stream handler.
\<close>

section \<open>From the callbacks to the client\<close>

text \<open>The UDP callback of the binary, and the enumeration of outbounds, which passes every call on.\<close>

definition Manager_handle_udpsocket ::
  "'o outer_ops \<Rightarrow> 'u session_ops \<Rightarrow> 's \<Rightarrow> 'k \<Rightarrow> ('o, 'i, 'u, 's, 'k) client_system \<Rightarrow> ('o, 'i, 'u, 's, 'k) client_system" where
  "Manager_handle_udpsocket co cu socket k outbound = handle_udp co cu socket k outbound"

datatype 'a Outbounds = Tuic 'a

fun Outbounds_handle_tcp ::
  "quinn \<Rightarrow> TargetAddr \<Rightarrow> io_turn list \<Rightarrow> (('o, 'i, 'u) TuicOutbound Outbounds, unit, Error) comp" where
  "Outbounds_handle_tcp q target_addr turns (Tuic tuic_outbound) =
     (case handle_tcp q target_addr turns tuic_outbound of (r, ob) \<Rightarrow> (r, Tuic ob))"

fun Outbounds_handle_udp ::
  "'o outer_ops \<Rightarrow> 'u session_ops \<Rightarrow> 's \<Rightarrow> 'k \<Rightarrow> ('o, 'i, 'u, 's, 'k) client_system Outbounds \<Rightarrow>
     ('o, 'i, 'u, 's, 'k) client_system Outbounds" where
  "Outbounds_handle_udp co cu socket k (Tuic tuic_outbound) = Tuic (handle_udp co cu socket k tuic_outbound)"

section \<open>UDP requests\<close>

lemma target_ok_from [simp]: "target_ok (TargetAddr_from a)"
  by (cases a) simp_all

lemma target_ok_request [simp]: "target_ok (request_target client a)"
  by (cases a) simp_all

text \<open>A packet in one datagram, as the server takes it.\<close>

lemma handle_datagram_single:
  assumes "ic_uuid s \<noteq> None" and "target_ok t" and "length payload < 65536"
  shows "handle_datagram (packet_datagram a p n k (Address_from t) payload) s =
    (Ok (), s\<lparr>ic_udp := ic_udp s @ [(a, t, payload)]\<rparr>)"
proof -
  have "packet_datagram a p n k (Address_from t) payload =
      message (Packet a p n k (of_nat (length payload))) None @ addr_wire (Address_from t) @ payload"
    by (simp add: packet_datagram_def message_def)
  with handle_datagram_packet [OF assms(1)] handle_packet_payload(2) [OF assms(2), of payload "''datagram packet''" a s] assms(3)
  show ?thesis by simp
qed

text \<open>The sender puts a packet that fits on the connection as one datagram.\<close>

lemma sender_step_single:
  assumes "target_ok (pk_target packet)" and "s = (ob_streams ob ! i)\<lparr>us_connection := ob_connection ob\<rparr>"
    and "10 + target_addr_size (pk_target packet) + length (pk_payload packet) \<le> datagram_limit q s"
    and "\<And>l d. length d \<le> datagram_limit q s \<Longrightarrow> outcome q l (SendDatagram d) = None"
  obtains ob' where "sender_step oc q co send i (PacketQueued (Ok packet)) (ob, k) = (Sending, ob', k)"
    and "ob_connection ob' = ob_connection ob @ [SendDatagram
      (packet_datagram (us_assoc_id s) (us_next_pkt_id s) 1 0 (Address_from (pk_target packet)) (pk_payload packet))]"
proof -
  have le: "length (pk_payload packet) \<le> datagram_limit q s - (10 + target_addr_size (pk_target packet))"
    using assms(3) by simp
  have "send_packet oc q packet s = (Ok (), s\<lparr>us_connection := us_connection s @ [SendDatagram
      (packet_datagram (us_assoc_id s) (us_next_pkt_id s) 1 0 (Address_from (pk_target packet)) (pk_payload packet))],
      us_next_pkt_id := us_next_pkt_id s + 1\<rparr>)"
    using send_packet_datagrams [where s = s and oc = oc, OF assms(1) _ assms(4)] assms(3) packet_datagrams_single [OF le] by simp
  with assms(2) that show thesis
    by (simp add: sender_step_def stream_send_def)
qed

text \<open>
  C7. A SOCKS5 UDP request reaches the server. A request datagram of a local client that fits into one
  datagram of the connection is queued by the reader of its association, sent by its sender as
  exactly one datagram, and that datagram makes an authenticated server record one packet, with the
  number of the association and the payload of the request. Its target is the address of the
  request, except that a domain name is replaced by the address of the local client.
\<close>

theorem socks_udp_request_crosses:
  assumes request: "socks_addr_ok a" "q_len tm = length (socks_header f a @ payload)" "q_stride tm = q_len tm"
      "length (socks_header f a @ payload @ pad) = length buf" "\<And>qu p. tx qu p"
    and sender: "s = (ob_streams ob ! i)\<lparr>us_connection := ob_connection ob\<rparr>"
      "10 + target_addr_size (request_target (q_addr tm) a) + length payload \<le> datagram_limit q s" "datagram_limit q s \<le> 65535"
      "\<And>l d. length d \<le> datagram_limit q s \<Longrightarrow> outcome q l (SendDatagram d) = None"
    and server: "ic_uuid srv \<noteq> None"
  shows "\<exists>sock buf' packet ob' d.
    reader_turn socks_poll_recv tx [TryOk 1 [socks_header f a @ payload @ pad] [tm]] (sk, buf, queue) =
      (Reading, sock, buf', queue @ [packet]) \<and>
    sender_step oc q co send i (PacketQueued (Ok packet)) (ob, k) = (Sending, ob', k) \<and>
    ob_connection ob' = ob_connection ob @ [SendDatagram d] \<and>
    handle_datagram d srv =
      (Ok (), srv\<lparr>ic_udp := ic_udp srv @ [(us_assoc_id (ob_streams ob ! i), request_target (q_addr tm) a, payload)]\<rparr>)"
proof -
  let ?t = "request_target (q_addr tm) a"
  let ?p = "segment_packet ?t payload"
  have reader: "reader_turn socks_poll_recv tx [TryOk 1 [socks_header f a @ payload @ pad] [tm]] (sk, buf, queue) =
      (Reading, sk\<lparr>sk_source_addr := q_addr tm\<rparr>, payload @ drop (length payload) buf, queue @ [?p])"
    using reader_turn_request [where s = sk and queue = queue, OF request(1,2,4,5)] request(2,3) by simp
  obtain ob' where "sender_step oc q co send i (PacketQueued (Ok ?p)) (ob, k) = (Sending, ob', k)"
    and "ob_connection ob' = ob_connection ob @ [SendDatagram
      (packet_datagram (us_assoc_id s) (us_next_pkt_id s) 1 0 (Address_from ?t) payload)]"
    by (rule sender_step_single [of ?p s ob i q oc co send k]) (use sender in \<open>simp_all add: segment_packet_def\<close>)
  moreover have "handle_datagram (packet_datagram (us_assoc_id s) (us_next_pkt_id s) 1 0 (Address_from ?t) payload) srv =
      (Ok (), srv\<lparr>ic_udp := ic_udp srv @ [(us_assoc_id s, ?t, payload)]\<rparr>)"
    using handle_datagram_single [OF server, of ?t payload] sender(2,3) by simp
  ultimately show ?thesis
    using reader sender(1) by auto
qed

definition sample_client :: "((pkt_key, nat) alist_state, (u8, bytes) alist_state, (u16, nat) alist_state) TuicOutbound" where
  "sample_client = snd (handle_udp_open alist_cache alist_cache sample_outbound)"

definition sample_server :: "bytes InboundCtx" where
  "sample_server = (InboundCtx_new sample_users)\<lparr>ic_uuid := Some (replicate 16 1)\<rparr>"

lemma sample_client_simps:
  "us_assoc_id (ob_streams sample_client ! 0) = 0" "ob_connection sample_client = []"
  "datagram_limit (sample_quinn n) s = n" "ic_uuid sample_server = Some (replicate 16 1)" "ic_udp sample_server = []"
  "ic_tcp sample_server = []" "outcome (sample_quinn n) l x = None" "q_len (sample_qmeta m) = m" "q_stride (sample_qmeta m) = m"
  by (simp_all add: sample_client_def handle_udp_open_def sample_outbound_def UdpStream_new_def Let_def
      datagram_limit_def sample_quinn_def sample_qmeta_def sample_server_def InboundCtx_new_def)

theorem socks_udp_request_crosses_witness:
  "\<exists>sock buf' packet ob' d.
    reader_turn socks_poll_recv (\<lambda>_ _. True)
      [TryOk 1 [socks_header 0 (SDomain ''ab'' 53) @ [9, 9] @ [0]] [sample_qmeta 11]] (Socks5UdpSocket_new, replicate 12 0, []) =
      (Reading, sock, buf', [] @ [packet]) \<and>
    sender_step True (sample_quinn 1200) alist_cache (\<lambda>_ _ k. (Ready (Ok 0), k)) 0 (PacketQueued (Ok packet)) (sample_client, ()) =
      (Sending, ob', ()) \<and>
    ob_connection ob' = ob_connection sample_client @ [SendDatagram d] \<and>
    handle_datagram d sample_server = (Ok (), sample_server\<lparr>ic_udp := [(0, TIPv4 (Ipv4Addr 127 0 0 1) 4000, [9, 9])]\<rparr>)"
proof -
  have ok: "socks_addr_ok (SDomain ''ab'' 53)"
    by code_simp
  have len: "length (socks_header 0 (SDomain ''ab'' 53) @ [9, 9]) = 11"
    by (simp add: socks_header_def as_bytes_def u16_to_be_bytes_def)
  have target: "request_target (q_addr (sample_qmeta 11)) (SDomain ''ab'' 53) = TIPv4 (Ipv4Addr 127 0 0 1) 4000"
    by (simp add: sample_qmeta_def)
  show ?thesis
    using socks_udp_request_crosses [OF ok _ _ _ _ refl, where tm = "sample_qmeta 11" and f = 0 and payload = "[9, 9]" and pad = "[0]"
        and buf = "replicate 12 0" and tx = "\<lambda>_ _. True" and ob = sample_client and i = 0 and q = "sample_quinn 1200"
        and srv = sample_server and sk = Socks5UdpSocket_new and queue = "[]" and oc = True and co = alist_cache
        and send = "\<lambda>_ _ k. (Ready (Ok 0), k)" and k = "()"] len
    unfolding target by (simp add: sample_client_simps del: append_Cons)
qed

section \<open>TCP requests\<close>

lemma open_tcp_log:
  assumes "target_ok t" and "outcome q log OpenBi = None"
    and "outcome q (log @ [OpenBi]) (WriteChunk (length log) (message Connect (Some (Address_from t)))) = None"
  shows "snd (open_tcp q t turns log) = log @ [OpenBi, WriteChunk (length log) (message Connect (Some (Address_from t)))]"
  using assms by (simp add: open_tcp_def message_def and_then_def AddressCodec_encode_wire split: option.split prod.split)

lemma open_tcp_too_long:
  assumes "255 < length d" and "outcome q log OpenBi = None"
  shows "open_tcp q (TDomain d p) turns log = (Err (EProto (DomainTooLong d)), log @ [OpenBi])"
  using assms by (simp add: open_tcp_def and_then_def buffered_def)

lemma Manager_handle_tcpstream_open:
  "Manager_handle_tcpstream q t turns ob =
    (case open_tcp q t turns (ob_connection ob) of (r, l) \<Rightarrow>
       (case r of Ok _ \<Rightarrow> Ok () | Err e \<Rightarrow> Err e | Panic \<Rightarrow> Panic, ob\<lparr>ob_connection := l\<rparr>))"
  by (simp add: Manager_handle_tcpstream_def handle_tcp_def and_then_def zoom_def pure_def split_beta Let_def split: result.split)



end
