(* ===== verification/Server_Typing.thy ===== *)
theory Server_Typing
  imports Tuic_Server
begin

text \<open>
  What the types of the server promise about the values it hands on. A Rust string is valid UTF-8, a user is one
  of the configured ones, a payload is as long as its length field can say: these facts are not
  part of the model's types, so they are shown as an invariant of the connection's context, which
  every handler preserves, and of every run of the accept loop.
\<close>

definition ctx_typed :: "(uuid \<rightharpoonup> string) \<Rightarrow> 'r InboundCtx \<Rightarrow> bool" where
  "ctx_typed users s \<longleftrightarrow> ic_users s = users \<and>
     (\<forall>u. ic_uuid s = Some u \<longrightarrow> u \<in> dom users) \<and>
     (\<forall>(t, r) \<in> set (ic_tcp s). target_ok t) \<and>
     (\<forall>(a, t, payload) \<in> set (ic_udp s). target_ok t \<and> length payload < 65536)"

lemma ctx_typed_new [simp]: "ctx_typed users (InboundCtx_new users)"
  by (simp add: ctx_typed_def InboundCtx_new_def)

text \<open>An address that has been decoded is well-formed.\<close>

lemma decode_address_typed: "decode_address c buf = (Ok a, rest) \<Longrightarrow> address_to_target a = Ok t \<Longrightarrow> target_ok t"
  by (simp add: decode_address_def addr.complete_Ok_iff address_to_target_Ok_iff)

lemma split_to_length: "split_to n buf = Some (xs, ys) \<Longrightarrow> length xs = n"
  by (auto simp: split_to_def split: if_splits)

lemma handle_packet_typed:
  assumes "ctx_typed users s"
  shows "ctx_typed users (snd (handle_packet c a sz buf s))"
proof -
  have "unat sz < 65536"
    using unsigned_less [of sz, where 'a = nat] by simp
  with assms show ?thesis
    by (auto simp: handle_packet_def handle_udp_packet_def and_then_def lift_result_def ctx_typed_def
        dest: decode_address_typed split_to_length split: prod.splits result.splits option.splits)
qed

lemma handle_auth_typed: "ctx_typed users s \<Longrightarrow> ctx_typed users (snd (handle_auth q uuid token s))"
  by (auto simp: handle_auth_def ctx_typed_def split: option.splits)

lemma handle_dissociate_typed: "ctx_typed users s \<Longrightarrow> ctx_typed users (snd (handle_dissociate a s))"
  by (simp add: handle_dissociate_def ctx_typed_def)

lemma handle_uni_stream_typed: "ctx_typed users s \<Longrightarrow> ctx_typed users (snd (handle_uni_stream rops q recv s))"
  by (simp add: handle_uni_stream_def handle_packet_typed handle_auth_typed handle_dissociate_typed
      split: prod.split result.split Command.split)

lemma handle_connect_typed:
  assumes "ctx_typed users s"
  shows "ctx_typed users (snd (handle_connect rops cb recv s))"
proof -
  have "target_ok t" if "fst (decode_address c buf) = Ok a" "address_to_target a = Ok t" for c buf a t
    using that decode_address_typed by (cases "decode_address c buf") auto
  with assms show ?thesis
    by (auto simp: handle_connect_def call_handle_tcpstream_def ctx_typed_def split: prod.splits result.splits)
qed

lemma handle_bi_stream_typed: "ctx_typed users s \<Longrightarrow> ctx_typed users (snd (handle_bi_stream rops cb recv s))"
  by (simp add: handle_bi_stream_def handle_connect_typed split: prod.split result.split)

lemma handle_datagram_typed: "ctx_typed users s \<Longrightarrow> ctx_typed users (snd (handle_datagram data s))"
  by (simp add: handle_datagram_def handle_packet_typed split: prod.split result.split Command.split)

lemma auth_timeout_task_typed: "ctx_typed users s \<Longrightarrow> ctx_typed users (auth_timeout_task s)"
  by (simp add: auth_timeout_task_def ctx_typed_def)

lemmas handler_typed = handle_uni_stream_typed handle_bi_stream_typed handle_datagram_typed auth_timeout_task_typed

lemma conn_step_typed: "conn_step rops q cb st ev st' \<Longrightarrow> ctx_typed users (ctx_of st) \<Longrightarrow> ctx_typed users (ctx_of st')"
  by (induction rule: conn_step.induct) (simp_all add: handler_typed)

lemma conn_exec_typed: "ctx_typed users (ctx_of st) \<Longrightarrow> ctx_typed users (ctx_of (conn_exec rops q cb evs st))"
proof (induction evs arbitrary: st)
  case (Cons ev evs)
  then show ?case
    using conn_step_typed [of rops q cb st ev _ users] by (auto simp: conn_step_iff_next split: option.split)
qed simp

lemma handle_connection_typed:
  "handle_connection rops cb users zero_rtt inc = (r, Some s) \<Longrightarrow> ctx_typed users s"
  using conn_exec_typed [of users "Serving (InboundCtx_new users)" rops "inc_quinn inc" cb "inc_events inc"]
  by (auto simp: handle_connection_def Let_def split: option.splits if_splits)

lemma listen_loop_typed:
  assumes "\<forall>s \<in> set ctxs. ctx_typed (io_users opts) s"
  shows "\<forall>s \<in> set (snd (listen_loop rops cb opts evs ctxs)). ctx_typed (io_users opts) s"
  using assms
proof (induction evs arbitrary: ctxs)
  case (Cons ev evs)
  show ?case
  proof (cases ev)
    case (Incoming inc)
    obtain r c where c: "handle_connection rops cb (io_users opts) (io_zero_rtt opts) inc = (r, c)" by fastforce
    define ctxs2 where "ctxs2 = ctxs @ (case c of None \<Rightarrow> [] | Some s \<Rightarrow> [s])"
    have typed: "\<forall>s \<in> set ctxs2. ctx_typed (io_users opts) s"
      using Cons.prems c handle_connection_typed by (cases c) (auto simp: ctxs2_def)
    have "listen_loop rops cb opts (ev # evs) ctxs = (case r of
        None \<Rightarrow> (Busy, ctxs2) | Some Panic \<Rightarrow> (ListenPanicked, ctxs2) | Some _ \<Rightarrow> listen_loop rops cb opts evs ctxs2)"
      unfolding ctxs2_def by (simp add: Incoming c Let_def)
    with typed Cons.IH [OF typed] show ?thesis
      by (simp split: option.split result.split)
  qed (use Cons.prems in simp)
qed simp

text \<open>
  C10. The server hands on well-formed values only. Over any sequence of connections, and whatever bytes their
  clients send, every target the server hands to its callback or records for a packet is a
  well-formed address, a domain among them at most 255 bytes of valid UTF-8; every payload is
  shorter than 65536 bytes; and a connection is authenticated only as one of the configured users.
\<close>

theorem server_hands_on_typed_values:
  assumes "TuicInbound_listen tls bind endpoint rops cb opts evs = Ok (status, ctxs)" and "s \<in> set ctxs"
  shows "ctx_typed (io_users opts) s"
proof -
  have "listen_loop rops cb opts evs [] = (status, ctxs)"
    using assms(1) by (auto simp: TuicInbound_listen_def split: result.splits option.splits)
  with listen_loop_typed [of "[]" opts rops cb evs] assms(2) show ?thesis by simp
qed

definition sample_tls :: tls_ops where
  "sample_tls = \<lparr>with_single_cert = (\<lambda>_ _. None), quic_server_config = (\<lambda>_. None), idle_timeout_ok = (\<lambda>_. True)\<rparr>"

definition closing_incoming :: "bytes incoming" where
  "closing_incoming = \<lparr>inc_accept = None, inc_0rtt = False, inc_await = None, inc_quinn = sample_quinn 1200,
     inc_events = [AcceptUni (Err ''closed'')]\<rparr>"

theorem server_hands_on_typed_values_witness:
  "\<exists>s. TuicInbound_listen sample_tls None None byte_stream (\<lambda>_ _ _. None) (TuicInboundOpts_default\<lparr>io_users := sample_users\<rparr>)
      [Incoming closing_incoming] = Ok (Waiting, [s]) \<and> ctx_typed sample_users s"
proof -
  have run: "TuicInbound_listen sample_tls None None byte_stream (\<lambda>_ _ _. None) (TuicInboundOpts_default\<lparr>io_users := sample_users\<rparr>)
      [Incoming closing_incoming] = Ok (Waiting, [InboundCtx_new sample_users])"
    by (simp add: TuicInbound_listen_def create_server_config_def handle_connection_def connection_result_def Let_def
        sample_tls_def closing_incoming_def)
  from server_hands_on_typed_values [OF run] run show ?thesis by simp
qed

end
