(* ===== verification/Stream_Adapters.thy ===== *)
theory Stream_Adapters
  imports Core_Udp
begin

text \<open>
  The adapters that make one bidirectional stream of the two halves of a QUIC stream: \<open>QuinnCompat\<close> of
  \<^verbatim>\<open>crates/wind-core/src/io.rs\<close> and \<open>QuicBidiStream\<close> of \<^verbatim>\<open>crates/wind-tuic/src/inbound.rs\<close>, and \<open>TokioTcpCompat\<close> of
  \<^verbatim>\<open>crates/wind-core/src/outbound.rs\<close>. The halves are \<^verbatim>\<open>quinn\<close>'s and the TCP stream is \<^verbatim>\<open>tokio\<close>'s: their
  poll functions are parameters (\<open>send_half\<close>, \<open>recv_half\<close>). Errors are those of \<^verbatim>\<open>std::io\<close>; one made with
  \<^verbatim>\<open>io::Error::other\<close> keeps its cause.

  The locale \<open>duplex\<close> is what both QUIC adapters promise: every operation acts on one half and has the
  answer of that half up to the conversion of errors. Its client lemma is that a sequence of
  operations acts on each half as if the operations on the other half were not there.
\<close>

section \<open>The halves\<close>

datatype io_error = IoError string | OtherError string | OtherIo io_error

record 's send_half =
  raw_write :: "bytes \<Rightarrow> 's \<Rightarrow> (nat, string) result poll \<times> 's"
  raw_flush :: "'s \<Rightarrow> (unit, io_error) result poll \<times> 's"
  raw_shutdown :: "'s \<Rightarrow> (unit, io_error) result poll \<times> 's"

text \<open>Reading into a buffer with \<open>n\<close> free bytes gives the bytes put into it.\<close>

type_synonym 'r recv_half = "nat \<Rightarrow> 'r \<Rightarrow> (bytes, io_error) result poll \<times> 'r"

definition poll_map_err :: "('e \<Rightarrow> 'f) \<Rightarrow> ('a, 'e) result poll \<Rightarrow> ('a, 'f) result poll" where
  "poll_map_err f p = (case p of Pending \<Rightarrow> Pending | Ready r \<Rightarrow> Ready (map_err f r))"

section \<open>QuinnCompat\<close>

record ('s, 'r) QuinnCompat =
  qc_send :: 's
  qc_recv :: 'r

definition QuinnCompat_new :: "'s \<Rightarrow> 'r \<Rightarrow> ('s, 'r) QuinnCompat" where
  "QuinnCompat_new send_stream recv_stream = \<lparr>qc_send = send_stream, qc_recv = recv_stream\<rparr>"

definition into_inner :: "('s, 'r) QuinnCompat \<Rightarrow> 's \<times> 'r" where
  "into_inner self = (qc_send self, qc_recv self)"

definition QuinnCompat_poll_write :: "'s send_half \<Rightarrow> bytes \<Rightarrow> ('s, 'r) QuinnCompat \<Rightarrow> (nat, io_error) result poll \<times> ('s, 'r) QuinnCompat" where
  "QuinnCompat_poll_write sh buf self =
     (let (p, s) = raw_write sh buf (qc_send self) in (poll_map_err OtherError p, self\<lparr>qc_send := s\<rparr>))"

definition QuinnCompat_poll_flush :: "'s send_half \<Rightarrow> ('s, 'r) QuinnCompat \<Rightarrow> (unit, io_error) result poll \<times> ('s, 'r) QuinnCompat" where
  "QuinnCompat_poll_flush sh self = (let (p, s) = raw_flush sh (qc_send self) in (p, self\<lparr>qc_send := s\<rparr>))"

definition QuinnCompat_poll_shutdown :: "'s send_half \<Rightarrow> ('s, 'r) QuinnCompat \<Rightarrow> (unit, io_error) result poll \<times> ('s, 'r) QuinnCompat" where
  "QuinnCompat_poll_shutdown sh self = (let (p, s) = raw_shutdown sh (qc_send self) in (p, self\<lparr>qc_send := s\<rparr>))"

definition QuinnCompat_poll_read :: "'r recv_half \<Rightarrow> nat \<Rightarrow> ('s, 'r) QuinnCompat \<Rightarrow> (bytes, io_error) result poll \<times> ('s, 'r) QuinnCompat" where
  "QuinnCompat_poll_read rh n self = (let (p, r) = rh n (qc_recv self) in (p, self\<lparr>qc_recv := r\<rparr>))"

section \<open>QuicBidiStream\<close>

record ('s, 'r) QuicBidiStream =
  qb_send :: 's
  qb_recv :: 'r

definition QuicBidiStream_poll_read :: "'r recv_half \<Rightarrow> nat \<Rightarrow> ('s, 'r) QuicBidiStream \<Rightarrow> (bytes, io_error) result poll \<times> ('s, 'r) QuicBidiStream" where
  "QuicBidiStream_poll_read rh n self = (let (p, r) = rh n (qb_recv self) in (p, self\<lparr>qb_recv := r\<rparr>))"

definition QuicBidiStream_poll_write :: "'s send_half \<Rightarrow> bytes \<Rightarrow> ('s, 'r) QuicBidiStream \<Rightarrow> (nat, io_error) result poll \<times> ('s, 'r) QuicBidiStream" where
  "QuicBidiStream_poll_write sh buf self =
     (let (p, s) = raw_write sh buf (qb_send self) in (poll_map_err OtherError p, self\<lparr>qb_send := s\<rparr>))"

definition QuicBidiStream_poll_flush :: "'s send_half \<Rightarrow> ('s, 'r) QuicBidiStream \<Rightarrow> (unit, io_error) result poll \<times> ('s, 'r) QuicBidiStream" where
  "QuicBidiStream_poll_flush sh self =
     (let (p, s) = raw_flush sh (qb_send self) in (poll_map_err OtherIo p, self\<lparr>qb_send := s\<rparr>))"

definition QuicBidiStream_poll_shutdown :: "'s send_half \<Rightarrow> ('s, 'r) QuicBidiStream \<Rightarrow> (unit, io_error) result poll \<times> ('s, 'r) QuicBidiStream" where
  "QuicBidiStream_poll_shutdown sh self =
     (let (p, s) = raw_shutdown sh (qb_send self) in (poll_map_err OtherIo p, self\<lparr>qb_send := s\<rparr>))"

section \<open>TokioTcpCompat\<close>

record 't TokioTcpCompat =
  tt_inner :: 't

record 't tcp_ops =
  tcp_read :: "nat \<Rightarrow> 't \<Rightarrow> (bytes, io_error) result poll \<times> 't"
  tcp_write :: "bytes \<Rightarrow> 't \<Rightarrow> (nat, io_error) result poll \<times> 't"
  tcp_flush :: "'t \<Rightarrow> (unit, io_error) result poll \<times> 't"
  tcp_shutdown :: "'t \<Rightarrow> (unit, io_error) result poll \<times> 't"

definition project :: "('t \<Rightarrow> 'a \<times> 't) \<Rightarrow> 't TokioTcpCompat \<Rightarrow> 'a \<times> 't TokioTcpCompat" where
  "project f self = (let (p, t) = f (tt_inner self) in (p, self\<lparr>tt_inner := t\<rparr>))"

definition TokioTcpCompat_poll_read :: "'t tcp_ops \<Rightarrow> nat \<Rightarrow> 't TokioTcpCompat \<Rightarrow> (bytes, io_error) result poll \<times> 't TokioTcpCompat" where
  "TokioTcpCompat_poll_read ops n = project (tcp_read ops n)"

definition TokioTcpCompat_poll_write :: "'t tcp_ops \<Rightarrow> bytes \<Rightarrow> 't TokioTcpCompat \<Rightarrow> (nat, io_error) result poll \<times> 't TokioTcpCompat" where
  "TokioTcpCompat_poll_write ops buf = project (tcp_write ops buf)"

definition TokioTcpCompat_poll_flush :: "'t tcp_ops \<Rightarrow> 't TokioTcpCompat \<Rightarrow> (unit, io_error) result poll \<times> 't TokioTcpCompat" where
  "TokioTcpCompat_poll_flush ops = project (tcp_flush ops)"

definition TokioTcpCompat_poll_shutdown :: "'t tcp_ops \<Rightarrow> 't TokioTcpCompat \<Rightarrow> (unit, io_error) result poll \<times> 't TokioTcpCompat" where
  "TokioTcpCompat_poll_shutdown ops = project (tcp_shutdown ops)"

section \<open>What the QUIC adapters promise\<close>

datatype stream_op = OpRead nat | OpWrite bytes | OpFlush | OpShutdown

text \<open>The answer of an operation; which errors it carries is left to the caller.\<close>

datatype answer = GotBytes "(bytes, io_error) result poll" | GotCount "(nat, io_error) result poll" | GotUnit "(unit, io_error) result poll"

definition stream_op_apply ::
  "(nat \<Rightarrow> 'd \<Rightarrow> (bytes, io_error) result poll \<times> 'd) \<Rightarrow> (bytes \<Rightarrow> 'd \<Rightarrow> (nat, io_error) result poll \<times> 'd) \<Rightarrow>
   ('d \<Rightarrow> (unit, io_error) result poll \<times> 'd) \<Rightarrow> ('d \<Rightarrow> (unit, io_error) result poll \<times> 'd) \<Rightarrow> stream_op \<Rightarrow> 'd \<Rightarrow> answer \<times> 'd" where
  "stream_op_apply rd wr fl sd x d = (case x of
     OpRead n \<Rightarrow> apfst GotBytes (rd n d)
   | OpWrite bs \<Rightarrow> apfst GotCount (wr bs d)
   | OpFlush \<Rightarrow> apfst GotUnit (fl d)
   | OpShutdown \<Rightarrow> apfst GotUnit (sd d))"

fun run_ops :: "(stream_op \<Rightarrow> 'd \<Rightarrow> answer \<times> 'd) \<Rightarrow> stream_op list \<Rightarrow> 'd \<Rightarrow> answer list \<times> 'd" where
  "run_ops f [] d = ([], d)"
| "run_ops f (x # xs) d = (let (a, d1) = f x d; (as, d2) = run_ops f xs d1 in (a # as, d2))"

fun reads :: "stream_op \<Rightarrow> bool" where
  "reads (OpRead n) \<longleftrightarrow> True"
| "reads _ \<longleftrightarrow> False"

locale duplex =
  fixes read_op :: "nat \<Rightarrow> 'd \<Rightarrow> (bytes, io_error) result poll \<times> 'd"
    and write_op :: "bytes \<Rightarrow> 'd \<Rightarrow> (nat, io_error) result poll \<times> 'd"
    and flush_op shutdown_op :: "'d \<Rightarrow> (unit, io_error) result poll \<times> 'd"
    and send_of :: "'d \<Rightarrow> 's" and recv_of :: "'d \<Rightarrow> 'r"
    and sh :: "'s send_half" and rh :: "'r recv_half"
    and conv :: "io_error \<Rightarrow> io_error"
  assumes read_law: "fst (read_op n d) = fst (rh n (recv_of d))" "recv_of (snd (read_op n d)) = snd (rh n (recv_of d))"
      "send_of (snd (read_op n d)) = send_of d"
    and write_law: "fst (write_op bs d) = poll_map_err OtherError (fst (raw_write sh bs (send_of d)))"
      "send_of (snd (write_op bs d)) = snd (raw_write sh bs (send_of d))" "recv_of (snd (write_op bs d)) = recv_of d"
    and flush_law: "fst (flush_op d) = poll_map_err conv (fst (raw_flush sh (send_of d)))"
      "send_of (snd (flush_op d)) = snd (raw_flush sh (send_of d))" "recv_of (snd (flush_op d)) = recv_of d"
    and shutdown_law: "fst (shutdown_op d) = poll_map_err conv (fst (raw_shutdown sh (send_of d)))"
      "send_of (snd (shutdown_op d)) = snd (raw_shutdown sh (send_of d))" "recv_of (snd (shutdown_op d)) = recv_of d"
begin

abbreviation op_apply :: "stream_op \<Rightarrow> 'd \<Rightarrow> answer \<times> 'd" where
  "op_apply \<equiv> stream_op_apply read_op write_op flush_op shutdown_op"

lemmas laws = read_law write_law flush_law shutdown_law

lemma op_other_half:
  "reads x \<Longrightarrow> send_of (snd (op_apply x d)) = send_of d"
  "\<not> reads x \<Longrightarrow> recv_of (snd (op_apply x d)) = recv_of d"
  by (cases x; simp add: stream_op_apply_def laws)+

lemma op_same_half:
  "reads x \<Longrightarrow> recv_of d = recv_of d' \<Longrightarrow> fst (op_apply x d) = fst (op_apply x d') \<and>
     recv_of (snd (op_apply x d)) = recv_of (snd (op_apply x d'))"
  "\<not> reads x \<Longrightarrow> send_of d = send_of d' \<Longrightarrow> fst (op_apply x d) = fst (op_apply x d') \<and>
     send_of (snd (op_apply x d)) = send_of (snd (op_apply x d'))"
  by (cases x; simp add: stream_op_apply_def laws)+

text \<open>The read side of a run is the run of the reads alone, and so for the write side.\<close>

lemma run_reads:
  "recv_of d = recv_of d' \<Longrightarrow>
    map snd (filter (reads \<circ> fst) (zip xs (fst (run_ops op_apply xs d)))) = fst (run_ops op_apply (filter reads xs) d') \<and>
    recv_of (snd (run_ops op_apply xs d)) = recv_of (snd (run_ops op_apply (filter reads xs) d'))"
proof (induction xs arbitrary: d d')
  case (Cons x xs)
  show ?case
  proof (cases "reads x")
    case True
    with Cons.IH [of "snd (op_apply x d)" "snd (op_apply x d')"] op_same_half(1) [OF True Cons.prems] show ?thesis
      by (simp add: split_beta Let_def)
  next
    case False
    with Cons.IH [of "snd (op_apply x d)" d'] op_other_half(2) [OF False, of d] Cons.prems show ?thesis
      by (simp add: split_beta Let_def)
  qed
qed simp

lemma run_writes:
  "send_of d = send_of d' \<Longrightarrow>
    map snd (filter (Not \<circ> reads \<circ> fst) (zip xs (fst (run_ops op_apply xs d)))) = fst (run_ops op_apply (filter (Not \<circ> reads) xs) d') \<and>
    send_of (snd (run_ops op_apply xs d)) = send_of (snd (run_ops op_apply (filter (Not \<circ> reads) xs) d'))"
proof (induction xs arbitrary: d d')
  case (Cons x xs)
  show ?case
  proof (cases "reads x")
    case False
    with Cons.IH [of "snd (op_apply x d)" "snd (op_apply x d')"] op_same_half(2) [OF False Cons.prems] show ?thesis
      by (simp add: split_beta Let_def)
  next
    case True
    with Cons.IH [of "snd (op_apply x d)" d'] op_other_half(1) [OF True, of d] Cons.prems show ?thesis
      by (simp add: split_beta Let_def)
  qed
qed simp

end

lemma poll_map_err_id [simp]: "poll_map_err (\<lambda>e. e) p = p"
proof (cases p)
  case (Ready r)
  then show ?thesis by (cases r) (simp_all add: poll_map_err_def)
qed (simp add: poll_map_err_def)

interpretation compat: duplex "QuinnCompat_poll_read rh" "QuinnCompat_poll_write sh" "QuinnCompat_poll_flush sh"
    "QuinnCompat_poll_shutdown sh" qc_send qc_recv sh rh "\<lambda>e. e" for sh :: "'s send_half" and rh :: "'r recv_half"
  by unfold_locales (simp_all add: QuinnCompat_poll_read_def QuinnCompat_poll_write_def QuinnCompat_poll_flush_def
      QuinnCompat_poll_shutdown_def split_beta Let_def)

interpretation bidi: duplex "QuicBidiStream_poll_read rh" "QuicBidiStream_poll_write sh" "QuicBidiStream_poll_flush sh"
    "QuicBidiStream_poll_shutdown sh" qb_send qb_recv sh rh OtherIo for sh :: "'s send_half" and rh :: "'r recv_half"
  by unfold_locales (simp_all add: QuicBidiStream_poll_read_def QuicBidiStream_poll_write_def QuicBidiStream_poll_flush_def
      QuicBidiStream_poll_shutdown_def split_beta Let_def)

text \<open>
  The two adapters agree. On the same stream, and for any sequence of reads and writes, they give the same
  answers; flushing and shutting down they differ only in how an error is wrapped.
\<close>

theorem adapters_agree:
  assumes "qb_send b = qc_send c" and "qb_recv b = qc_recv c" and "set xs \<subseteq> range OpRead \<union> range OpWrite"
  shows "fst (run_ops (stream_op_apply (QuicBidiStream_poll_read rh) (QuicBidiStream_poll_write sh)
        (QuicBidiStream_poll_flush sh) (QuicBidiStream_poll_shutdown sh)) xs b) =
    fst (run_ops (stream_op_apply (QuinnCompat_poll_read rh) (QuinnCompat_poll_write sh)
        (QuinnCompat_poll_flush sh) (QuinnCompat_poll_shutdown sh)) xs c)"
  using assms
proof (induction xs arbitrary: b c)
  case (Cons x xs)
  let ?b = "snd (bidi.op_apply rh sh x b)" and ?c = "snd (compat.op_apply rh sh x c)"
  have "fst (bidi.op_apply rh sh x b) = fst (compat.op_apply rh sh x c) \<and> qb_send ?b = qc_send ?c \<and> qb_recv ?b = qc_recv ?c"
    using Cons.prems by (auto simp: stream_op_apply_def bidi.laws compat.laws)
  with Cons.IH [of ?b ?c] Cons.prems(3) show ?case
    by (simp add: split_beta Let_def)
qed simp

end
