(* ===== verification/Addr_Text.thy ===== *)
theory Addr_Text
  imports Net_Types
begin

text \<open>
  The text form of target addresses, \<^verbatim>\<open>crates/wind-core/src/types.rs\<close>: \<^verbatim>\<open>Display\<close>, which \<^verbatim>\<open>Serialize\<close> goes
  through, and \<^verbatim>\<open>Deserialize\<close>. The parts of Rust's standard library they use are modelled as it has
  them: printing numbers and IP addresses, the parser of IP addresses with its bounded groups, its
  shortened zeros and its embedded IPv4 form, and the parser of port numbers. A parser returns what it
  has read with the rest of the input, and \<open>None\<close> when it fails, in which case nothing has been read.
\<close>

section \<open>Numbers\<close>

definition digit_char :: "nat \<Rightarrow> char" where
  "digit_char d = (if d < 10 then char_of (48 + d) else char_of (87 + d))"

text \<open>\<^verbatim>\<open>char::to_digit\<close>\<close>

definition to_digit :: "nat \<Rightarrow> char \<Rightarrow> nat option" where
  "to_digit radix c =
     (let n = of_char c :: nat;
          d = (if 48 \<le> n \<and> n \<le> 57 then n - 48
               else if 97 \<le> n \<and> n \<le> 102 then n - 87
               else if 65 \<le> n \<and> n \<le> 70 then n - 55
               else radix)
      in if d < radix then Some d else None)"

function show_radix :: "nat \<Rightarrow> nat \<Rightarrow> string" where
  "show_radix r n = (if n < r \<or> r < 2 then [digit_char n] else show_radix r (n div r) @ [digit_char (n mod r)])"
  by pat_completeness auto
termination
  by (relation "measure snd") (auto simp: not_less intro: div_less_dividend)

declare show_radix.simps [simp del]

text \<open>The digit loop of \<^verbatim>\<open>read_number\<close>: value and number of the digits read.\<close>

fun read_digits :: "nat \<Rightarrow> nat \<Rightarrow> nat \<Rightarrow> nat \<Rightarrow> string \<Rightarrow> (nat \<times> nat \<times> string) option" where
  "read_digits radix max_digits result digit_count [] = Some (result, digit_count, [])"
| "read_digits radix max_digits result digit_count (c # cs) = (case to_digit radix c of
     None \<Rightarrow> Some (result, digit_count, c # cs)
   | Some digit \<Rightarrow>
       if max_digits < digit_count + 1 then None
       else read_digits radix max_digits (result * radix + digit) (digit_count + 1) cs)"

text \<open>\<open>bound\<close> is the number of values of the type asked for.\<close>

definition read_number :: "nat \<Rightarrow> nat \<Rightarrow> nat \<Rightarrow> bool \<Rightarrow> string \<Rightarrow> (nat \<times> string) option" where
  "read_number bound radix max_digits allow_zero_prefix s =
     (let has_leading_zero = (s \<noteq> [] \<and> hd s = CHR ''0'') in
      case read_digits radix max_digits 0 0 s of
        None \<Rightarrow> None
      | Some (result, digit_count, rest) \<Rightarrow>
          if digit_count = 0 then None
          else if \<not> allow_zero_prefix \<and> has_leading_zero \<and> digit_count > 1 then None
          else if result < bound then Some (result, rest)
          else None)"

text \<open>\<^verbatim>\<open>str::parse::<u16>\<close>\<close>

fun parse_u16_digits :: "nat \<Rightarrow> string \<Rightarrow> u16 option" where
  "parse_u16_digits result [] = Some (of_nat result)"
| "parse_u16_digits result (c # cs) = (case to_digit 10 c of
     None \<Rightarrow> None
   | Some d \<Rightarrow> if result * 10 + d < 65536 then parse_u16_digits (result * 10 + d) cs else None)"

definition parse_u16 :: "string \<Rightarrow> u16 option" where
  "parse_u16 s = (case s of
     [] \<Rightarrow> None
   | c # cs \<Rightarrow>
       if cs = [] \<and> (c = CHR ''+'' \<or> c = CHR ''-'') then None
       else if c = CHR ''+'' then parse_u16_digits 0 cs
       else parse_u16_digits 0 s)"

section \<open>IPv4\<close>

definition read_given_char :: "char \<Rightarrow> string \<Rightarrow> string option" where
  "read_given_char c s = (case s of x # xs \<Rightarrow> if x = c then Some xs else None | [] \<Rightarrow> None)"

definition read_separator :: "char \<Rightarrow> nat \<Rightarrow> (string \<Rightarrow> ('a \<times> string) option) \<Rightarrow> string \<Rightarrow> ('a \<times> string) option" where
  "read_separator sep index inner s =
     (if index > 0 then (case read_given_char sep s of None \<Rightarrow> None | Some s' \<Rightarrow> inner s') else inner s)"

fun read_ipv4_groups :: "nat list \<Rightarrow> string \<Rightarrow> (nat list \<times> string) option" where
  "read_ipv4_groups [] s = Some ([], s)"
| "read_ipv4_groups (i # is) s = (case read_separator CHR ''.'' i (read_number 256 10 3 False) s of
     None \<Rightarrow> None
   | Some (g, s') \<Rightarrow> (case read_ipv4_groups is s' of None \<Rightarrow> None | Some (gs, s'') \<Rightarrow> Some (g # gs, s'')))"

definition read_ipv4_addr :: "string \<Rightarrow> (Ipv4Addr \<times> string) option" where
  "read_ipv4_addr s = (case read_ipv4_groups [0, 1, 2, 3] s of
     Some ([a, b, c, d], s') \<Rightarrow> Some (Ipv4Addr (of_nat a) (of_nat b) (of_nat c) (of_nat d), s')
   | _ \<Rightarrow> None)"

definition parse_with :: "(string \<Rightarrow> ('a \<times> string) option) \<Rightarrow> string \<Rightarrow> 'a option" where
  "parse_with inner s = (case inner s of Some (x, []) \<Rightarrow> Some x | _ \<Rightarrow> None)"

definition parse_ipv4_text :: "string \<Rightarrow> Ipv4Addr option" where
  "parse_ipv4_text s = (if 15 < length s then None else parse_with read_ipv4_addr s)"

definition show_dec :: "nat \<Rightarrow> string" where
  "show_dec = show_radix 10"

definition show_hex :: "nat \<Rightarrow> string" where
  "show_hex = show_radix 16"

fun show_ipv4 :: "Ipv4Addr \<Rightarrow> string" where
  "show_ipv4 (Ipv4Addr a b c d) =
     show_dec (unat a) @ ''.'' @ show_dec (unat b) @ ''.'' @ show_dec (unat c) @ ''.'' @ show_dec (unat d)"

section \<open>IPv6\<close>

fun segments :: "Ipv6Addr \<Rightarrow> u16 list" where
  "segments (Ipv6Addr a b c d e f g h) = [a, b, c, d, e, f, g, h]"

text \<open>An array of eight segments; other lengths do not occur.\<close>

fun ipv6_from_segments :: "u16 list \<Rightarrow> Ipv6Addr" where
  "ipv6_from_segments [a, b, c, d, e, f, g, h] = Ipv6Addr a b c d e f g h"
| "ipv6_from_segments _ = ipv6_unspecified"

fun to_ipv4_mapped :: "Ipv6Addr \<Rightarrow> Ipv4Addr option" where
  "to_ipv4_mapped (Ipv6Addr a b c d e f g h) =
     (if a = 0 \<and> b = 0 \<and> c = 0 \<and> d = 0 \<and> e = 0 \<and> f = 0xffff
      then Some (ipv4_from_octets (u16_to_be_bytes g @ u16_to_be_bytes h)) else None)"

text \<open>The search for the longest run of zeros: start and length of the longest and the current run.\<close>

fun zero_span :: "nat \<Rightarrow> u16 list \<Rightarrow> nat \<times> nat \<Rightarrow> nat \<times> nat \<Rightarrow> nat \<times> nat" where
  "zero_span i [] longest current = longest"
| "zero_span i (x # xs) longest current =
     (if x = 0 then
        let current = (if snd current = 0 then (i, snd current) else current);
            current = (fst current, snd current + 1);
            longest = (if snd current > snd longest then current else longest)
        in zero_span (i + 1) xs longest current
      else zero_span (i + 1) xs longest (0, 0))"

fun fmt_subslice :: "u16 list \<Rightarrow> string" where
  "fmt_subslice [] = []"
| "fmt_subslice [x] = show_hex (unat x)"
| "fmt_subslice (x # xs) = show_hex (unat x) @ '':'' @ fmt_subslice xs"

definition show_ipv6 :: "Ipv6Addr \<Rightarrow> string" where
  "show_ipv6 addr = (case to_ipv4_mapped addr of
     Some ipv4 \<Rightarrow> ''::ffff:'' @ show_ipv4 ipv4
   | None \<Rightarrow>
       let (start, len) = zero_span 0 (segments addr) (0, 0) (0, 0) in
       if len > 1 then fmt_subslice (take start (segments addr)) @ ''::'' @ fmt_subslice (drop (start + len) (segments addr))
       else fmt_subslice (segments addr))"

text \<open>
  \<^verbatim>\<open>read_groups\<close>: reads groups into an array of \<open>limit\<close> entries, from index \<open>i\<close> on. The result is the
  groups read, whether they end with an IPv4 address, and the rest of the input.
\<close>

function read_groups :: "nat \<Rightarrow> nat \<Rightarrow> string \<Rightarrow> u16 list \<times> bool \<times> string" where
  "read_groups limit i s =
     (if limit \<le> i then ([], False, s)
      else
        case (if i < limit - 1 then read_separator CHR '':'' i read_ipv4_addr s else None) of
          Some (v4_addr, s') \<Rightarrow>
            (case octets4 v4_addr of
               [one, two, three, four] \<Rightarrow> ([u16_from_be_bytes one two, u16_from_be_bytes three four], True, s')
             | _ \<Rightarrow> ([], False, s))
        | None \<Rightarrow>
            (case read_separator CHR '':'' i (read_number 65536 16 4 True) s of
               Some (g, s') \<Rightarrow> (case read_groups limit (i + 1) s' of (gs, v4, rest) \<Rightarrow> (of_nat g # gs, v4, rest))
             | None \<Rightarrow> ([], False, s)))"
  by pat_completeness auto
termination
  by (relation "measure (\<lambda>(limit, i, s). limit - i)") auto

declare read_groups.simps [simp del]

definition read_ipv6_addr :: "string \<Rightarrow> (Ipv6Addr \<times> string) option" where
  "read_ipv6_addr s = (case read_groups 8 0 s of
     (head, head_ipv4, s1) \<Rightarrow>
       if length head = 8 then Some (ipv6_from_segments head, s1)
       else if head_ipv4 then None
       else
         (case read_given_char CHR '':'' s1 of
            None \<Rightarrow> None
          | Some s2 \<Rightarrow>
              (case read_given_char CHR '':'' s2 of
                 None \<Rightarrow> None
               | Some s3 \<Rightarrow>
                   (case read_groups (8 - (length head + 1)) 0 s3 of
                      (tail, _, s4) \<Rightarrow>
                        Some (ipv6_from_segments (head @ replicate (8 - length head - length tail) 0 @ tail), s4)))))"

definition parse_ipv6_text :: "string \<Rightarrow> Ipv6Addr option" where
  "parse_ipv6_text s = parse_with read_ipv6_addr s"

section \<open>Target addresses\<close>

fun TargetAddr_display :: "TargetAddr \<Rightarrow> string" where
  "TargetAddr_display (TDomain domain p) = domain @ '':'' @ show_dec (unat p)"
| "TargetAddr_display (TIPv4 addr p) = show_ipv4 addr @ '':'' @ show_dec (unat p)"
| "TargetAddr_display (TIPv6 addr p) = ''['' @ show_ipv6 addr @ '']:'' @ show_dec (unat p)"

definition TargetAddr_serialize :: "TargetAddr \<Rightarrow> string" where
  "TargetAddr_serialize t = TargetAddr_display t"

fun find_char :: "char \<Rightarrow> string \<Rightarrow> nat option" where
  "find_char c [] = None"
| "find_char c (x # xs) = (if x = c then Some 0 else map_option Suc (find_char c xs))"

fun split_char :: "char \<Rightarrow> string \<Rightarrow> string list" where
  "split_char c [] = [[]]"
| "split_char c (x # xs) =
     (if x = c then [] # split_char c xs
      else (case split_char c xs of p # ps \<Rightarrow> (x # p) # ps | [] \<Rightarrow> [[x]]))"

definition deserialize_ipv6 :: "string \<Rightarrow> (TargetAddr, string) result" where
  "deserialize_ipv6 s = (case find_char CHR '']'' s of
     None \<Rightarrow> Err ''Invalid IPv6 address format, missing closing bracket''
   | Some end_bracket \<Rightarrow>
       if length s \<le> end_bracket + 1 \<or> read_given_char CHR '':'' (drop (end_bracket + 1) s) = None
       then Err ''Invalid IPv6 address format, expected [IPv6]:port''
       else
         (case parse_ipv6_text (take (end_bracket - 1) (drop 1 s)) of
            None \<Rightarrow> Err ''Invalid IPv6 address''
          | Some ipv6_addr \<Rightarrow>
              (case parse_u16 (drop (end_bracket + 2) s) of
                 None \<Rightarrow> Err ''Invalid port number''
               | Some p \<Rightarrow> Ok (TIPv6 ipv6_addr p))))"

definition TargetAddr_deserialize :: "string \<Rightarrow> (TargetAddr, string) result" where
  "TargetAddr_deserialize s =
     (if s \<noteq> [] \<and> hd s = CHR ''['' then deserialize_ipv6 s
      else
        (case split_char CHR '':'' s of
           [host, port_text] \<Rightarrow>
             (case parse_u16 port_text of
                None \<Rightarrow> Err ''Invalid port number''
              | Some p \<Rightarrow>
                  (case parse_ipv4_text host of
                     Some ipv4 \<Rightarrow> Ok (TIPv4 ipv4 p)
                   | None \<Rightarrow> Ok (TDomain host p)))
         | _ \<Rightarrow> Err ''Invalid address format, expected host:port''))"

section \<open>Reading back what is printed\<close>

lemma of_char_char_of_nat: "n < 256 \<Longrightarrow> (of_char (char_of n) :: nat) = n"
  by simp

lemma to_digit_digit_char: "d < r \<Longrightarrow> r \<le> 16 \<Longrightarrow> to_digit r (digit_char d) = Some d"
  by (auto simp: to_digit_def digit_char_def Let_def)

lemma digit_char_eq_zero: "d < 16 \<Longrightarrow> digit_char d = CHR ''0'' \<longleftrightarrow> d = 0"
proof
  show "d = 0" if "d < 16" and "digit_char d = CHR ''0''"
    using to_digit_digit_char [of d 16] that by (simp add: to_digit_def)
  show "digit_char d = CHR ''0''" if "d = 0"
    unfolding that by code_simp
qed

definition digits_value :: "nat \<Rightarrow> nat \<Rightarrow> string \<Rightarrow> nat" where
  "digits_value r acc ds = foldl (\<lambda>a c. a * r + the (to_digit r c)) acc ds"

lemma digits_value_simps [simp]:
  "digits_value r acc [] = acc"
  "digits_value r acc (c # cs) = digits_value r (acc * r + the (to_digit r c)) cs"
  "digits_value r acc (cs @ [c]) = digits_value r acc cs * r + the (to_digit r c)"
  by (simp_all add: digits_value_def)

text \<open>The input goes on with something that is not a digit.\<close>

definition stops :: "nat \<Rightarrow> string \<Rightarrow> bool" where
  "stops r s \<longleftrightarrow> (case s of [] \<Rightarrow> True | c # _ \<Rightarrow> to_digit r c = None)"

lemma stops_simps [simp]: "stops r []" "stops r (c # cs) \<longleftrightarrow> to_digit r c = None"
  by (simp_all add: stops_def)

lemma to_digit_punctuation [simp]:
  "to_digit r CHR '':'' = None" "to_digit r CHR ''.'' = None" "to_digit r CHR '']'' = None"
  "to_digit r CHR ''['' = None" "to_digit r CHR ''+'' = None" "to_digit r CHR ''-'' = None"
  by (simp_all add: to_digit_def)

lemma read_digits_append:
  assumes "\<forall>c \<in> set ds. to_digit r c \<noteq> None" and "k + length ds \<le> m" and "stops r rest"
  shows "read_digits r m acc k (ds @ rest) = Some (digits_value r acc ds, k + length ds, rest)"
  using assms
proof (induction ds arbitrary: acc k)
  case Nil
  then show ?case by (cases rest) simp_all
qed auto

lemma show_radix_small: "n < r \<Longrightarrow> show_radix r n = [digit_char n]"
  by (subst show_radix.simps) simp

lemma show_radix_large: "r \<le> n \<Longrightarrow> 2 \<le> r \<Longrightarrow> show_radix r n = show_radix r (n div r) @ [digit_char (n mod r)]"
  by (subst show_radix.simps) simp

lemma show_radix_digits:
  assumes "2 \<le> r" and "r \<le> 16"
  shows "(\<forall>c \<in> set (show_radix r n). to_digit r c \<noteq> None) \<and> digits_value r 0 (show_radix r n) = n"
  using assms
proof (induction r n rule: show_radix.induct)
  case (1 r n)
  show ?case
  proof (cases "n < r")
    case True
    with 1 show ?thesis by (simp add: show_radix_small to_digit_digit_char)
  next
    case False
    with 1 show ?thesis by (simp add: show_radix_large to_digit_digit_char)
  qed
qed

lemma show_radix_length: "2 \<le> r \<Longrightarrow> n < r ^ Suc k \<Longrightarrow> length (show_radix r n) \<le> Suc k"
proof (induction k arbitrary: n)
  case (Suc k)
  show ?case
  proof (cases "n < r")
    case False
    have "n div r < r ^ Suc k"
      using Suc.prems by (intro less_mult_imp_div_less) (simp add: mult.commute)
    with Suc False show ?thesis by (simp add: show_radix_large)
  qed (simp add: show_radix_small)
qed (simp add: show_radix_small)

lemma show_radix_not_Nil [simp]: "show_radix r n \<noteq> []"
  by (subst show_radix.simps) simp

lemma show_radix_leading_zero:
  assumes "2 \<le> r" and "r \<le> 16" and "hd (show_radix r n) = CHR ''0''"
  shows "length (show_radix r n) = 1"
proof -
  have "hd (show_radix r n) = CHR ''0'' \<Longrightarrow> n = 0"
    using assms(1,2)
  proof (induction r n rule: show_radix.induct)
    case (1 r n)
    show ?case
    proof (cases "n < r")
      case True
      with 1 show ?thesis by (simp add: show_radix_small digit_char_eq_zero)
    next
      case False
      with 1 have "n div r = 0" by (simp add: show_radix_large)
      with False 1 show ?thesis by (simp add: div_eq_0_iff)
    qed
  qed
  with assms show ?thesis by (simp add: show_radix_small)
qed

lemma read_number_show:
  assumes "2 \<le> r" and "r \<le> 16" and "n < r ^ Suc k" and "n < bound" and "stops r rest"
  shows "read_number bound r (Suc k) zero (show_radix r n @ rest) = Some (n, rest)"
proof -
  have "read_digits r (Suc k) 0 0 (show_radix r n @ rest) = Some (n, length (show_radix r n), rest)"
    using read_digits_append [of "show_radix r n" r 0 "Suc k" rest 0] show_radix_digits [OF assms(1,2), of n]
      show_radix_length [OF assms(1,3)] assms(5) by simp
  with assms(4) show_radix_leading_zero [OF assms(1,2), of n] show ?thesis
    by (auto simp: read_number_def Let_def)
qed

lemma parse_u16_digits_value:
  "\<forall>c \<in> set ds. to_digit 10 c \<noteq> None \<Longrightarrow> digits_value 10 acc ds < 65536 \<Longrightarrow>
    parse_u16_digits acc ds = Some (of_nat (digits_value 10 acc ds)) \<and> acc \<le> digits_value 10 acc ds"
proof (induction ds arbitrary: acc)
  case (Cons c ds)
  from Cons.prems obtain d where "to_digit 10 c = Some d" by auto
  with Cons.IH [of "acc * 10 + d"] Cons.prems show ?case by simp
qed simp

lemma parse_u16_show: "parse_u16 (show_dec (unat p)) = Some p"
proof -
  have digits: "\<forall>c \<in> set (show_dec (unat p)). to_digit 10 c \<noteq> None" and val: "digits_value 10 0 (show_dec (unat p)) = unat p"
    using show_radix_digits [of 10 "unat p"] by (simp_all add: show_dec_def)
  have "parse_u16_digits 0 (show_dec (unat p)) = Some p"
    using parse_u16_digits_value [OF digits, of 0] val unsigned_less [of p, where 'a = nat] by simp
  moreover obtain c cs where "show_dec (unat p) = c # cs"
    by (cases "show_dec (unat p)") (simp_all add: show_dec_def)
  moreover have "c \<noteq> CHR ''+''" "c \<noteq> CHR ''-''"
    using digits calculation(2) by auto
  ultimately show ?thesis by (simp add: parse_u16_def)
qed

lemma unat_u8_lt: "unat (x :: u8) < 256"
  using unsigned_less [of x, where 'a = nat] by simp

lemma unat_u16_lt: "unat (x :: u16) < 65536"
  using unsigned_less [of x, where 'a = nat] by simp

lemma read_octet: "stops 10 rest \<Longrightarrow> read_number 256 10 3 False (show_dec (unat (x :: u8)) @ rest) = Some (unat x, rest)"
  using read_number_show [of 10 "unat x" 2 256 rest False] unat_u8_lt [of x]
  by (simp add: show_dec_def)

lemma read_ipv4_addr_show: "stops 10 rest \<Longrightarrow> read_ipv4_addr (show_ipv4 a @ rest) = Some (a, rest)"
  by (cases a) (simp add: read_ipv4_addr_def read_separator_def read_given_char_def read_octet)

lemma length_show_octet: "length (show_dec (unat (x :: u8))) \<le> 3"
  using show_radix_length [of 10 "unat x" 2] unat_u8_lt [of x] by (simp add: show_dec_def)

lemma parse_ipv4_text_show: "parse_ipv4_text (show_ipv4 a) = Some a"
proof -
  have "length (show_ipv4 a) \<le> 15"
  proof (cases a)
    case (Ipv4Addr w x y z)
    then show ?thesis
      using length_show_octet [of w] length_show_octet [of x] length_show_octet [of y] length_show_octet [of z] by simp
  qed
  with read_ipv4_addr_show [of "[]" a] show ?thesis
    by (simp add: parse_ipv4_text_def parse_with_def)
qed

text \<open>An IPv4 address is read only where a full stop follows the first number.\<close>

lemma read_digits_rest: "read_digits r m acc k s = Some (v, n, rest) \<Longrightarrow> rest = dropWhile (\<lambda>c. to_digit r c \<noteq> None) s"
  by (induction r m acc k s rule: read_digits.induct) (auto split: option.splits if_splits)

lemma read_ipv4_addr_fails:
  assumes "dropWhile (\<lambda>c. to_digit 10 c \<noteq> None) s = [] \<or> hd (dropWhile (\<lambda>c. to_digit 10 c \<noteq> None) s) \<noteq> CHR ''.''"
  shows "read_ipv4_addr s = None"
proof (cases "read_number 256 10 3 False s")
  case None
  then show ?thesis by (simp add: read_ipv4_addr_def read_separator_def)
next
  case (Some gr)
  then obtain g rest where gr: "read_number 256 10 3 False s = Some (g, rest)" by (cases gr) simp
  then have "rest = dropWhile (\<lambda>c. to_digit 10 c \<noteq> None) s"
    by (auto simp: read_number_def Let_def dest!: read_digits_rest split: option.splits if_splits)
  with assms have "rest = [] \<or> hd rest \<noteq> CHR ''.''" by simp
  then have "read_given_char CHR ''.'' rest = None"
    by (cases rest) (auto simp: read_given_char_def)
  with gr show ?thesis by (simp add: read_ipv4_addr_def read_separator_def)
qed

text \<open>After a group comes a colon or the end.\<close>

definition group_end :: "string \<Rightarrow> bool" where
  "group_end s \<longleftrightarrow> s = [] \<or> hd s = CHR '':''"

lemma group_end_simps [simp]: "group_end []" "group_end (CHR '':'' # s)"
  by (simp_all add: group_end_def)

lemma group_end_stops: "group_end s \<Longrightarrow> stops r s"
  by (cases s) (simp_all add: group_end_def)

lemma show_hex_digits: "c \<in> set (show_hex n) \<Longrightarrow> to_digit 16 c \<noteq> None"
  using show_radix_digits [of 16 n] by (simp add: show_hex_def)

lemma read_ipv4_addr_group:
  assumes "group_end rest"
  shows "read_ipv4_addr (show_hex n @ rest) = None"
proof (rule read_ipv4_addr_fails)
  have "dropWhile P (ds @ rest) = [] \<or> hd (dropWhile P (ds @ rest)) \<noteq> CHR ''.''"
    if "CHR ''.'' \<notin> set ds" and "\<not> P CHR '':''" for ds P
    using that assms by (induction ds) (cases rest; auto simp: group_end_def)+
  moreover have "CHR ''.'' \<notin> set (show_hex n)"
    using show_hex_digits [of "CHR ''.''" n] by auto
  ultimately show "dropWhile (\<lambda>c. to_digit 10 c \<noteq> None) (show_hex n @ rest) = [] \<or>
      hd (dropWhile (\<lambda>c. to_digit 10 c \<noteq> None) (show_hex n @ rest)) \<noteq> CHR ''.''"
    by simp
qed

lemma read_group: "group_end rest \<Longrightarrow> read_number 65536 16 4 True (show_hex (unat (x :: u16)) @ rest) = Some (unat x, rest)"
  using read_number_show [of 16 "unat x" 3 65536 rest True] unat_u16_lt [of x] group_end_stops [of rest 16]
  by (simp add: show_hex_def)

lemma read_groups_step:
  assumes "i < limit" and "group_end rest"
  shows "read_groups limit i ((if i > 0 then '':'' else []) @ show_hex (unat x) @ rest) =
    (case read_groups limit (i + 1) rest of (gs, v4, s) \<Rightarrow> (x # gs, v4, s))"
  using assms by (subst read_groups.simps)
    (simp add: read_separator_def read_given_char_def read_ipv4_addr_group read_group)

lemma nothing_to_read [simp]:
  "read_ipv4_addr [] = None" "read_ipv4_addr (CHR '':'' # s) = None"
  "read_number b r m z [] = None" "read_number b r m z (CHR '':'' # s) = None"
  by (simp_all add: read_ipv4_addr_fails read_number_def)

lemma read_groups_stop: "rest = [] \<or> (\<exists>s. rest = ''::'' @ s) \<Longrightarrow> read_groups limit i rest = ([], False, rest)"
  by (subst read_groups.simps) (auto simp: read_separator_def read_given_char_def)

lemma fmt_subslice_Cons: "fmt_subslice (x # xs) = show_hex (unat x) @ concat (map (\<lambda>y. CHR '':'' # show_hex (unat y)) xs)"
  by (induction xs arbitrary: x) simp_all

lemma read_groups_more:
  assumes "0 < i" and "i + length xs \<le> limit" and "rest = [] \<or> (\<exists>s. rest = ''::'' @ s)"
  shows "read_groups limit i (concat (map (\<lambda>y. CHR '':'' # show_hex (unat y)) xs) @ rest) = (xs, False, rest)"
  using assms
proof (induction xs arbitrary: i)
  case (Cons x xs)
  have "group_end (concat (map (\<lambda>y. CHR '':'' # show_hex (unat y)) xs) @ rest)"
    using assms(3) by (cases xs) auto
  from read_groups_step [OF _ this, of i limit x] Cons show ?case by simp
qed (simp add: read_groups_stop)

lemma read_groups_fmt:
  assumes "length xs \<le> limit" and "rest = [] \<or> (\<exists>s. rest = ''::'' @ s)"
  shows "read_groups limit 0 (fmt_subslice xs @ rest) = (xs, False, rest)"
proof (cases xs)
  case (Cons x ys)
  have "group_end (concat (map (\<lambda>y. CHR '':'' # show_hex (unat y)) ys) @ rest)"
    using assms(2) by (cases ys) auto
  from read_groups_step [OF _ this, of 0 limit x] read_groups_more [of 1 ys limit rest] assms Cons show ?thesis
    by (simp add: fmt_subslice_Cons)
qed (use assms read_groups_stop in simp)

text \<open>The run found consists of zeros.\<close>

definition zeros_at :: "u16 list \<Rightarrow> nat \<times> nat \<Rightarrow> bool" where
  "zeros_at xs sp \<longleftrightarrow> fst sp + snd sp \<le> length xs \<and> take (snd sp) (drop (fst sp) xs) = replicate (snd sp) 0"

lemma zeros_at_empty [simp]: "zeros_at xs (0, 0)"
  by (simp add: zeros_at_def)

lemma zeros_at_Suc:
  assumes "zeros_at xs (a, n)" and "a + n < length xs" and "xs ! (a + n) = 0"
  shows "zeros_at xs (a, Suc n)"
  using assms by (auto simp: zeros_at_def take_Suc_conv_app_nth replicate_append_same)

lemma zero_span_zeros:
  assumes "xs = drop i ys" and "i \<le> length ys" and "zeros_at ys longest" and "zeros_at ys current"
    and "snd current \<noteq> 0 \<Longrightarrow> fst current + snd current = i"
  shows "zeros_at ys (zero_span i xs longest current)"
  using assms
proof (induction i xs longest current rule: zero_span.induct)
  case (2 i x xs longest current)
  have i: "i < length ys" and x: "ys ! i = x" and xs: "xs = drop (i + 1) ys"
    using "2.prems"(1,2) by (auto simp: Cons_nth_drop_Suc [symmetric] dest: sym) (metis Cons_nth_drop_Suc drop_all linorder_not_less list.distinct(1) list.inject)+
  show ?case
  proof (cases "x = 0")
    case True
    let ?a = "if snd current = 0 then i else fst current"
    have "zeros_at ys (?a, Suc (snd current))"
      using zeros_at_Suc [of ys ?a "snd current"] "2.prems"(4,5) i x True by (auto simp: zeros_at_def)
    moreover have "?a + Suc (snd current) = i + 1" using "2.prems"(5) by auto
    ultimately show ?thesis
      using "2.IH"(1) [OF True refl refl refl] "2.prems"(3) i xs True by (auto simp: Let_def)
  next
    case False
    with "2.IH"(2) [OF False] "2.prems"(3) i xs show ?thesis by simp
  qed
qed simp

lemma zeros_at_fill:
  assumes "zeros_at xs (a, n)"
  shows "take a xs @ replicate n 0 @ drop (a + n) xs = xs"
  using assms unfolding zeros_at_def
  by (metis append_take_drop_id drop_drop add.commute fst_conv snd_conv)

lemma segments_back: "ipv6_from_segments (segments addr) = addr"
  by (cases addr) simp

lemma length_segments: "length (segments addr) = 8"
  by (cases addr) simp

lemma read_ipv6_addr_mapped:
  assumes "to_ipv4_mapped addr = Some ipv4"
  shows "read_ipv6_addr (''::ffff:'' @ show_ipv4 ipv4) = Some (addr, [])"
proof -
  obtain g h where addr: "addr = Ipv6Addr 0 0 0 0 0 0xffff g h"
    and ipv4: "ipv4 = ipv4_from_octets (u16_to_be_bytes g @ u16_to_be_bytes h)"
    using assms by (cases addr) (auto split: if_splits)
  have "digit_char 15 = CHR ''f''" by code_simp
  then have ffff: "show_hex (unat (0xffff :: u16)) = ''ffff''"
    by (simp add: show_hex_def show_radix_large show_radix_small)
  have "read_groups 7 1 ('':'' @ show_ipv4 ipv4) = ([g, h], True, [])"
    using read_ipv4_addr_show [of "[]" ipv4]
    by (subst read_groups.simps) (simp add: read_separator_def read_given_char_def ipv4 u16_to_be_bytes_def)
  with read_groups_step [of 0 7 "'':'' @ show_ipv4 ipv4" "0xffff"]
  have "read_groups 7 0 (''ffff:'' @ show_ipv4 ipv4) = ([0xffff, g, h], True, [])"
    unfolding ffff by simp
  moreover have "read_groups 8 0 (''::ffff:'' @ show_ipv4 ipv4) = ([], False, ''::ffff:'' @ show_ipv4 ipv4)"
    by (rule read_groups_stop) simp
  moreover have "ipv6_from_segments (replicate 5 0 @ [0xffff, g, h]) = addr"
    by (simp add: addr eval_nat_numeral)
  ultimately show ?thesis
    by (simp add: read_ipv6_addr_def read_given_char_def)
qed

lemma read_ipv6_addr_show: "read_ipv6_addr (show_ipv6 addr) = Some (addr, [])"
proof (cases "to_ipv4_mapped addr")
  case (Some ipv4)
  then show ?thesis by (simp add: show_ipv6_def read_ipv6_addr_mapped del: append_Cons append_Nil)
next
  case None
  let ?xs = "segments addr"
  obtain a n where span: "zero_span 0 ?xs (0, 0) (0, 0) = (a, n)" by fastforce
  have zeros: "zeros_at ?xs (a, n)"
    using zero_span_zeros [of ?xs 0 ?xs "(0, 0)" "(0, 0)"] span by simp
  show ?thesis
  proof (cases "n > 1")
    case True
    have le: "a + n \<le> 8" using zeros by (simp add: zeros_at_def length_segments)
    let ?tail = "drop (a + n) ?xs"
    have "read_groups 8 0 (show_ipv6 addr) = (take a ?xs, False, ''::'' @ fmt_subslice ?tail)"
      using read_groups_fmt [of "take a ?xs" 8 "''::'' @ fmt_subslice ?tail"] None span True
      by (simp add: show_ipv6_def length_segments)
    moreover have "read_groups (7 - a) 0 (fmt_subslice ?tail) = (?tail, False, [])"
      using read_groups_fmt [of ?tail "7 - a" "[]"] True le by (simp add: length_segments)
    moreover have "take a ?xs @ replicate (8 - a - (8 - (a + n))) 0 @ ?tail = ?xs"
      using zeros_at_fill [OF zeros] le by simp
    ultimately show ?thesis
      using True le by (simp add: read_ipv6_addr_def read_given_char_def length_segments segments_back)
  next
    case False
    with None span read_groups_fmt [of ?xs 8 "[]"] show ?thesis
      by (simp add: show_ipv6_def read_ipv6_addr_def length_segments segments_back)
  qed
qed

lemma parse_ipv6_text_show: "parse_ipv6_text (show_ipv6 addr) = Some addr"
  by (simp add: parse_ipv6_text_def parse_with_def read_ipv6_addr_show)

text \<open>Which characters are printed.\<close>

lemma show_dec_chars: "c \<in> set (show_dec n) \<Longrightarrow> to_digit 16 c \<noteq> None"
  using show_radix_digits [of 10 n] by (fastforce simp: show_dec_def to_digit_def Let_def split: if_splits)

lemma show_ipv4_chars: "c \<in> set (show_ipv4 a) \<Longrightarrow> to_digit 16 c \<noteq> None \<or> c = CHR ''.''"
  by (cases a) (auto dest!: show_dec_chars)

lemma fmt_subslice_chars: "c \<in> set (fmt_subslice xs) \<Longrightarrow> to_digit 16 c \<noteq> None \<or> c = CHR '':''"
  by (induction xs rule: fmt_subslice.induct) (auto dest!: show_hex_digits)

lemma show_ipv6_bracket: "CHR '']'' \<notin> set (show_ipv6 a)"
proof
  assume "CHR '']'' \<in> set (show_ipv6 a)"
  then show False
    by (auto simp: show_ipv6_def Let_def split: option.splits prod.splits if_splits
        dest!: show_ipv4_chars fmt_subslice_chars)
qed

section \<open>The text form of an address can be read back\<close>

lemma find_char_skip: "c \<notin> set xs \<Longrightarrow> find_char c (xs @ c # ys) = Some (length xs)"
  by (induction xs) auto

lemma split_char_single: "c \<notin> set xs \<Longrightarrow> split_char c xs = [xs]"
  by (induction xs) auto

lemma split_char_pair: "c \<notin> set xs \<Longrightarrow> c \<notin> set ys \<Longrightarrow> split_char c (xs @ c # ys) = [xs, ys]"
  by (induction xs) (auto simp: split_char_single)

lemma length_split_char: "length (split_char c s) = Suc (length (filter (\<lambda>x. x = c) s))"
  by (induction s) (auto split: list.split)

lemma no_colon_dec: "CHR '':'' \<notin> set (show_dec n)"
  using show_dec_chars [of "CHR '':''" n] by auto

lemma deserialize_ipv6_show: "deserialize_ipv6 (''['' @ show_ipv6 a @ '']:'' @ show_dec (unat p)) = Ok (TIPv6 a p)"
proof -
  have "find_char CHR '']'' (''['' @ show_ipv6 a @ '']:'' @ show_dec (unat p)) = Some (Suc (length (show_ipv6 a)))"
    using find_char_skip [of "CHR '']''" "show_ipv6 a"] show_ipv6_bracket [of a] by simp
  then show ?thesis
    by (simp add: deserialize_ipv6_def read_given_char_def parse_ipv6_text_show parse_u16_show)
qed

lemma deserialize_ipv6_not_domain: "deserialize_ipv6 s \<noteq> Ok (TDomain d p)"
  by (simp add: deserialize_ipv6_def split: option.split)

lemma text_round_trip:
  "TargetAddr_deserialize (TargetAddr_serialize t) = Ok t \<longleftrightarrow> (case t of
     TDomain d p \<Rightarrow> CHR '':'' \<notin> set d \<and> take 1 d \<noteq> ''['' \<and> parse_ipv4_text d = None
   | _ \<Rightarrow> True)"
proof (cases t)
  case (TDomain d p)
  show ?thesis
  proof (cases "CHR '':'' \<in> set d")
    case True
    then obtain x xs where "filter (\<lambda>c. c = CHR '':'') d = x # xs"
      by (cases "filter (\<lambda>c. c = CHR '':'') d") (auto simp: filter_empty_conv)
    then have "length (split_char CHR '':'' (d @ CHR '':'' # show_dec (unat p))) > 2"
      by (simp add: length_split_char)
    then show ?thesis
      using TDomain True deserialize_ipv6_not_domain
      by (auto simp: TargetAddr_deserialize_def TargetAddr_serialize_def split: list.splits)
  next
    case False
    then show ?thesis
      using TDomain split_char_pair [OF False no_colon_dec] deserialize_ipv6_not_domain
      by (cases d) (auto simp: TargetAddr_deserialize_def TargetAddr_serialize_def parse_u16_show split: option.split)
  qed
next
  case (TIPv4 a p)
  have colon: "CHR '':'' \<notin> set (show_ipv4 a)" and "CHR ''['' \<notin> set (show_ipv4 a)"
    using show_ipv4_chars [of "CHR '':''" a] show_ipv4_chars [of "CHR ''[''" a] by auto
  moreover have ne: "show_ipv4 a \<noteq> []" by (cases a) simp
  ultimately have "hd (show_ipv4 a) \<noteq> CHR ''[''"
    using hd_in_set [OF ne] by metis
  with ne show ?thesis
    using TIPv4 split_char_pair [OF colon no_colon_dec]
    by (simp add: TargetAddr_deserialize_def TargetAddr_serialize_def parse_u16_show parse_ipv4_text_show)
next
  case (TIPv6 a p)
  then show ?thesis
    using deserialize_ipv6_show [of a p] by (simp add: TargetAddr_deserialize_def TargetAddr_serialize_def)
qed

text \<open>
  C17. Text form of target addresses. Reading what has been printed gives the address back for every
  IPv4 and IPv6 address, with shortened zeros and embedded IPv4 addresses; for a domain it does so if
  and only if the domain has no colon, does not start with a bracket, and is not itself the text of
  an IPv4 address.
\<close>

theorem TargetAddr_text_round_trip:
  "TargetAddr_deserialize (TargetAddr_serialize t) = Ok t \<longleftrightarrow> (case t of
     TDomain d p \<Rightarrow> CHR '':'' \<notin> set d \<and> take 1 d \<noteq> ''['' \<and> parse_ipv4_text d = None
   | _ \<Rightarrow> True)"
  by (rule text_round_trip)

end
