(* ===== verification/Direct_Relay.thy ===== *)
theory Direct_Relay
  imports Tuic_Association Addr_Text Tuic_Server Wind_App
begin

text \<open>
  The proxy that the tests of \<^verbatim>\<open>crates/wind-test/src/socks5.rs\<close> start: its configuration and \<open>handle_udp_direct\<close>,
  its relay between a local UDP socket and the targets. The relay keeps one socket per target, in a
  map from the text form of the target; a task per socket sends the answers back. Binding a socket
  is a parameter (\<open>bind\<close> tells from the number of sockets whether it succeeds), and so is receiving.
  The sockets are numbered in the order in which they are made.
\<close>

section \<open>The relay\<close>

record target_socket =
  ts_key :: string
  ts_source :: SocketAddr

record relay =
  rl_targets :: "string \<rightharpoonup> nat"
  rl_sockets :: "target_socket list"
  rl_sent :: "(nat \<times> bytes \<times> string) list"

definition relay_new :: relay where
  "relay_new = \<lparr>rl_targets = Map.empty, rl_sockets = [], rl_sent = []\<rparr>"

text \<open>The socket of a target, made when there is none; \<open>None\<close> is the panic of a failed bind.\<close>

definition target_socket_for :: "(nat \<Rightarrow> bool) \<Rightarrow> string \<Rightarrow> SocketAddr \<Rightarrow> relay \<Rightarrow> (nat \<times> relay) option" where
  "target_socket_for bind target_key source_addr st = (case rl_targets st target_key of
     Some sock \<Rightarrow> Some (sock, st)
   | None \<Rightarrow>
       let sock = length (rl_sockets st) in
       if bind sock then Some (sock, st\<lparr>rl_targets := (rl_targets st)(target_key \<mapsto> sock),
         rl_sockets := rl_sockets st @ [\<lparr>ts_key = target_key, ts_source = source_addr\<rparr>]\<rparr>)
       else None)"

datatype relay_status = Relaying | RelayStopped | RelayPanicked

text \<open>The body of the loop over the datagrams of one reception. Errors of sending are ignored.\<close>

definition relay_datagram :: "(nat \<Rightarrow> bool) \<Rightarrow> bytes list \<Rightarrow> 'e RecvMeta list \<Rightarrow> nat \<Rightarrow> relay \<Rightarrow> relay option" where
  "relay_datagram bind bufs meta i st =
     (if i < length meta \<and> i < length bufs \<and> rm_len (meta ! i) \<le> length (bufs ! i) then
        let recv_meta = meta ! i; data = take (rm_len recv_meta) (bufs ! i) in
        (case rm_destination recv_meta of
           None \<Rightarrow> Some st
         | Some target_addr \<Rightarrow>
             let target_key = TargetAddr_display target_addr in
             (case target_socket_for bind target_key (rm_addr recv_meta) st of
                None \<Rightarrow> None
              | Some (sock, st') \<Rightarrow> Some (st'\<lparr>rl_sent := rl_sent st' @ [(sock, data, target_key)]\<rparr>)))
      else None)"

fun relay_datagrams :: "(nat \<Rightarrow> bool) \<Rightarrow> bytes list \<Rightarrow> 'e RecvMeta list \<Rightarrow> nat list \<Rightarrow> relay \<Rightarrow> relay_status \<times> relay" where
  "relay_datagrams bind bufs meta [] st = (Relaying, st)"
| "relay_datagrams bind bufs meta (i # is) st = (case relay_datagram bind bufs meta i st of
     None \<Rightarrow> (RelayPanicked, st)
   | Some st' \<Rightarrow> relay_datagrams bind bufs meta is st')"

definition relay_step :: "(nat \<Rightarrow> bool) \<Rightarrow> (nat \<times> bytes list \<times> 'e RecvMeta list, string) result \<Rightarrow> relay \<Rightarrow> relay_status \<times> relay" where
  "relay_step bind received st = (case received of
     Ok (count, bufs, meta) \<Rightarrow>
       if count > 0 then relay_datagrams bind bufs meta [0..<count] st else (RelayStopped, st)
   | Err e \<Rightarrow> (RelayStopped, st)
   | Panic \<Rightarrow> (RelayPanicked, st))"

fun relay_run :: "(nat \<Rightarrow> bool) \<Rightarrow> (nat \<times> bytes list \<times> 'e RecvMeta list, string) result list \<Rightarrow> relay \<Rightarrow> relay_status \<times> relay" where
  "relay_run bind [] st = (Relaying, st)"
| "relay_run bind (r # rs) st = (case relay_step bind r st of
     (Relaying, st') \<Rightarrow> relay_run bind rs st'
   | stopped \<Rightarrow> stopped)"

text \<open>An answer on a target's socket goes to the address its first datagram came from.\<close>

definition relay_reply :: "relay \<Rightarrow> nat \<Rightarrow> bytes \<Rightarrow> nat \<Rightarrow> 'e Transmit option" where
  "relay_reply st sock buf len =
     (if sock < length (rl_sockets st) then
        Some \<lparr>tr_destination = ts_source (rl_sockets st ! sock), tr_ecn = None, tr_contents = take len buf,
          tr_segment_size = None, tr_src_ip = None\<rparr>
      else None)"

section \<open>The configuration\<close>

record TestConfig =
  te_socks_opt :: SocksInboundOpt
  te_tuic_port :: u16

definition test_config :: "u16 \<Rightarrow> TestConfig" where
  "test_config socks_port = \<lparr>te_socks_opt = \<lparr>so_listen_addr = SockV4 (Ipv4Addr 127 0 0 1) socks_port, so_public_addr = None,
     so_auth = NoAuth, so_skip_auth = False, so_allow_udp = True\<rparr>, te_tuic_port = 0\<rparr>"

definition test_tuic_opts :: "bytes \<Rightarrow> bytes \<Rightarrow> TestConfig \<Rightarrow> TuicInboundOpts" where
  "test_tuic_opts cert_der key_der config = TuicInboundOpts_default\<lparr>
     io_listen_addr := SockV4 (Ipv4Addr 127 0 0 1) (te_tuic_port config), io_certificate := [cert_der], io_private_key := key_der,
     io_alpn := [''h3''], io_users := [tc_uuid TuicOpt_default \<mapsto> ''test_passwd''],
     io_auth_timeout := 3000, io_max_idle_time := 15000\<rparr>"

section \<open>One socket per target\<close>

definition relay_ok :: "relay \<Rightarrow> bool" where
  "relay_ok st \<longleftrightarrow>
     (\<forall>key sock. rl_targets st key = Some sock \<longleftrightarrow> sock < length (rl_sockets st) \<and> ts_key (rl_sockets st ! sock) = key) \<and>
     (\<forall>(sock, data, key) \<in> set (rl_sent st). sock < length (rl_sockets st) \<and> ts_key (rl_sockets st ! sock) = key)"

lemma relay_ok_new [simp]: "relay_ok relay_new"
  by (simp add: relay_ok_def relay_new_def)

lemma target_socket_for_ok:
  assumes "relay_ok st" and "target_socket_for bind key src st = Some (sock, st')"
  shows "relay_ok st' \<and> rl_targets st' key = Some sock \<and> rl_sent st' = rl_sent st \<and> prefix (rl_sockets st) (rl_sockets st')"
proof (cases "rl_targets st key")
  case None
  then have st': "sock = length (rl_sockets st)" "rl_targets st' = (rl_targets st)(key \<mapsto> sock)" "rl_sent st' = rl_sent st"
      "rl_sockets st' = rl_sockets st @ [\<lparr>ts_key = key, ts_source = src\<rparr>]"
    using assms(2) by (auto simp: target_socket_for_def Let_def split: if_splits)
  have fresh: "ts_key (rl_sockets st ! j) \<noteq> key" if "j < length (rl_sockets st)" for j
    using None that assms(1) unfolding relay_ok_def by (metis option.distinct(1))
  have "rl_targets st' k = Some j \<longleftrightarrow> j < length (rl_sockets st') \<and> ts_key (rl_sockets st' ! j) = k" for k j
    using assms(1) fresh [of j] by (auto simp: relay_ok_def st' nth_append less_Suc_eq)
  moreover have "\<forall>(j, data, k) \<in> set (rl_sent st'). j < length (rl_sockets st') \<and> ts_key (rl_sockets st' ! j) = k"
    using assms(1) by (auto simp: relay_ok_def st' nth_append)
  ultimately show ?thesis using st' by (simp add: relay_ok_def)
next
  case (Some j)
  with assms show ?thesis by (auto simp: target_socket_for_def)
qed

text \<open>What the datagrams of a reception ask for.\<close>

definition relay_request :: "bytes list \<Rightarrow> 'e RecvMeta list \<Rightarrow> nat \<Rightarrow> (bytes \<times> string) list" where
  "relay_request bufs meta i = (case rm_destination (meta ! i) of
     None \<Rightarrow> []
   | Some t \<Rightarrow> [(take (rm_len (meta ! i)) (bufs ! i), TargetAddr_display t)])"

lemma relay_datagram_ok:
  assumes "relay_ok st" and "relay_datagram bind bufs meta i st = Some st'"
  shows "relay_ok st' \<and> map snd (rl_sent st') = map snd (rl_sent st) @ relay_request bufs meta i \<and>
    prefix (rl_sockets st) (rl_sockets st')"
proof (cases "rm_destination (meta ! i)")
  case None
  with assms show ?thesis
    by (auto simp: relay_datagram_def relay_request_def Let_def split: if_splits)
next
  case (Some t)
  with assms(2) obtain sock st1 where
      socket: "target_socket_for bind (TargetAddr_display t) (rm_addr (meta ! i)) st = Some (sock, st1)"
    and st': "st' = st1\<lparr>rl_sent := rl_sent st1 @ [(sock, take (rm_len (meta ! i)) (bufs ! i), TargetAddr_display t)]\<rparr>"
    by (auto simp: relay_datagram_def Let_def split: if_splits option.splits)
  from target_socket_for_ok [OF assms(1) socket] st' Some show ?thesis
    by (auto simp: relay_ok_def relay_request_def)
qed

lemma relay_datagrams_ok:
  assumes "relay_ok st" and "relay_datagrams bind bufs meta is st = (status, st')"
  shows "relay_ok st' \<and> status \<noteq> RelayStopped \<and> prefix (rl_sockets st) (rl_sockets st') \<and>
    (status = Relaying \<longrightarrow> map snd (rl_sent st') = map snd (rl_sent st) @ concat (map (relay_request bufs meta) is))"
  using assms
proof (induction "is" arbitrary: st)
  case (Cons i "is")
  show ?case
  proof (cases "relay_datagram bind bufs meta i st")
    case (Some st1)
    note one = relay_datagram_ok [OF Cons.prems(1) Some]
    from one Cons.IH [of st1] Cons.prems(2) Some show ?thesis
      by (auto intro: prefix_order.trans)
  qed (use Cons.prems in auto)
qed auto

text \<open>The requests in a sequence of receptions.\<close>

fun received_requests :: "(nat \<times> bytes list \<times> 'e RecvMeta list, string) result \<Rightarrow> (bytes \<times> string) list" where
  "received_requests (Ok (count, bufs, meta)) = concat (map (relay_request bufs meta) [0..<count])"
| "received_requests _ = []"

lemma relay_run_ok:
  assumes "relay_ok st" and "relay_run bind rs st = (status, st')"
  shows "relay_ok st' \<and> prefix (rl_sockets st) (rl_sockets st') \<and>
    (status = Relaying \<longrightarrow> map snd (rl_sent st') = map snd (rl_sent st) @ concat (map received_requests rs))"
  using assms
proof (induction rs arbitrary: st)
  case (Cons r rs)
  obtain status1 st1 where step: "relay_step bind r st = (status1, st1)" by fastforce
  have one: "relay_ok st1 \<and> prefix (rl_sockets st) (rl_sockets st1) \<and>
      (status1 = Relaying \<longrightarrow> map snd (rl_sent st1) = map snd (rl_sent st) @ received_requests r)"
    using step Cons.prems(1)
    by (cases r) (auto simp: relay_step_def dest: relay_datagrams_ok split: if_splits)
  show ?case
  proof (cases "status1 = Relaying")
    case True
    with Cons.IH [of st1] Cons.prems(2) step one show ?thesis
      by (auto intro: prefix_order.trans)
  next
    case False
    then have "(status, st') = (status1, st1)"
      using Cons.prems(2) step by (cases status1) simp_all
    with one False show ?thesis by simp
  qed
qed auto

text \<open>
  The relay forwards every request through the socket of its target. Over any sequence of receptions,
  two datagrams leave through the same socket if and only if their targets have the same text form;
  as long as the relay runs, it has sent exactly the payloads of the datagrams that named a
  destination, in the order in which they came, each to the text form of its destination.
\<close>

theorem relay_forwards:
  assumes "relay_run bind rs relay_new = (status, st)"
    and "(sock1, data1, key1) \<in> set (rl_sent st)" and "(sock2, data2, key2) \<in> set (rl_sent st)"
  shows "(sock1 = sock2 \<longleftrightarrow> key1 = key2) \<and>
    (status = Relaying \<longrightarrow> map snd (rl_sent st) = concat (map received_requests rs))"
proof -
  note ok = relay_run_ok [OF relay_ok_new assms(1)]
  then have "ts_key (rl_sockets st ! sock1) = key1" "ts_key (rl_sockets st ! sock2) = key2"
    and targets: "rl_targets st key1 = Some sock1" "rl_targets st key2 = Some sock2"
    using assms(2,3) unfolding relay_ok_def by auto
  then have "sock1 = sock2 \<longleftrightarrow> key1 = key2" by (metis option.inject)
  moreover have "status = Relaying \<longrightarrow> map snd (rl_sent st) = concat (map received_requests rs)"
    using conjunct2 [OF conjunct2 [OF ok]] by (simp add: relay_new_def)
  ultimately show ?thesis by blast
qed

definition sample_reception :: "TargetAddr \<Rightarrow> bytes \<Rightarrow> (nat \<times> bytes list \<times> unit RecvMeta list, string) result" where
  "sample_reception t data = Ok (1, [data @ [0, 0]], [RecvMeta_default\<lparr>rm_len := length data, rm_destination := Some t\<rparr>])"

theorem relay_forwards_witness:
  "map snd (rl_sent (snd (relay_run (\<lambda>_. True) [sample_reception (TDomain ''a'' 53) [1], sample_reception (TDomain ''b'' 53) [2, 3]] relay_new))) =
     [([1], ''a:53''), ([2, 3], ''b:53'')]"
proof -
  let ?rs = "[sample_reception (TDomain ''a'' 53) [1], sample_reception (TDomain ''b'' 53) [2, 3]]"
  let ?src = "rm_addr (RecvMeta_default :: unit RecvMeta)"
  let ?st = "\<lparr>rl_targets = [''a:53'' \<mapsto> 0, ''b:53'' \<mapsto> 1],
      rl_sockets = [\<lparr>ts_key = ''a:53'', ts_source = ?src\<rparr>, \<lparr>ts_key = ''b:53'', ts_source = ?src\<rparr>],
      rl_sent = [(0, [1], ''a:53''), (1, [2, 3], ''b:53'')]\<rparr>"
  have shown: "TargetAddr_display (TDomain ''a'' 53) = ''a:53''" "TargetAddr_display (TDomain ''b'' 53) = ''b:53''"
  proof -
    have "digit_char 5 = CHR ''5''" "digit_char 3 = CHR ''3''" by code_simp+
    then show "TargetAddr_display (TDomain ''a'' 53) = ''a:53''" "TargetAddr_display (TDomain ''b'' 53) = ''b:53''"
      by (simp_all add: show_dec_def show_radix_large show_radix_small)
  qed
  have run: "relay_run (\<lambda>_. True) ?rs relay_new = (Relaying, ?st)"
    by (simp add: sample_reception_def relay_step_def relay_datagram_def target_socket_for_def relay_new_def shown Let_def
        del: TargetAddr_display.simps)
  from relay_forwards [OF run, of 0 "[1]" "''a:53''" 1 "[2, 3]" "''b:53''"] run show ?thesis
    by (simp add: sample_reception_def relay_request_def shown del: TargetAddr_display.simps relay_run.simps)
qed

section \<open>The configuration fits the default client\<close>

text \<open>The test server knows the user and the password of the client's default configuration.\<close>

lemma test_server_knows_default_client:
  "io_users (test_tuic_opts cert key (test_config socks_port)) (tc_uuid TuicOpt_default) = Some (tc_password TuicOpt_default)"
  by (simp add: test_tuic_opts_def TuicOpt_default_def)

end
