(* ===== verification/Direct_Tcp.thy ===== *)
theory Direct_Tcp
  imports Addr_Text Copy_Io
begin

text \<open>
  \<open>handle_tcp_direct\<close> of \<^verbatim>\<open>crates/wind-test/src/socks5.rs\<close>: the relay of the test proxy between an accepted stream
  and a target. Unlike \<^verbatim>\<open>copy_io\<close> it has one future per direction, joined by \<^verbatim>\<open>try_join!\<close>. Connecting is a
  parameter; an event is a chunk moved by \<^verbatim>\<open>tokio::io::copy\<close>, the end of its input, the end of a shutdown, or
  a failure, in the order in which they happen.
\<close>

section \<open>The two futures\<close>

datatype copy_phase = Copying | ShuttingDown | Finished

record copy_future =
  cf_phase :: copy_phase
  cf_written :: bytes

text \<open>A direction is named by the stream it reads from.\<close>

datatype copy_event =
    Moved bytes
  | InputEnded
  | ShutDown
  | Failed string

definition copy_future_new :: copy_future where
  "copy_future_new = \<lparr>cf_phase = Copying, cf_written = []\<rparr>"

text \<open>One future: an event that its phase does not allow does not happen, which is \<open>None\<close>.\<close>

fun copy_future_step :: "copy_event \<Rightarrow> copy_future \<Rightarrow> (string + copy_future) option" where
  "copy_future_step (Moved bs) f = (if cf_phase f = Copying then Some (Inr (f\<lparr>cf_written := cf_written f @ bs\<rparr>)) else None)"
| "copy_future_step InputEnded f = (if cf_phase f = Copying then Some (Inr (f\<lparr>cf_phase := ShuttingDown\<rparr>)) else None)"
| "copy_future_step ShutDown f = (if cf_phase f = ShuttingDown then Some (Inr (f\<lparr>cf_phase := Finished\<rparr>)) else None)"
| "copy_future_step (Failed e) f = (if cf_phase f = Finished then None else Some (Inl e))"

text \<open>
  The join: it returns when both futures have finished, and with the first error, which drops the
  other future. \<open>True\<close> marks the future that reads from the accepted stream.
\<close>

record tcp_direct =
  td_up :: copy_future
  td_down :: copy_future

definition tcp_direct_new :: tcp_direct where
  "tcp_direct_new = \<lparr>td_up = copy_future_new, td_down = copy_future_new\<rparr>"

definition joined :: "tcp_direct \<Rightarrow> bool" where
  "joined s \<longleftrightarrow> cf_phase (td_up s) = Finished \<and> cf_phase (td_down s) = Finished"

fun try_join :: "(bool \<times> copy_event) list \<Rightarrow> tcp_direct \<Rightarrow> ((unit, string) result option \<times> tcp_direct) option" where
  "try_join [] s = Some (if joined s then Some (Ok ()) else None, s)"
| "try_join ((up, ev) # evs) s =
     (case copy_future_step ev (if up then td_up s else td_down s) of
        None \<Rightarrow> None
      | Some (Inl e) \<Rightarrow> Some (Some (Err e), s)
      | Some (Inr f) \<Rightarrow> try_join evs (if up then s\<lparr>td_up := f\<rparr> else s\<lparr>td_down := f\<rparr>))"

definition handle_tcp_direct ::
  "(string \<Rightarrow> string option) \<Rightarrow> TargetAddr \<Rightarrow> (bool \<times> copy_event) list \<Rightarrow> ((unit, string) result option \<times> tcp_direct) option" where
  "handle_tcp_direct connect target_addr evs =
     (let addr = TargetAddr_display target_addr in
      case connect addr of
        Some e \<Rightarrow> Some (Some (Err e), tcp_direct_new)
      | None \<Rightarrow> try_join evs tcp_direct_new)"

text \<open>The callbacks of the test proxy pass the target and the stream on.\<close>

definition TestManager_handle_tcpstream ::
  "(string \<Rightarrow> string option) \<Rightarrow> TargetAddr \<Rightarrow> (bool \<times> copy_event) list \<Rightarrow> ((unit, string) result option \<times> tcp_direct) option" where
  "TestManager_handle_tcpstream connect target_addr evs = handle_tcp_direct connect target_addr evs"

section \<open>Both directions are relayed to their end\<close>

text \<open>The events of one direction, and one future on its own.\<close>

definition events_of :: "bool \<Rightarrow> (bool \<times> copy_event) list \<Rightarrow> copy_event list" where
  "events_of d evs = map snd (filter (\<lambda>ev. fst ev = d) evs)"

fun copy_future_run :: "copy_event list \<Rightarrow> copy_future \<Rightarrow> copy_future option" where
  "copy_future_run [] f = Some f"
| "copy_future_run (ev # evs) f =
     (case copy_future_step ev f of Some (Inr f') \<Rightarrow> copy_future_run evs f' | _ \<Rightarrow> None)"

definition future_of :: "bool \<Rightarrow> tcp_direct \<Rightarrow> copy_future" where
  "future_of d s = (if d then td_up s else td_down s)"

definition set_future :: "bool \<Rightarrow> copy_future \<Rightarrow> tcp_direct \<Rightarrow> tcp_direct" where
  "set_future d f s = (if d then s\<lparr>td_up := f\<rparr> else s\<lparr>td_down := f\<rparr>)"

lemma future_of_set [simp]: "future_of d (set_future up f s) = (if d = up then f else future_of d s)"
  by (auto simp: future_of_def set_future_def)

lemma try_join_Cons:
  "try_join ((up, ev) # evs) s =
     (case copy_future_step ev (future_of up s) of
        None \<Rightarrow> None
      | Some (Inl e) \<Rightarrow> Some (Some (Err e), s)
      | Some (Inr f) \<Rightarrow> try_join evs (set_future up f s))"
  by (simp add: future_of_def set_future_def split: option.split sum.split)

text \<open>Neither direction notices the other as long as nothing fails.\<close>

lemma try_join_runs:
  assumes "try_join evs s = Some (r, s')" and "\<And>e. r \<noteq> Some (Err e)"
  shows "copy_future_run (events_of d evs) (future_of d s) = Some (future_of d s') \<and> r = (if joined s' then Some (Ok ()) else None)"
  using assms(1)
proof (induction evs arbitrary: s)
  case (Cons x evs)
  obtain up ev where x: "x = (up, ev)" by (cases x)
  from Cons.prems assms(2) obtain f where f: "copy_future_step ev (future_of up s) = Some (Inr f)"
    and rest: "try_join evs (set_future up f s) = Some (r, s')"
    unfolding x try_join_Cons by (auto split: option.splits sum.splits)
  from Cons.IH [OF rest] f show ?case
    by (auto simp: x events_of_def)
qed (auto simp: events_of_def)

text \<open>The life of one future: chunks, the end of the input, the shutdown, and nothing after it.\<close>

lemma copy_future_run_stages:
  "cf_phase f = Finished \<Longrightarrow> copy_future_run evs f = Some f' \<Longrightarrow> evs = [] \<and> f' = f"
  "cf_phase f = ShuttingDown \<Longrightarrow> copy_future_run evs f = Some f' \<Longrightarrow> cf_phase f' = Finished \<Longrightarrow>
     evs = [ShutDown] \<and> cf_written f' = cf_written f"
proof -
  show finished: "evs = [] \<and> f' = f" if "cf_phase f = Finished" "copy_future_run evs f = Some f'" for evs f f'
  proof (cases evs)
    case (Cons ev es)
    then show ?thesis using that by (cases ev) simp_all
  qed (use that in simp)
  show "evs = [ShutDown] \<and> cf_written f' = cf_written f"
    if "cf_phase f = ShuttingDown" "copy_future_run evs f = Some f'" "cf_phase f' = Finished"
  proof (cases evs)
    case (Cons ev es)
    then show ?thesis using that finished [of "f\<lparr>cf_phase := Finished\<rparr>" es f'] by (cases ev) simp_all
  qed (use that in simp)
qed

lemma copy_future_run_finished:
  assumes "copy_future_run evs f = Some f'" and "cf_phase f = Copying" and "cf_phase f' = Finished"
  shows "\<exists>bss. evs = map Moved bss @ [InputEnded, ShutDown] \<and> cf_written f' = cf_written f @ concat bss"
  using assms
proof (induction evs arbitrary: f)
  case (Cons ev evs)
  show ?case
  proof (cases ev)
    case (Moved bs)
    with Cons.prems Cons.IH [of "f\<lparr>cf_written := cf_written f @ bs\<rparr>"] obtain bss
      where "evs = map Moved bss @ [InputEnded, ShutDown]" "cf_written f' = cf_written f @ bs @ concat bss" by auto
    with Moved show ?thesis by (intro exI [of _ "bs # bss"]) simp
  next
    case InputEnded
    with Cons.prems copy_future_run_stages(2) [of "f\<lparr>cf_phase := ShuttingDown\<rparr>" evs f'] show ?thesis
      by (intro exI [of _ "[]"]) simp
  qed (use Cons.prems in simp_all)
qed simp

text \<open>
  A relay that returns without an error has, in either direction, written every chunk that was read
  until the end of the input, and then shut the other side down.
\<close>

lemma handle_tcp_direct_complete:
  assumes "handle_tcp_direct connect target evs = Some (Some (Ok ()), s)"
  shows "\<exists>bss. events_of d evs = map Moved bss @ [InputEnded, ShutDown] \<and> cf_written (future_of d s) = concat bss"
proof -
  have run: "try_join evs tcp_direct_new = Some (Some (Ok ()), s)"
    using assms by (auto simp: handle_tcp_direct_def Let_def split: option.splits)
  have new: "future_of d tcp_direct_new = copy_future_new"
    by (simp add: future_of_def tcp_direct_new_def)
  from try_join_runs [OF run, of d] have "copy_future_run (events_of d evs) copy_future_new = Some (future_of d s)" and "joined s"
    by (simp_all add: new split: if_splits)
  moreover from this have "cf_phase (future_of d s) = Finished" by (simp add: joined_def future_of_def)
  ultimately show ?thesis
    using copy_future_run_finished [of "events_of d evs" copy_future_new "future_of d s"] by (simp add: copy_future_new_def)
qed

text \<open>
  The difference to \<^verbatim>\<open>copy_io\<close>: an answer that comes after the end of the request is relayed here, where
  \<^verbatim>\<open>copy_io\<close> has already returned.
\<close>

lemma half_closed_answer:
  "handle_tcp_direct (\<lambda>_. None) target
      [(True, Moved req), (True, InputEnded), (False, Moved resp), (True, ShutDown), (False, InputEnded), (False, ShutDown)]
    = Some (Some (Ok ()), \<lparr>td_up = \<lparr>cf_phase = Finished, cf_written = req\<rparr>, td_down = \<lparr>cf_phase = Finished, cf_written = resp\<rparr>\<rparr>)"
  by (simp add: handle_tcp_direct_def tcp_direct_new_def copy_future_new_def joined_def)

lemma half_closed_answer_lost:
  assumes "req \<noteq> []"
  shows "to_a (fst (relay_loop relay_start [A2B (ReadOk req) None, A2B (ReadOk []) None, B2A (ReadOk resp) None])) = []"
  using assms by (simp add: relay_start_def)

end
