(* ===== verification/Udp_Api.thy ===== *)
theory Udp_Api
  imports Socks_Udp
begin

text \<open>
  The interface of UDP sockets (\<^verbatim>\<open>AbstractUdpSocket\<close> of \<^verbatim>\<open>crates/wind-core/src/udp.rs\<close>) around the two receive
  operations: how a socket is made, its accessors, the provided methods \<^verbatim>\<open>recv\<close> and \<^verbatim>\<open>send\<close>, and sending
  with the plain socket. What the operating system says of a socket is a parameter.
\<close>

section \<open>Making a socket\<close>

text \<open>
  A socket is the handle of the runtime and the state kept for it. The state is made first; a failure
  of either call is the result.
\<close>

record ('io, 'st) TokioUdpSocket =
  tk_io :: 'io
  tk_inner :: 'st

definition TokioUdpSocket_new ::
  "('sock \<Rightarrow> ('st, string) result) \<Rightarrow> ('sock \<Rightarrow> ('io, string) result) \<Rightarrow> 'sock \<Rightarrow> (('io, 'st) TokioUdpSocket, string) result" where
  "TokioUdpSocket_new state_new from_std sock =
     (case state_new sock of
        Ok inner \<Rightarrow>
          (case from_std sock of
             Ok io \<Rightarrow> Ok \<lparr>tk_io = io, tk_inner = inner\<rparr>
           | Err e \<Rightarrow> Err e
           | Panic \<Rightarrow> Panic)
      | Err e \<Rightarrow> Err e
      | Panic \<Rightarrow> Panic)"

text \<open>The socket towards a SOCKS client also keeps the address of the last sender.\<close>

record ('io, 'st) Socks5Socket = "('io, 'st) TokioUdpSocket" +
  so_source_addr :: SocketAddr

definition Socks5Socket_new ::
  "('sock \<Rightarrow> ('st, string) result) \<Rightarrow> ('sock \<Rightarrow> ('io, string) result) \<Rightarrow> 'sock \<Rightarrow> (('io, 'st) Socks5Socket, string) result" where
  "Socks5Socket_new state_new from_std sock =
     (case state_new sock of
        Ok inner \<Rightarrow>
          (case from_std sock of
             Ok io \<Rightarrow> Ok \<lparr>tk_io = io, tk_inner = inner, so_source_addr = SocketAddr_new (IpV4 ipv4_unspecified) 0\<rparr>
           | Err e \<Rightarrow> Err e
           | Panic \<Rightarrow> Panic)
      | Err e \<Rightarrow> Err e
      | Panic \<Rightarrow> Panic)"

definition source_addr :: "'e Socks5UdpSocket \<Rightarrow> SocketAddr" where
  "source_addr s = sk_source_addr s"

section \<open>Accessors\<close>

text \<open>What a socket says of itself, with the defaults of the trait, and both implementations.\<close>

record ('io, 'st) socket_facts =
  sf_local_addr :: "'io \<Rightarrow> (SocketAddr, string) result"
  sf_may_fragment :: "'st \<Rightarrow> bool"
  sf_max_gso_segments :: "'st \<Rightarrow> nat"
  sf_gro_segments :: "'st \<Rightarrow> nat"

definition default_max_transmit_segments :: "'s \<Rightarrow> nat" where
  "default_max_transmit_segments s = 1"

definition default_max_receive_segments :: "'s \<Rightarrow> nat" where
  "default_max_receive_segments s = 1"

definition default_may_fragment :: "'s \<Rightarrow> bool" where
  "default_may_fragment s = True"

definition tokio_local_addr :: "('io, 'st) socket_facts \<Rightarrow> ('io, 'st) TokioUdpSocket \<Rightarrow> (SocketAddr, string) result" where
  "tokio_local_addr os s = sf_local_addr os (tk_io s)"

definition tokio_may_fragment :: "('io, 'st) socket_facts \<Rightarrow> ('io, 'st) TokioUdpSocket \<Rightarrow> bool" where
  "tokio_may_fragment os s = sf_may_fragment os (tk_inner s)"

definition tokio_max_transmit_segments :: "('io, 'st) socket_facts \<Rightarrow> ('io, 'st) TokioUdpSocket \<Rightarrow> nat" where
  "tokio_max_transmit_segments os s = sf_max_gso_segments os (tk_inner s)"

definition tokio_max_receive_segments :: "('io, 'st) socket_facts \<Rightarrow> ('io, 'st) TokioUdpSocket \<Rightarrow> nat" where
  "tokio_max_receive_segments os s = sf_gro_segments os (tk_inner s)"

definition socks_local_addr :: "('io, 'st) socket_facts \<Rightarrow> ('io, 'st) Socks5Socket \<Rightarrow> (SocketAddr, string) result" where
  "socks_local_addr os s = sf_local_addr os (tk_io s)"

definition socks_may_fragment :: "('io, 'st) socket_facts \<Rightarrow> ('io, 'st) Socks5Socket \<Rightarrow> bool" where
  "socks_may_fragment os s = sf_may_fragment os (tk_inner s)"

definition socks_max_transmit_segments :: "('io, 'st) socket_facts \<Rightarrow> ('io, 'st) Socks5Socket \<Rightarrow> nat" where
  "socks_max_transmit_segments os s = sf_max_gso_segments os (tk_inner s)"

definition socks_max_receive_segments :: "('io, 'st) socket_facts \<Rightarrow> ('io, 'st) Socks5Socket \<Rightarrow> nat" where
  "socks_max_receive_segments os s = sf_gro_segments os (tk_inner s)"

text \<open>The pollers for writability: each future waits for the handle of this socket.\<close>

definition tokio_create_io_poller :: "('io \<Rightarrow> 'f) \<Rightarrow> ('io, 'st) TokioUdpSocket \<Rightarrow> 'f UdpPollHelper" where
  "tokio_create_io_poller writable s = UdpPollHelper_new (\<lambda>_. writable (tk_io s))"

definition socks_create_io_poller :: "('io \<Rightarrow> 'f) \<Rightarrow> ('io, 'st) Socks5Socket \<Rightarrow> 'f UdpPollHelper" where
  "socks_create_io_poller writable s = UdpPollHelper_new (\<lambda>_. writable (tk_io s))"

section \<open>Sending and receiving\<close>

text \<open>
  The plain socket hands a datagram to the operating system as it is; the state is what the system
  has taken, as for the other socket.
\<close>

definition tokio_try_send :: "('e Transmit list \<Rightarrow> 'e Transmit \<Rightarrow> string option) \<Rightarrow> 'e Transmit \<Rightarrow> ('e Transmit list, unit, string) comp" where
  "tokio_try_send os transmit sent = (case os sent transmit of None \<Rightarrow> (Ok (), sent @ [transmit]) | Some e \<Rightarrow> (Err e, sent))"

text \<open>
  \<^verbatim>\<open>send\<close> and \<^verbatim>\<open>recv\<close> are polled until they are ready. \<open>n\<close> is the number of polls, and the list
  \<open>ass\<close> has the rounds of the receive loop in each poll. \<open>None\<close> is a poll whose rounds do not end.
\<close>

fun send :: "('e Transmit \<Rightarrow> ('s, unit, string) comp) \<Rightarrow> nat \<Rightarrow> bytes \<Rightarrow> SocketAddr \<Rightarrow> 's \<Rightarrow> (nat, string) result poll \<times> 's" where
  "send do_send 0 buf target s = (Pending, s)"
| "send do_send (Suc n) buf target s =
     (case poll_send do_send buf target s of
        (Pending, s') \<Rightarrow> send do_send n buf target s'
      | (Ready r, s') \<Rightarrow> (Ready r, s'))"

fun recv ::
  "('e attempt list \<Rightarrow> 's \<Rightarrow> bytes list \<Rightarrow> 'e RecvMeta list \<Rightarrow> ('s, 'e) poll_result option) \<Rightarrow> 'e attempt list list \<Rightarrow> 's \<Rightarrow>
     bytes list \<Rightarrow> 'e RecvMeta list \<Rightarrow> ('s, 'e) poll_result option" where
  "recv poll_recv [] s bufs meta = Some (Pending, s, bufs, meta)"
| "recv poll_recv (as # ass) s bufs meta =
     (case poll_recv as s bufs meta of
        None \<Rightarrow> None
      | Some (Pending, s', bufs', meta') \<Rightarrow> recv poll_recv ass s' bufs' meta'
      | Some (Ready r, s', bufs', meta') \<Rightarrow> Some (Ready r, s', bufs', meta'))"

section \<open>The contract of the provided methods\<close>

text \<open>A socket that changes nothing while it is not ready keeps its bounds over any number of polls.\<close>

locale patient_socket = udp_socket +
  assumes pending_keeps:
    "list_all (attempt_ok bufs meta) as \<Longrightarrow> poll_recv as s bufs meta = Some (Pending, s', bufs', meta') \<Longrightarrow>
      s' = s \<and> bufs' = bufs \<and> meta' = meta"
begin

lemma recv_ready:
  assumes "list_all (list_all (attempt_ok bufs meta)) ass"
    and "recv poll_recv ass s bufs meta = Some (Ready r, s', bufs', meta')"
  shows "\<exists>as \<in> set ass. poll_recv as s bufs meta = Some (Ready r, s', bufs', meta')"
  using assms
proof (induction ass)
  case (Cons as ass)
  then show ?case
    using pending_keeps [of bufs meta as s] by (auto split: option.splits poll.splits)
qed simp

lemma recv_no_panic:
  assumes "list_all (list_all (attempt_ok bufs meta)) ass"
  shows "recv poll_recv ass s bufs meta \<noteq> Some (Ready Panic, s', bufs', meta')"
  using recv_ready [OF assms, of s Panic s' bufs' meta'] poll_recv_no_panic assms by (auto simp: list_all_iff)

lemma recv_bounds:
  assumes "list_all (list_all (attempt_ok bufs meta)) ass"
    and "recv poll_recv ass s bufs meta = Some (Ready (Ok n), s', bufs', meta')"
  shows "n \<le> length meta \<and> length meta' = length meta \<and> map length bufs' = map length bufs \<and>
    list_all2 (\<lambda>m b. rm_len m \<le> length b) (take n meta') (take n bufs')"
proof -
  from recv_ready [OF assms] obtain as where "as \<in> set ass" and "poll_recv as s bufs meta = Some (Ready (Ok n), s', bufs', meta')"
    by auto
  moreover from this assms(1) have "list_all (attempt_ok bufs meta) as" by (simp add: list_all_iff)
  ultimately show ?thesis using poll_recv_bounds by blast
qed

text \<open>Polls that find nothing are not noticed: the result is that of the first poll that is ready.\<close>

lemma recv_waits:
  assumes "\<And>as. as \<in> set pre \<Longrightarrow> poll_recv as s bufs meta = Some (Pending, s, bufs, meta)"
    and "poll_recv as s bufs meta = Some (Ready r, s', bufs', meta')"
  shows "recv poll_recv (pre @ as # post) s bufs meta = Some (Ready r, s', bufs', meta')"
  using assms by (induction pre) simp_all

end

lemma tokio_pending: "tokio_poll_recv as s bufs meta = Some (Pending, s', bufs', meta') \<Longrightarrow> s' = s \<and> bufs' = bufs \<and> meta' = meta"
  by (induction as s bufs meta rule: tokio_poll_recv.induct) simp_all

lemma socks_pending: "socks_poll_recv as s bufs meta = Some (Pending, s', bufs', meta') \<Longrightarrow> s' = s \<and> bufs' = bufs \<and> meta' = meta"
  by (induction as s bufs meta rule: socks_poll_recv.induct) (simp_all split: if_splits option.splits prod.splits)

interpretation tokio_patient: patient_socket tokio_poll_recv
  by unfold_locales (rule tokio_pending)

interpretation socks_patient: patient_socket socks_poll_recv
  by unfold_locales (rule socks_pending)

section \<open>Sending is done at the first poll\<close>

text \<open>
  No poll of \<^verbatim>\<open>send\<close> waits: a datagram the system does not take at once is an error, not a later try, and it
  is handed over at most once.
\<close>

lemma send_first_poll: "send do_send (Suc n) buf target s = poll_send do_send buf target s"
  by (auto simp: poll_send_def split: prod.splits result.splits)

lemma tokio_send_once:
  "send (tokio_try_send os) (Suc n) buf target sent =
     (let t = \<lparr>tr_destination = target, tr_ecn = None, tr_contents = buf, tr_segment_size = None, tr_src_ip = None\<rparr>
      in case os sent t of None \<Rightarrow> (Ready (Ok (length buf)), sent @ [t]) | Some e \<Rightarrow> (Ready (Err e), sent))"
  by (simp add: poll_send_def tokio_try_send_def Let_def split: option.splits)

end
