(* ===== verification/Core_Misc.thy ===== *)
theory Core_Misc
  imports Utf8 Net_Types
begin

text \<open>
  Two small parts of the core crate: the network stack types of \<^verbatim>\<open>crates/wind-core/src/interface.rs\<close>, and
  the macro of \<^verbatim>\<open>crates/wind-core/src/log.rs\<close> that cuts the name of the crate out of a module path. The macro
  makes the string with \<^verbatim>\<open>from_utf8_unchecked\<close>; what its safety comment claims is proved here.
\<close>

section \<open>Network stacks\<close>

record Iface =
  if_name :: string
  if_ipv4 :: "Ipv4Addr option"
  if_ipv6 :: "Ipv6Addr option"
  if_index :: u32

datatype Stack = StackV4 | StackV6

definition Stack_default :: Stack where
  "Stack_default = StackV4"

fun Stack_from_SocketAddr :: "SocketAddr \<Rightarrow> Stack" where
  "Stack_from_SocketAddr (SockV4 _ _) = StackV4"
| "Stack_from_SocketAddr (SockV6 _ _ _ _) = StackV6"

fun Stack_from_IpAddr :: "IpAddr \<Rightarrow> Stack" where
  "Stack_from_IpAddr (IpV4 _) = StackV4"
| "Stack_from_IpAddr (IpV6 _) = StackV6"

datatype Network = NetTCP | NetUDP | NetICMPv4 | NetICMPv6

datatype StackPrefer = PreferV4 | PreferV6 | PreferV4V6 | PreferV6V4

definition support_v6 :: "StackPrefer \<Rightarrow> bool" where
  "support_v6 p \<longleftrightarrow> p \<noteq> PreferV4"

lemma Stack_from_ip: "Stack_from_IpAddr (ip a) = Stack_from_SocketAddr a"
  by (cases a) simp_all

section \<open>The name of the crate\<close>

function crate_name_end :: "bytes \<Rightarrow> nat \<Rightarrow> nat" where
  "crate_name_end bs end_index =
     (if end_index < length bs then
        if end_index + 1 < length bs \<and> bs ! end_index = 58 \<and> bs ! (end_index + 1) = 58 then end_index
        else crate_name_end bs (end_index + 1)
      else end_index)"
  by pat_completeness auto
termination
  by (relation "measure (\<lambda>(bs, i). length bs - i)") auto

declare crate_name_end.simps [simp del]

definition extract_crate_name :: "bytes \<Rightarrow> bytes" where
  "extract_crate_name module_path = take (crate_name_end module_path 0) module_path"

text \<open>Every byte of a scalar value after the first is no ASCII byte.\<close>

lemma utf8_width_tail:
  assumes "utf8_width bs = Some n" and "0 < i" and "i < n"
  shows "128 \<le> bs ! i"
proof -
  consider "n = 1" | b c r where "n = 2" "bs = b # c # r" "is_cont c"
    | b c d r where "n = 3" "bs = b # c # d # r" "second_of_3 b c" "is_cont d"
    | b c d e r where "n = 4" "bs = b # c # d # e # r" "second_of_4 b c" "is_cont d" "is_cont e"
    using assms(1) by (auto simp: utf8_width_def split: list.split_asm if_split_asm)
  then show ?thesis
  proof cases
    case 1
    with assms(2,3) show ?thesis by simp
  next
    case 2
    with assms(2,3) show ?thesis by (auto simp: is_cont_def less_Suc_eq numeral_2_eq_2)
  next
    case 3
    then have "128 \<le> c" "128 \<le> d"
      by (auto simp: second_of_3_def is_cont_def intro: order_trans [rotated])
    with 3 assms(2,3) show ?thesis by (auto simp: less_Suc_eq numeral_3_eq_3)
  next
    case 4
    then have "128 \<le> c" "128 \<le> d" "128 \<le> e"
      by (auto simp: second_of_4_def is_cont_def intro: order_trans [rotated])
    moreover have "i = 1 \<or> i = 2 \<or> i = 3" using 4(1) assms(2,3) by auto
    ultimately show ?thesis using 4(2) by auto
  qed
qed

lemma utf8_valid_before_ascii:
  assumes "utf8_valid (xs @ c # ys)" and "c < 128"
  shows "utf8_valid xs"
  using assms(1)
proof (induction xs rule: length_induct)
  case (1 xs)
  show ?case
  proof (cases "xs = []")
    case False
    from 1(2) obtain n where n: "utf8_width (xs @ c # ys) = Some n"
      unfolding utf8_valid.simps [of "xs @ c # ys"] by (auto split: option.splits)
    have "n \<le> length xs"
    proof (rule ccontr)
      assume "\<not> n \<le> length xs"
      then have "128 \<le> (xs @ c # ys) ! length xs"
        using utf8_width_tail [OF n, of "length xs"] False by simp
      with assms(2) show False by simp
    qed
    then have "utf8_width (take n xs @ drop n xs) = Some n"
      using utf8_width_take [OF n, of "drop n xs"] by simp
    then have w: "utf8_width xs = Some n" by simp
    have "utf8_valid (drop n xs @ c # ys)"
      using 1(2) utf8_valid_step [OF n] \<open>n \<le> length xs\<close> by simp
    moreover have "length (drop n xs) < length xs"
      using utf8_width_bounds [OF w] by auto
    ultimately have "utf8_valid (drop n xs)" using 1(1) by blast
    then show ?thesis using utf8_valid_step [OF w] by simp
  qed simp
qed

text \<open>The loop stops at the first position where a double colon starts, or at the end.\<close>

definition double_colon_at :: "bytes \<Rightarrow> nat \<Rightarrow> bool" where
  "double_colon_at bs i \<longleftrightarrow> i + 1 < length bs \<and> bs ! i = 58 \<and> bs ! (i + 1) = 58"

lemma crate_name_end_spec:
  assumes "i \<le> length bs" and "\<And>j. j < i \<Longrightarrow> \<not> double_colon_at bs j"
  shows "crate_name_end bs i \<le> length bs \<and>
    (crate_name_end bs i = length bs \<or> double_colon_at bs (crate_name_end bs i)) \<and>
    (\<forall>j < crate_name_end bs i. \<not> double_colon_at bs j)"
  using assms
proof (induction bs i rule: crate_name_end.induct)
  case (1 bs i)
  show ?case
  proof (cases "i < length bs \<and> \<not> double_colon_at bs i")
    case True
    then have "crate_name_end bs i = crate_name_end bs (i + 1)"
      by (subst crate_name_end.simps) (auto simp: double_colon_at_def)
    moreover have "\<not> double_colon_at bs j" if "j < i + 1" for j
      using that True 1(3) by (cases "j = i") auto
    ultimately show ?thesis
      using 1(1) True by (auto simp: double_colon_at_def)
  next
    case False
    then have "crate_name_end bs i = i"
      using 1(2) by (subst crate_name_end.simps) (auto simp: double_colon_at_def)
    with False 1(2,3) show ?thesis by auto
  qed
qed

text \<open>
  The crate name is cut at the right place and is valid UTF-8. The result is the part of the module
  path before the first double colon, or the whole path if it has none, and if the path is valid
  UTF-8 then so is the result: making a string of it without a check is sound.
\<close>

theorem extract_crate_name_sound:
  "(\<exists>rest. path = extract_crate_name path @ rest \<and> (rest = [] \<or> (\<exists>r. rest = 58 # 58 # r))) \<and>
   (\<forall>j < length (extract_crate_name path). \<not> double_colon_at path j) \<and>
   (utf8_valid path \<longrightarrow> utf8_valid (extract_crate_name path))"
proof -
  let ?e = "crate_name_end path 0"
  have spec: "?e \<le> length path" "?e = length path \<or> double_colon_at path ?e" "\<forall>j < ?e. \<not> double_colon_at path j"
    using crate_name_end_spec [of 0 path] by auto
  have rest: "drop ?e path = [] \<or> (\<exists>r. drop ?e path = 58 # 58 # r)"
  proof (cases "?e = length path")
    case False
    with spec(2) have c: "?e + 1 < length path" "path ! ?e = 58" "path ! (?e + 1) = 58"
      by (auto simp: double_colon_at_def)
    then have "drop ?e path = path ! ?e # path ! (?e + 1) # drop (?e + 2) path"
      using Cons_nth_drop_Suc [of ?e path] Cons_nth_drop_Suc [of "?e + 1" path] by simp
    with c show ?thesis by simp
  qed simp
  have "utf8_valid (take ?e path)" if "utf8_valid path"
  proof (cases "drop ?e path = []")
    case False
    with rest obtain r where "drop ?e path = 58 # 58 # r" by auto
    then have "path = take ?e path @ 58 # 58 # r" by (metis append_take_drop_id)
    with that show ?thesis using utf8_valid_before_ascii [of "take ?e path" 58 "58 # r"] by simp
  qed (use that in simp)
  with spec rest show ?thesis
    by (intro conjI exI [of _ "drop ?e path"]) (simp_all add: extract_crate_name_def)
qed

theorem extract_crate_name_sound_witness:
  "utf8_valid (extract_crate_name (as_bytes ''wind_core::log''))"
proof -
  have "utf8_valid (as_bytes ''wind_core::log'')" by code_simp
  with extract_crate_name_sound [of "as_bytes ''wind_core::log''"] show ?thesis by blast
qed

end
