(* ===== verification/Log_Setup.thy ===== *)
theory Log_Setup
  imports Core_Misc
begin

text \<open>
  Log records. The macros of \<^verbatim>\<open>crates/wind-core/src/log.rs\<close> put the crate name in front of the target of a
  record, and \<^verbatim>\<open>init_log\<close> of \<^verbatim>\<open>crates/wind/src/log.rs\<close> installs a filter by targets. How a filter decides
  is up to \<^verbatim>\<open>tracing_subscriber\<close> and a parameter; texts are UTF-8 bytes.
\<close>

section \<open>Targets of records\<close>

datatype log_level = ERROR | WARN | INFO | DEBUG | TRACE

fun verbosity :: "log_level \<Rightarrow> nat" where
  "verbosity ERROR = 1" | "verbosity WARN = 2" | "verbosity INFO = 3" | "verbosity DEBUG = 4" | "verbosity TRACE = 5"

text \<open>
  The three macros with a target; with none, \<^verbatim>\<open>info\<close> takes the crate name, and \<^verbatim>\<open>warn\<close> and \<^verbatim>\<open>error\<close> leave
  the choice to \<^verbatim>\<open>tracing\<close>, which takes the module path.
\<close>

datatype log_macro = InfoMacro | WarnMacro | ErrorMacro

fun macro_level :: "log_macro \<Rightarrow> log_level" where
  "macro_level InfoMacro = INFO" | "macro_level WarnMacro = WARN" | "macro_level ErrorMacro = ERROR"

fun log_target :: "log_macro \<Rightarrow> bytes option \<Rightarrow> bytes \<Rightarrow> bytes" where
  "log_target m (Some target) module_path = extract_crate_name module_path @ as_bytes '' '' @ target"
| "log_target InfoMacro None module_path = extract_crate_name module_path"
| "log_target m None module_path = module_path"

section \<open>The filter\<close>

record log_filter =
  lf_targets :: "(bytes \<times> log_level) list"
  lf_default :: log_level

definition init_log :: "(log_filter \<Rightarrow> string option) \<Rightarrow> log_level \<Rightarrow> (log_filter, string) result" where
  "init_log try_init level =
     (let filter = \<lparr>lf_targets = [(as_bytes ''wind'', level), (as_bytes ''wind_core'', level), (as_bytes ''wind_tuic'', level),
            (as_bytes ''wind_socks'', level)], lf_default = INFO\<rparr>
      in case try_init filter of Some e \<Rightarrow> Err e | None \<Rightarrow> Ok filter)"

text \<open>
  What the documentation of the filter says: a record is judged by the entries whose target is a prefix
  of its own, and by the default when there are none.
\<close>

definition targets_ok :: "(log_filter \<Rightarrow> bytes \<Rightarrow> log_level \<Rightarrow> bool) \<Rightarrow> bool" where
  "targets_ok enabled \<longleftrightarrow>
     (\<forall>f target lvl bound. (\<exists>(p, l) \<in> set (lf_targets f). prefix p target) \<longrightarrow>
        (\<forall>(p, l) \<in> set (lf_targets f). prefix p target \<longrightarrow> l = bound) \<longrightarrow>
        enabled f target lvl = (verbosity lvl \<le> verbosity bound)) \<and>
     (\<forall>f target lvl. (\<forall>(p, l) \<in> set (lf_targets f). \<not> prefix p target) \<longrightarrow>
        enabled f target lvl = (verbosity lvl \<le> verbosity (lf_default f)))"

section \<open>Which records are shown\<close>

lemma crate_name_prefix: "prefix (extract_crate_name path) path"
  by (simp add: extract_crate_name_def take_is_prefix)

lemma log_target_prefix: "prefix (extract_crate_name path) (log_target m target path)"
  by (cases "(m, target, path)" rule: log_target.cases) (simp_all add: crate_name_prefix)

text \<open>
  Every record whose crate name starts with that of the program is judged by the level asked for,
  any other record by the level of the default.
\<close>

lemma init_log_shows:
  assumes "init_log try_init level = Ok f" and "targets_ok enabled"
  shows "enabled f target lvl = (verbosity lvl \<le> verbosity (if prefix (as_bytes ''wind'') target then level else INFO))"
proof -
  have f: "lf_targets f = [(as_bytes ''wind'', level), (as_bytes ''wind_core'', level), (as_bytes ''wind_tuic'', level),
      (as_bytes ''wind_socks'', level)]" "lf_default f = INFO"
    using assms(1) by (auto simp: init_log_def Let_def split: option.splits)
  have wind: "prefix (as_bytes ''wind'') target" if "prefix p target"
    and "p \<in> {as_bytes ''wind'', as_bytes ''wind_core'', as_bytes ''wind_tuic'', as_bytes ''wind_socks''}" for p
  proof -
    have "prefix (as_bytes ''wind'') p" using that(2) by (auto simp: as_bytes_def)
    with that(1) show ?thesis by (metis prefix_order.trans)
  qed
  show ?thesis
  proof (cases "prefix (as_bytes ''wind'') target")
    case True
    then show ?thesis
      using conjunct1 [OF assms(2) [unfolded targets_ok_def], rule_format, of f target level lvl] by (auto simp: f)
  next
    case False
    then show ?thesis
      using conjunct2 [OF assms(2) [unfolded targets_ok_def], rule_format, of f target lvl] wind by (auto simp: f)
  qed
qed

lemma program_records_shown:
  assumes "init_log try_init TRACE = Ok f" and "targets_ok enabled" and "prefix (as_bytes ''wind'') (extract_crate_name path)"
  shows "enabled f (log_target m target path) (macro_level m)"
  using assms(3) log_target_prefix [of path m target] init_log_shows [OF assms(1,2)]
  by (cases m) (auto dest: prefix_order.trans)

end
