(* ===== verification/Reassembly_Tests.thy ===== *)
theory Reassembly_Tests
  imports Reassembly_Runs Udp_Stream
begin

text \<open>
  The unit tests of \<^verbatim>\<open>crates/wind-tuic/src/proto/udp_stream.rs\<close>, each as the condition that all its
  assertions hold, and that it does. The tests of the reassembly buffer are shown for every cache with
  the documented behaviour and for any clock; \<open>clock n\<close> is the time of the \<open>n\<close>-th call.
\<close>

section \<open>Sizes\<close>

fun calculate_addr_size :: "TargetAddr \<Rightarrow> nat" where
  "calculate_addr_size (TIPv4 _ _) = 1 + 4 + 2"
| "calculate_addr_size (TIPv6 _ _) = 1 + 16 + 2"
| "calculate_addr_size (TDomain domain _) = 1 + 1 + length domain + 2"

definition calc_frags :: "nat \<Rightarrow> nat \<Rightarrow> nat \<Rightarrow> nat option" where
  "calc_frags first_frag_max subsequent_frag_max payload_size =
     (if payload_size \<le> first_frag_max then Some 1
      else let remaining = payload_size - first_frag_max
           in map_option (\<lambda>n. 1 + n) (div_ceil remaining subsequent_frag_max))"

definition test_fragment_count_calculation :: bool where
  "test_fragment_count_calculation =
     (let max_datagram_size = 1200;
          addr = TIPv4 (Ipv4Addr 192 168 1 1) 8080;
          first_frag_overhead = 2 + 8 + calculate_addr_size addr;
          subsequent_frag_overhead = 2 + 8 + 1;
          first_frag_max = max_datagram_size - first_frag_overhead;
          subsequent_frag_max = max_datagram_size - subsequent_frag_overhead;
          test_cases = [(1000, Some 1), (first_frag_max, Some 1), (first_frag_max + 1, Some 2),
            (first_frag_max + subsequent_frag_max, Some 2), (first_frag_max + subsequent_frag_max + 1, Some 3),
            (10000, calc_frags first_frag_max subsequent_frag_max 10000)]
      in list_all (\<lambda>(payload_size, expected_fragments).
           calc_frags first_frag_max subsequent_frag_max payload_size = expected_fragments) test_cases)"

definition test_max_fragment_limit :: bool where
  "test_max_fragment_limit =
     (let max_fragments = 255;
          max_datagram_size = 1200;
          addr = TIPv4 (Ipv4Addr 192 168 1 1) 8080;
          first_frag_overhead = 2 + 8 + calculate_addr_size addr;
          subsequent_frag_overhead = 2 + 8 + 1;
          first_frag_max = max_datagram_size - first_frag_overhead;
          subsequent_frag_max = max_datagram_size - subsequent_frag_overhead;
          max_payload = first_frag_max + subsequent_frag_max * (max_fragments - 1);
          remaining = max_payload - first_frag_max;
          oversized_payload = max_payload + 1;
          oversized_remaining = oversized_payload - first_frag_max
      in case (div_ceil remaining subsequent_frag_max, div_ceil oversized_remaining subsequent_frag_max) of
           (Some n, Some m) \<Rightarrow>
             (let fragment_count = 1 + n; oversized_count = 1 + m
              in fragment_count = 255 \<and> fragment_count \<le> max_fragments \<and> max_fragments < oversized_count)
         | _ \<Rightarrow> False)"

definition test_saturating_sub_prevents_underflow :: bool where
  "test_saturating_sub_prevents_underflow =
     (let small_mtu = 10 :: nat; large_overhead = 100; result = small_mtu - large_overhead in result = 0)"

text \<open>The helpers of the tests compute what the program computes.\<close>

lemma calculate_addr_size_eq: "calculate_addr_size t = target_addr_size t"
  by (cases t) simp_all

lemma calc_frags_eq: "calc_frags first sub n = fragment_count n first sub"
  unfolding calc_frags_def fragment_count_def Let_def by (rule refl)

lemma size_tests_pass:
  "test_fragment_count_calculation" "test_max_fragment_limit" "test_saturating_sub_prevents_underflow"
  by (simp_all add: test_fragment_count_calculation_def test_max_fragment_limit_def test_saturating_sub_prevents_underflow_def
      calc_frags_def div_ceil_def Let_def)

section \<open>The reassembly buffer\<close>

definition frag_info :: "u16 \<Rightarrow> u8 \<Rightarrow> u8 \<Rightarrow> FragmentInfo" where
  "frag_info pkt_id frag_total frag_id = \<lparr>fi_assoc_id = 1, fi_pkt_id = pkt_id, fi_frag_total = frag_total, fi_frag_id = frag_id,
     fi_source = None, fi_target = TIPv4 (Ipv4Addr 127 0 0 1) 8080\<rparr>"

fun has_payload :: "UdpPacket option \<Rightarrow> string \<Rightarrow> bool" where
  "has_payload (Some packet) expected \<longleftrightarrow> pk_payload packet = as_bytes expected"
| "has_payload None expected \<longleftrightarrow> False"

definition test_fragment_reassembly_single_fragment :: "'o outer_ops \<Rightarrow> 'i inner_ops \<Rightarrow> (nat \<Rightarrow> nat) \<Rightarrow> bool" where
  "test_fragment_reassembly_single_fragment co ci clock =
     (let buffer = FragmentReassemblyBuffer_new co;
          (result, buffer) = add_fragment co ci (clock 0) (frag_info 100 1 0) (as_bytes ''test payload'') buffer
      in has_payload result ''test payload'')"

definition test_fragment_reassembly_multiple_fragments :: "'o outer_ops \<Rightarrow> 'i inner_ops \<Rightarrow> (nat \<Rightarrow> nat) \<Rightarrow> bool" where
  "test_fragment_reassembly_multiple_fragments co ci clock =
     (let buffer = FragmentReassemblyBuffer_new co;
          (result1, buffer) = add_fragment co ci (clock 0) (frag_info 200 2 0) (as_bytes ''Hello '') buffer;
          (result2, buffer) = add_fragment co ci (clock 1) (frag_info 200 2 1) (as_bytes ''World'') buffer
      in result1 = None \<and> has_payload result2 ''Hello World'')"

definition test_fragment_reassembly_out_of_order :: "'o outer_ops \<Rightarrow> 'i inner_ops \<Rightarrow> (nat \<Rightarrow> nat) \<Rightarrow> bool" where
  "test_fragment_reassembly_out_of_order co ci clock =
     (let buffer = FragmentReassemblyBuffer_new co;
          (result1, buffer) = add_fragment co ci (clock 0) (frag_info 300 3 2) (as_bytes ''C'') buffer;
          (result2, buffer) = add_fragment co ci (clock 1) (frag_info 300 3 0) (as_bytes ''A'') buffer;
          (result, buffer) = add_fragment co ci (clock 2) (frag_info 300 3 1) (as_bytes ''B'') buffer
      in result1 = None \<and> result2 = None \<and> has_payload result ''ABC'')"

definition test_multiple_simultaneous_fragmentations :: "'o outer_ops \<Rightarrow> 'i inner_ops \<Rightarrow> (nat \<Rightarrow> nat) \<Rightarrow> bool" where
  "test_multiple_simultaneous_fragmentations co ci clock =
     (let buffer = FragmentReassemblyBuffer_new co;
          (_, buffer) = add_fragment co ci (clock 0) (frag_info 100 2 0) (as_bytes ''A1'') buffer;
          (_, buffer) = add_fragment co ci (clock 1) (frag_info 101 2 0) (as_bytes ''B1'') buffer;
          (result1, buffer) = add_fragment co ci (clock 2) (frag_info 100 2 1) (as_bytes ''A2'') buffer;
          (result2, buffer) = add_fragment co ci (clock 3) (frag_info 101 2 1) (as_bytes ''B2'') buffer
      in has_payload result1 ''A1A2'' \<and> has_payload result2 ''B1B2'')"

definition test_fragment_cleanup :: "'o outer_ops \<Rightarrow> 'i inner_ops \<Rightarrow> (nat \<Rightarrow> nat) \<Rightarrow> bool" where
  "test_fragment_cleanup co ci clock =
     (let buffer = FragmentReassemblyBuffer_new co;
          (_, buffer) = add_fragment co ci (clock 0) (frag_info 400 2 0) (as_bytes ''test'') buffer;
          fragments = cache_run_pending co (frb_fragments buffer);
          count = cache_entry_count co fragments;
          (_, fragments) = cache_remove co (1, 400) fragments;
          fragments = cache_run_pending co fragments
      in count = 1 \<and> cache_entry_count co fragments = 0)"

text \<open>The answers of a new buffer, evaluated on its view.\<close>

lemma answers_new:
  assumes "moka_ok co capo cono" and "moka_ok ci capi coni"
    and "\<forall>x \<in> set xs. 0 < unat (fi_frag_total (fst (snd x)))" and "length xs \<le> 1000"
  shows "fst (add_fragments co ci xs (FragmentReassemblyBuffer_new co)) = fst (spec_adds xs Map.empty)"
proof -
  let ?K = "arrival_key ` set xs"
  have "card ?K \<le> 1000"
    using card_image_le [of "set xs" arrival_key] card_length [of xs] assms(4) by simp
  from add_fragments_refine [OF assms(1,2) _ this new_buf(1) [OF assms(1)], where xs = xs] assms(3) show ?thesis
    by (simp add: new_buf(2) [OF assms(1)]) (metis fst_conv)
qed

lemmas spec_eval = spec_add_def slot_add_def slot_put_def frag_info_def info_key_def assemble_def whole_def frag_ids_def

lemma test_single:
  assumes "moka_ok co capo cono" and "moka_ok ci capi coni"
  shows "test_fragment_reassembly_single_fragment co ci clock"
  using answers_new [OF assms, of "[(clock 0, frag_info 100 1 0, as_bytes ''test payload'')]"]
  by (simp add: test_fragment_reassembly_single_fragment_def split_beta Let_def spec_eval)

lemma test_multiple:
  assumes "moka_ok co capo cono" and "moka_ok ci capi coni"
  shows "test_fragment_reassembly_multiple_fragments co ci clock"
proof -
  have "fst (spec_adds [(clock 0, frag_info 200 2 0, h), (clock 1, frag_info 200 2 1, w)] Map.empty) =
      [None, Some \<lparr>pk_source = None, pk_target = TIPv4 (Ipv4Addr 127 0 0 1) 8080, pk_payload = h @ w\<rparr>]" for h w
    by (simp add: spec_eval Let_def upt_rec)
  then show ?thesis
    using answers_new [OF assms, of "[(clock 0, frag_info 200 2 0, as_bytes ''Hello ''), (clock 1, frag_info 200 2 1, as_bytes ''World'')]"]
    by (simp add: test_fragment_reassembly_multiple_fragments_def split_beta Let_def frag_info_def as_bytes_def)
qed

lemma test_out_of_order:
  assumes "moka_ok co capo cono" and "moka_ok ci capi coni"
  shows "test_fragment_reassembly_out_of_order co ci clock"
proof -
  have "fst (spec_adds [(clock 0, frag_info 300 3 2, c), (clock 1, frag_info 300 3 0, a), (clock 2, frag_info 300 3 1, b)] Map.empty) =
      [None, None, Some \<lparr>pk_source = None, pk_target = TIPv4 (Ipv4Addr 127 0 0 1) 8080, pk_payload = a @ b @ c\<rparr>]" for a b c
    by (simp add: spec_eval Let_def upt_rec)
  then show ?thesis
    using answers_new [OF assms, of "[(clock 0, frag_info 300 3 2, as_bytes ''C''), (clock 1, frag_info 300 3 0, as_bytes ''A''),
        (clock 2, frag_info 300 3 1, as_bytes ''B'')]"]
    by (simp add: test_fragment_reassembly_out_of_order_def split_beta Let_def frag_info_def as_bytes_def)
qed

lemma test_simultaneous:
  assumes "moka_ok co capo cono" and "moka_ok ci capi coni"
  shows "test_multiple_simultaneous_fragmentations co ci clock"
proof -
  have "fst (spec_adds [(clock 0, frag_info 100 2 0, a), (clock 1, frag_info 101 2 0, b), (clock 2, frag_info 100 2 1, c),
        (clock 3, frag_info 101 2 1, d)] Map.empty) =
      [None, None, Some \<lparr>pk_source = None, pk_target = TIPv4 (Ipv4Addr 127 0 0 1) 8080, pk_payload = a @ c\<rparr>,
       Some \<lparr>pk_source = None, pk_target = TIPv4 (Ipv4Addr 127 0 0 1) 8080, pk_payload = b @ d\<rparr>]" for a b c d
    by (simp add: spec_eval Let_def upt_rec)
  then show ?thesis
    using answers_new [OF assms, of "[(clock 0, frag_info 100 2 0, as_bytes ''A1''), (clock 1, frag_info 101 2 0, as_bytes ''B1''),
        (clock 2, frag_info 100 2 1, as_bytes ''A2''), (clock 3, frag_info 101 2 1, as_bytes ''B2'')]"]
    by (simp add: test_multiple_simultaneous_fragmentations_def split_beta Let_def frag_info_def as_bytes_def)
qed

lemma test_cleanup:
  assumes "moka_ok co capo cono" and "moka_ok ci capi coni"
  shows "test_fragment_cleanup co ci clock"
proof -
  let ?b = "snd (add_fragment co ci (clock 0) (frag_info 400 2 0) (as_bytes ''test'') (FragmentReassemblyBuffer_new co))"
  obtain b where "?b = b" and ok: "buf_ok capo cono capi coni b"
    and view: "view cono coni b = snd (spec_add (frag_info 400 2 0) (as_bytes ''test'') Map.empty)"
    by (rule add_fragment_refines_spec [OF assms new_buf(1) [OF assms(1)], of "frag_info 400 2 0" "clock 0" "as_bytes ''test''"])
       (auto simp: new_buf(2) [OF assms(1)] frag_info_def)
  have dom: "dom (cono (frb_fragments b)) = {(1, 400)}"
    using dom_view [of cono coni b] unfolding view by (auto simp: spec_eval Let_def)
  have cap: "capo (frb_fragments b) = 1000"
    using ok by (simp add: buf_ok_def)
  have pending: "cono (cache_run_pending co c) = cono c \<and> cache_entry_count co (cache_run_pending co c) = card (dom (cono c)) \<and>
      capo (cache_run_pending co c) = capo c" if "card (dom (cono c)) \<le> capo c" for c
    using assms(1) that by (simp add: moka_ok_def)
  obtain c where c: "cache_remove co (1, 400) (cache_run_pending co (frb_fragments b)) =
      (cono (cache_run_pending co (frb_fragments b)) (1, 400), c)"
    and "cono c = (cono (cache_run_pending co (frb_fragments b)))((1, 400) := None)"
    using moka_remove [OF assms(1)] by metis
  with pending [of "frb_fragments b"] dom cap have "dom (cono c) = {}" by simp
  with c pending [of c] pending [of "frb_fragments b"] dom cap show ?thesis
    unfolding test_fragment_cleanup_def by (simp add: split_beta Let_def \<open>?b = b\<close>)
qed

end
