(* ===== verification/Codec_Tests.thy ===== *)
theory Codec_Tests
  imports Proto Addr_Text
begin

text \<open>
  The unit tests of the codecs under \<^verbatim>\<open>crates/wind-tuic/src/proto\<close>, each as the condition that all its
  assertions hold, and that it does. The tests write and read frames through \<^verbatim>\<open>tokio_util\<close>, which is a parameter: \<open>send\<close>
  writes an item to a sink, \<open>next\<close> reads a frame from unread input that has arrived completely.
\<close>

section \<open>Framing\<close>

type_synonym 'i framed_write = "('i \<Rightarrow> (bytes, unit, ProtoError) comp) \<Rightarrow> 'i \<Rightarrow> bytes \<Rightarrow> (unit, ProtoError) result \<times> bytes"
type_synonym 'i framed_read = "(bytes, 'i option, ProtoError) comp \<Rightarrow> (bytes, 'i option, ProtoError) comp \<Rightarrow> bytes \<Rightarrow>
  ('i, ProtoError) result option \<times> bytes"

text \<open>
  What the tests rely on: what the encoder appends to an empty buffer arrives in the sink; a frame the
  decoder finds is returned and the rest stays; when the input has ended and is too short or empty,
  the answer of \<^verbatim>\<open>decode_eof\<close> is returned.
\<close>

definition framed_ok :: "'i framed_write \<Rightarrow> 'i framed_read \<Rightarrow> bool" where
  "framed_ok send next \<longleftrightarrow>
     (\<forall>enc i buf sink. enc i [] = (Ok (), buf) \<longrightarrow> send enc i sink = (Ok (), sink @ buf)) \<and>
     (\<forall>dec eof src i rest. src \<noteq> [] \<longrightarrow> dec src = (Ok (Some i), rest) \<longrightarrow> next dec eof src = (Some (Ok i), rest)) \<and>
     (\<forall>dec eof i rest. eof [] = (Ok (Some i), rest) \<longrightarrow> next dec eof [] = (Some (Ok i), rest)) \<and>
     (\<forall>dec eof src e rest. dec src = (Ok None, src) \<longrightarrow> eof src = (Err e, rest) \<longrightarrow> fst (next dec eof src) = Some (Err e))"

text \<open>Loops of the tests: write all items and look at the length after each; read all items back.\<close>

fun write_all :: "'i framed_write \<Rightarrow> ('i \<Rightarrow> (bytes, unit, ProtoError) comp) \<Rightarrow> ('i \<Rightarrow> nat) \<Rightarrow> 'i list \<Rightarrow> bytes \<Rightarrow> nat \<Rightarrow> bytes option" where
  "write_all send enc len [] sink expect_len = Some sink"
| "write_all send enc len (i # is) sink expect_len = (case send enc i sink of
     (Ok _, sink) \<Rightarrow> if length sink = expect_len + len i then write_all send enc len is sink (expect_len + len i) else None
   | _ \<Rightarrow> None)"

fun read_all :: "'i framed_read \<Rightarrow> (bytes, 'i option, ProtoError) comp \<Rightarrow> (bytes, 'i option, ProtoError) comp \<Rightarrow> 'i list \<Rightarrow> bytes \<Rightarrow> bool" where
  "read_all next dec eof [] src \<longleftrightarrow> True"
| "read_all next dec eof (i # is) src \<longleftrightarrow> (case next dec eof src of
     (Some (Ok frame), src) \<Rightarrow> frame = i \<and> read_all next dec eof is src
   | _ \<Rightarrow> False)"

text \<open>One item, its encoding cut in half: the first half is not a frame, both halves are.\<close>

definition half_arrives ::
  "'i framed_write \<Rightarrow> 'i framed_read \<Rightarrow> ('i \<Rightarrow> (bytes, unit, ProtoError) comp) \<Rightarrow> (bytes, 'i option, ProtoError) comp \<Rightarrow>
     (bytes, 'i option, ProtoError) comp \<Rightarrow> 'i \<Rightarrow> bool" where
  "half_arrives send next enc dec eof i = (case send enc i [] of
     (Ok _, buffer) \<Rightarrow>
       (let full_len = length buffer;
            half_a = take (full_len div 2) buffer;
            half_b = drop (full_len div 2) buffer
        in fst (next dec eof half_a) = Some (Err BytesRemaining) \<and>
           fst (next dec eof (half_a @ half_b)) = Some (Ok i))
   | _ \<Rightarrow> False)"

text \<open>For any codec these loops succeed on items it accepts.\<close>

context codec
begin

lemma write_all_wire:
  assumes "framed_ok send next" and "\<forall>i \<in> set is. accepts i \<and> length (wire i) = len i" and "length sink = n"
  shows "write_all send encode len is sink n = Some (sink @ concat (map wire is))"
  using assms(2,3)
proof (induction "is" arbitrary: sink n)
  case (Cons i "is")
  then have "send encode i sink = (Ok (), sink @ wire i)"
    using assms(1) by (simp add: framed_ok_def encode_wire)
  with Cons.IH [of "sink @ wire i" "n + len i"] Cons.prems show ?case by simp
qed simp

lemma read_all_wire:
  assumes "framed_ok send next" and "\<forall>i \<in> set is. accepts i \<and> wire i \<noteq> []"
  shows "read_all next decode (eof_of decode) is (concat (map wire is))"
  using assms(2)
proof (induction "is")
  case (Cons i "is")
  then have "next decode (eof_of decode) (wire i @ concat (map wire is)) = (Some (Ok i), concat (map wire is))"
    using assms(1) by (simp add: framed_ok_def decode_wire)
  with Cons show ?case by simp
qed simp

lemma read_one_wire:
  assumes "framed_ok send next" and "accepts i"
  shows "next decode (eof_of decode) (wire i) = (Some (Ok i), [])"
proof (cases "wire i = []")
  case True
  with eof_wire [OF assms(2), of "[]"] assms(1) show ?thesis by (simp add: framed_ok_def)
next
  case False
  with decode_wire [OF assms(2), of "[]"] assms(1) show ?thesis by (simp add: framed_ok_def)
qed

lemma half_arrives_wire:
  assumes "framed_ok send next" and "accepts i" and "wire i \<noteq> []"
  shows "half_arrives send next encode decode (eof_of decode) i"
proof -
  let ?n = "length (wire i)"
  have "?n div 2 < ?n" using assms(3) by (intro div_less_dividend) simp_all
  then have short: "strict_prefix (take (?n div 2) (wire i)) (wire i)"
    by (simp add: strict_prefix_def take_is_prefix take_all_iff)
  have "send encode i [] = (Ok (), wire i)"
    using assms(1) encode_wire [OF assms(2), of "[]"] by (simp add: framed_ok_def)
  moreover have "fst (next decode (eof_of decode) (take (?n div 2) (wire i))) = Some (Err BytesRemaining)"
    using assms(1) decode_short [OF assms(2) short] eof_short [OF assms(2) short] by (simp add: framed_ok_def)
  ultimately show ?thesis
    using read_one_wire [OF assms(1,2)] by (simp add: half_arrives_def)
qed

end

section \<open>Addresses\<close>

fun addr_1_len :: "Address \<Rightarrow> nat" where
  "addr_1_len NoAddr = 1"
| "addr_1_len (Domain domain _) = 1 + 1 + length domain + 2"
| "addr_1_len (IPv4 _ _) = 1 + 4 + 2"
| "addr_1_len (IPv6 _ _) = 1 + 16 + 2"

definition addr_vars :: "Address list" where
  "addr_vars = [IPv4 (Ipv4Addr 127 0 0 1) 80, IPv6 ipv6_unspecified 12, Domain ''www.google.com'' 443]"

definition test_addr_1 :: "Address framed_write \<Rightarrow> Address framed_read \<Rightarrow> bool" where
  "test_addr_1 send next =
     (let vars = NoAddr # addr_vars in
      case write_all send AddressCodec_encode addr_1_len vars [] 0 of
        None \<Rightarrow> False
      | Some buffer \<Rightarrow> read_all next AddressCodec_decode AddressCodec_decode_eof vars buffer)"

definition test_addr_2 :: "Address framed_write \<Rightarrow> Address framed_read \<Rightarrow> bool" where
  "test_addr_2 send next =
     list_all (half_arrives send next AddressCodec_encode AddressCodec_decode AddressCodec_decode_eof) addr_vars"

lemma eof_folds: "AddressCodec_decode_eof = eof_of AddressCodec_decode" "CmdCodec_decode_eof t = eof_of (CmdCodec_decode t)"
  "HeaderCodec_decode_eof = eof_of HeaderCodec_decode"
  by (rule ext, simp add: AddressCodec_decode_eof_def CmdCodec_decode_eof_def HeaderCodec_decode_eof_def)+

lemma addr_vars_ok: "\<forall>a \<in> set (NoAddr # addr_vars). addr_ok a \<and> addr_wire a \<noteq> [] \<and> length (addr_wire a) = addr_1_len a"
  by (simp add: addr_vars_def utf8_valid_ascii_list as_bytes_def length_octets6)

lemma addr_tests_pass:
  assumes "framed_ok send next"
  shows "test_addr_1 send next" and "test_addr_2 send next"
proof -
  show "test_addr_1 send next"
    using addr.write_all_wire [OF assms, of "NoAddr # addr_vars" addr_1_len "[]" 0]
      addr.read_all_wire [OF assms, of "NoAddr # addr_vars"] addr_vars_ok
    by (simp add: test_addr_1_def eof_folds Let_def)
  show "test_addr_2 send next"
    using addr.half_arrives_wire [OF assms] addr_vars_ok by (simp add: test_addr_2_def eof_folds list_all_iff)
qed

section \<open>Commands\<close>

definition cmd_auth :: Command where
  "cmd_auth = Auth [0x02, 0xf0, 0x9a, 0x3f, 0x16, 0x24, 0x3b, 0x1d, 0x84, 0x09, 0x44, 0xef, 0xf7, 0x70, 0x82, 0x08] (replicate 32 1)"

fun cmd_1_len :: "Command \<Rightarrow> nat" where
  "cmd_1_len (Auth _ _) = 16 + 32"
| "cmd_1_len Connect = 0"
| "cmd_1_len (Packet _ _ _ _ _) = 8"
| "cmd_1_len (Dissociate _) = 2"
| "cmd_1_len Heartbeat = 0"

definition test_cmd_1 :: "Command framed_write \<Rightarrow> Command framed_read \<Rightarrow> bool" where
  "test_cmd_1 send next =
     list_all (\<lambda>cmd. let codec = CmdType_of_Command cmd in
       (case write_all send (CmdCodec_encode codec) cmd_1_len [cmd] [] 0 of
          None \<Rightarrow> False
        | Some buffer \<Rightarrow> read_all next (CmdCodec_decode codec) (CmdCodec_decode_eof codec) [cmd] buffer))
       [cmd_auth, Connect, Packet 123 123 5 1 8, Dissociate 23, Heartbeat]"

definition test_cmd_2 :: "Command framed_write \<Rightarrow> Command framed_read \<Rightarrow> bool" where
  "test_cmd_2 send next =
     list_all (\<lambda>cmd. let codec = CmdType_of_Command cmd in
       half_arrives send next (CmdCodec_encode codec) (CmdCodec_decode codec) (CmdCodec_decode_eof codec) cmd)
       [cmd_auth, Packet 123 123 5 1 8, Dissociate 23]"

lemma cmd_1_len_wire: "command_wf cmd \<Longrightarrow> length (cmd_wire cmd) = cmd_1_len cmd"
  by (cases cmd) simp_all

lemma cmd_tests_pass:
  assumes "framed_ok send next"
  shows "test_cmd_1 send next" and "test_cmd_2 send next"
proof -
  have wf: "\<forall>cmd \<in> set [cmd_auth, Connect, Packet 123 123 5 1 8, Dissociate 23, Heartbeat]. command_wf cmd"
    "\<forall>cmd \<in> set [cmd_auth, Packet 123 123 5 1 8, Dissociate 23]. command_wf cmd \<and> cmd_1_len cmd \<noteq> 0"
    by (simp_all add: cmd_auth_def)
  have whole: "(case write_all send (CmdCodec_encode (CmdType_of_Command cmd)) cmd_1_len [cmd] [] 0 of None \<Rightarrow> False
      | Some buffer \<Rightarrow> read_all next (CmdCodec_decode (CmdType_of_Command cmd)) (CmdCodec_decode_eof (CmdType_of_Command cmd)) [cmd] buffer)"
    if "command_wf cmd" for cmd
    using cmd.write_all_wire [OF assms, of "[cmd]" "CmdType_of_Command cmd" cmd_1_len "[]" 0]
      cmd.read_one_wire [OF assms, of "CmdType_of_Command cmd" cmd] that
    by (simp add: cmd_ok_def cmd_1_len_wire eof_folds del: write_all.simps)
  with wf(1) show "test_cmd_1 send next"
    unfolding test_cmd_1_def list_all_iff Let_def by blast
  have "half_arrives send next (CmdCodec_encode (CmdType_of_Command cmd)) (CmdCodec_decode (CmdType_of_Command cmd))
      (CmdCodec_decode_eof (CmdType_of_Command cmd)) cmd" if "command_wf cmd" "cmd_1_len cmd \<noteq> 0" for cmd
  proof -
    have "cmd_wire cmd \<noteq> []" using that cmd_1_len_wire [of cmd] by auto
    with cmd.half_arrives_wire [OF assms, of "CmdType_of_Command cmd" cmd] that(1) show ?thesis
      by (simp add: cmd_ok_def eof_folds)
  qed
  with wf(2) show "test_cmd_2 send next"
    unfolding test_cmd_2_def list_all_iff Let_def by blast
qed

section \<open>Headers\<close>

definition test_header_1 :: "Header framed_write \<Rightarrow> Header framed_read \<Rightarrow> bool" where
  "test_header_1 send next =
     (let header = \<lparr>version = VER, command = TyConnect\<rparr> in
      case write_all send HeaderCodec_encode (\<lambda>_. 2) [header] [] 0 of
        None \<Rightarrow> False
      | Some buffer \<Rightarrow> read_all next HeaderCodec_decode HeaderCodec_decode_eof [header] buffer)"

definition test_header_2 :: "Header framed_write \<Rightarrow> Header framed_read \<Rightarrow> bool" where
  "test_header_2 send next =
     half_arrives send next HeaderCodec_encode HeaderCodec_decode HeaderCodec_decode_eof \<lparr>version = VER, command = TyAuth\<rparr>"

lemma header_tests_pass:
  assumes "framed_ok send next"
  shows "test_header_1 send next" and "test_header_2 send next"
proof -
  let ?h = "\<lparr>version = VER, command = TyConnect\<rparr>"
  show "test_header_1 send next"
    using header.write_all_wire [OF assms, of "[?h]" "\<lambda>_. 2" "[]" 0] header.read_one_wire [OF assms, of ?h]
    by (simp add: test_header_1_def eof_folds header_ok_def header_wire_def del: write_all.simps)
  show "test_header_2 send next"
    using header.half_arrives_wire [OF assms, of "\<lparr>version = VER, command = TyAuth\<rparr>"]
    by (simp add: test_header_2_def eof_folds header_ok_def header_wire_def)
qed

section \<open>Whole messages\<close>

text \<open>The tests compare hexadecimal renderings by the crate \<^verbatim>\<open>hex\<close>, which prints lower case digits.\<close>

definition hex_ok :: "(bytes \<Rightarrow> string) \<Rightarrow> bool" where
  "hex_ok hex \<longleftrightarrow> (\<forall>bs. hex bs = concat (map (\<lambda>b. [digit_char (unat b div 16), digit_char (unat b mod 16)]) bs))"

definition hex_check_connect_encode :: "(bytes \<Rightarrow> string) \<Rightarrow> bool" where
  "hex_check_connect_encode hex =
     (case and_then (HeaderCodec_encode (Header_new TyConnect)) (\<lambda>_.
           and_then (CmdCodec_encode TyConnect Connect) (\<lambda>_.
           AddressCodec_encode (IPv4 (Ipv4Addr 127 0 0 1) 80))) [] of
        (Ok _, buffer) \<Rightarrow> ''0501017f0000010050'' = hex buffer
      | _ \<Rightarrow> False)"

definition hex_check_auth_encode :: "(bytes \<Rightarrow> string) \<Rightarrow> bool" where
  "hex_check_auth_encode hex =
     (case and_then (HeaderCodec_encode (Header_new TyAuth)) (\<lambda>_.
           CmdCodec_encode TyAuth (Auth (replicate 16 0) (replicate 32 1))) [] of
        (Ok _, buf) \<Rightarrow>
          ''0500000000000000000000000000000000000101010101010101010101010101010101010101010101010101010101010101'' = hex buf
      | _ \<Rightarrow> False)"

lemma digit_chars: "digit_char 0 = CHR ''0''" "digit_char 1 = CHR ''1''" "digit_char (Suc 0) = CHR ''1''" "digit_char 5 = CHR ''5''"
  "digit_char 7 = CHR ''7''" "digit_char 15 = CHR ''f''"
  by code_simp+

lemma replicate_lists: "replicate 16 x = [x, x, x, x, x, x, x, x, x, x, x, x, x, x, x, x]"
  "replicate 32 x = replicate 16 x @ replicate 16 x"
  by (simp_all add: numeral_eq_Suc)

lemma hex_tests_pass:
  assumes "hex_ok hex"
  shows "hex_check_connect_encode hex" and "hex_check_auth_encode hex"
proof -
  have hex: "hex bs = concat (map (\<lambda>b. [digit_char (unat b div 16), digit_char (unat b mod 16)]) bs)" for bs
    using assms by (simp add: hex_ok_def)
  show "hex_check_connect_encode hex"
    by (simp add: hex_check_connect_encode_def hex HeaderCodec_encode_def Header_new_def VER_def u16_to_be_bytes_def digit_chars)
  show "hex_check_auth_encode hex"
    by (simp add: hex_check_auth_encode_def hex HeaderCodec_encode_def Header_new_def VER_def replicate_lists digit_chars)
qed

section \<open>A framing\<close>

text \<open>A writer and a reader without buffering have the behaviour that the tests rely on.\<close>

fun frame_of :: "('i option, ProtoError) result \<times> bytes \<Rightarrow> ('i, ProtoError) result option \<times> bytes" where
  "frame_of (Ok i, rest) = (map_option Ok i, rest)"
| "frame_of (Err e, rest) = (Some (Err e), rest)"
| "frame_of (Panic, rest) = (Some Panic, rest)"

definition direct_send :: "'i framed_write" where
  "direct_send enc i sink = (case enc i [] of (Ok _, buf) \<Rightarrow> (Ok (), sink @ buf) | (Err e, _) \<Rightarrow> (Err e, sink) | (Panic, _) \<Rightarrow> (Panic, sink))"

definition direct_next :: "'i framed_read" where
  "direct_next dec eof src = (if src = [] then frame_of (eof [])
     else case dec src of (Ok None, rest) \<Rightarrow> frame_of (eof rest) | r \<Rightarrow> frame_of r)"

lemma direct_framing: "framed_ok direct_send direct_next"
  by (auto simp: framed_ok_def direct_send_def direct_next_def)

lemma codec_tests_run:
  "test_addr_1 direct_send direct_next" "test_addr_2 direct_send direct_next" "test_cmd_1 direct_send direct_next"
  "test_cmd_2 direct_send direct_next" "test_header_1 direct_send direct_next" "test_header_2 direct_send direct_next"
  using addr_tests_pass cmd_tests_pass header_tests_pass direct_framing by blast+

end
