(* ===== verification/Text_Tests.thy ===== *)
theory Text_Tests
  imports Addr_Text Core_Misc
begin

text \<open>
  The unit tests of \<^verbatim>\<open>crates/wind-core/src/types.rs\<close> on the text form of target addresses and of
  \<^verbatim>\<open>crates/wind-core/src/log.rs\<close> on crate names, each as the condition that all its assertions hold, and
  that it does. \<^verbatim>\<open>serde_json\<close> is a parameter: it writes and reads a text without characters that
  need escaping between double quotes.
\<close>

section \<open>Printing\<close>

definition test_display_ipv4 :: bool where
  "test_display_ipv4 = (case parse_ipv4_text ''127.0.0.1'' of
     None \<Rightarrow> False | Some addr \<Rightarrow> TargetAddr_display (TIPv4 addr 8080) = ''127.0.0.1:8080'')"

definition test_display_ipv6 :: bool where
  "test_display_ipv6 = (case parse_ipv6_text ''::1'' of
     None \<Rightarrow> False | Some addr \<Rightarrow> TargetAddr_display (TIPv6 addr 8080) = ''[::1]:8080'')"

definition test_display_domain :: bool where
  "test_display_domain = (TargetAddr_display (TDomain ''example.com'' 443) = ''example.com:443'')"

lemma test_digit_chars: "digit_char 0 = CHR ''0''" "digit_char 1 = CHR ''1''" "digit_char (Suc 0) = CHR ''1''" "digit_char 2 = CHR ''2''"
  "digit_char 3 = CHR ''3''" "digit_char 4 = CHR ''4''" "digit_char 5 = CHR ''5''" "digit_char 6 = CHR ''6''"
  "digit_char 7 = CHR ''7''" "digit_char 8 = CHR ''8''" "digit_char 9 = CHR ''9''" "digit_char 11 = CHR ''b''" "digit_char 13 = CHR ''d''"
  by code_simp+

lemmas show_eval = show_dec_def show_hex_def show_radix_small show_radix_large test_digit_chars

lemma shown:
  "show_ipv4 (Ipv4Addr 127 0 0 1) = ''127.0.0.1''" "show_ipv4 (Ipv4Addr 192 168 1 1) = ''192.168.1.1''"
  "show_ipv6 (Ipv6Addr 0 0 0 0 0 0 0 1) = ''::1''" "show_ipv6 (Ipv6Addr 0x2001 0xdb8 0 0 0 0 0 1) = ''2001:db8::1''"
  by (simp_all add: show_ipv6_def show_eval)

lemma parsed:
  "parse_ipv4_text ''127.0.0.1'' = Some (Ipv4Addr 127 0 0 1)" "parse_ipv4_text ''192.168.1.1'' = Some (Ipv4Addr 192 168 1 1)"
  "parse_ipv6_text ''::1'' = Some (Ipv6Addr 0 0 0 0 0 0 0 1)"
  "parse_ipv6_text ''2001:db8::1'' = Some (Ipv6Addr 0x2001 0xdb8 0 0 0 0 0 1)"
  using parse_ipv4_text_show parse_ipv6_text_show shown by metis+

lemma display_tests_pass: "test_display_ipv4" "test_display_ipv6" "test_display_domain"
  by (simp_all add: test_display_ipv4_def test_display_ipv6_def test_display_domain_def parsed shown show_eval)

section \<open>Writing and reading\<close>

definition plain :: "string \<Rightarrow> bool" where
  "plain s \<longleftrightarrow> list_all (\<lambda>c. c \<noteq> CHR 0x22 \<and> c \<noteq> CHR 0x5C \<and> 32 \<le> (of_char c :: nat)) s"

definition quoted :: "string \<Rightarrow> string" where
  "quoted s = [CHR 0x22] @ s @ [CHR 0x22]"

text \<open>\<open>to_json\<close> prints a text as JSON; \<open>from_json\<close> reads a text, if there is one.\<close>

definition json_ok :: "(string \<Rightarrow> string) \<Rightarrow> (string \<Rightarrow> string option) \<Rightarrow> bool" where
  "json_ok to_json from_json \<longleftrightarrow> (\<forall>s. plain s \<longrightarrow> to_json s = quoted s \<and> from_json (quoted s) = Some s)"

definition json_read :: "(string \<Rightarrow> string option) \<Rightarrow> string \<Rightarrow> TargetAddr option" where
  "json_read from_json s = (case from_json s of
     None \<Rightarrow> None
   | Some t \<Rightarrow> (case TargetAddr_deserialize t of Ok addr \<Rightarrow> Some addr | _ \<Rightarrow> None))"

definition serialize_deserialize :: "(string \<Rightarrow> string) \<Rightarrow> (string \<Rightarrow> string option) \<Rightarrow> TargetAddr \<Rightarrow> string \<Rightarrow> bool" where
  "serialize_deserialize to_json from_json addr expected =
     (let serialized = to_json (TargetAddr_serialize addr)
      in serialized = quoted expected \<and> json_read from_json serialized = Some addr)"

definition test_serialize_deserialize_ipv4 :: "(string \<Rightarrow> string) \<Rightarrow> (string \<Rightarrow> string option) \<Rightarrow> bool" where
  "test_serialize_deserialize_ipv4 to_json from_json = (case parse_ipv4_text ''192.168.1.1'' of
     None \<Rightarrow> False | Some a \<Rightarrow> serialize_deserialize to_json from_json (TIPv4 a 1234) ''192.168.1.1:1234'')"

definition test_serialize_deserialize_ipv6 :: "(string \<Rightarrow> string) \<Rightarrow> (string \<Rightarrow> string option) \<Rightarrow> bool" where
  "test_serialize_deserialize_ipv6 to_json from_json = (case parse_ipv6_text ''2001:db8::1'' of
     None \<Rightarrow> False | Some a \<Rightarrow> serialize_deserialize to_json from_json (TIPv6 a 5678) ''[2001:db8::1]:5678'')"

definition test_serialize_deserialize_domain :: "(string \<Rightarrow> string) \<Rightarrow> (string \<Rightarrow> string option) \<Rightarrow> bool" where
  "test_serialize_deserialize_domain to_json from_json = serialize_deserialize to_json from_json (TDomain ''test.org'' 80) ''test.org:80''"

definition test_deserialize_invalid_ipv6 :: "(string \<Rightarrow> string option) \<Rightarrow> bool" where
  "test_deserialize_invalid_ipv6 from_json = (json_read from_json (quoted ''[invalid]:1234'') = None)"

definition test_deserialize_invalid_port :: "(string \<Rightarrow> string option) \<Rightarrow> bool" where
  "test_deserialize_invalid_port from_json = (json_read from_json (quoted ''127.0.0.1:notaport'') = None)"

definition test_deserialize_missing_bracket :: "(string \<Rightarrow> string option) \<Rightarrow> bool" where
  "test_deserialize_missing_bracket from_json = (json_read from_json (quoted ''[::1:8080'') = None)"

definition test_deserialize_invalid_format :: "(string \<Rightarrow> string option) \<Rightarrow> bool" where
  "test_deserialize_invalid_format from_json = (json_read from_json (quoted ''justastring'') = None)"

lemma serialize_deserialize_pass:
  assumes "json_ok to_json from_json" and "TargetAddr_display addr = s" and "plain s"
    and "case addr of TDomain d p \<Rightarrow> CHR '':'' \<notin> set d \<and> take 1 d \<noteq> ''['' \<and> parse_ipv4_text d = None | _ \<Rightarrow> True"
  shows "serialize_deserialize to_json from_json addr s"
  using assms text_round_trip [of addr]
  by (auto simp: serialize_deserialize_def json_ok_def json_read_def TargetAddr_serialize_def)

lemma serialize_tests_pass:
  assumes "json_ok to_json from_json"
  shows "test_serialize_deserialize_ipv4 to_json from_json" "test_serialize_deserialize_ipv6 to_json from_json"
    "test_serialize_deserialize_domain to_json from_json"
proof -
  have "parse_ipv4_text ''test.org'' = None" by code_simp
  then show "test_serialize_deserialize_domain to_json from_json"
    unfolding test_serialize_deserialize_domain_def
    by (intro serialize_deserialize_pass [OF assms]) (simp_all add: plain_def show_eval)
  show "test_serialize_deserialize_ipv4 to_json from_json"
    unfolding test_serialize_deserialize_ipv4_def parsed option.case
    by (intro serialize_deserialize_pass [OF assms]) (simp_all add: plain_def show_eval)
  show "test_serialize_deserialize_ipv6 to_json from_json"
    unfolding test_serialize_deserialize_ipv6_def parsed option.case
    by (intro serialize_deserialize_pass [OF assms]) (simp_all add: plain_def shown show_eval)
qed

lemma invalid_tests_pass:
  assumes "json_ok to_json from_json"
  shows "test_deserialize_invalid_ipv6 from_json" "test_deserialize_invalid_port from_json"
    "test_deserialize_missing_bracket from_json" "test_deserialize_invalid_format from_json"
proof -
  have read: "json_read from_json (quoted s) = (case TargetAddr_deserialize s of Ok addr \<Rightarrow> Some addr | _ \<Rightarrow> None)" if "plain s" for s
    using assms that by (simp add: json_ok_def json_read_def)
  have "parse_ipv6_text ''invalid'' = None"
    by (simp add: parse_ipv6_text_def parse_with_def read_ipv6_addr_def read_groups.simps read_separator_def read_ipv4_addr_def
        read_number_def read_given_char_def to_digit_def)
  then show "test_deserialize_invalid_ipv6 from_json"
    by (simp add: test_deserialize_invalid_ipv6_def read plain_def TargetAddr_deserialize_def deserialize_ipv6_def read_given_char_def)
  have "parse_u16 ''notaport'' = None" by code_simp
  then show "test_deserialize_invalid_port from_json"
    by (simp add: test_deserialize_invalid_port_def read plain_def TargetAddr_deserialize_def)
  show "test_deserialize_missing_bracket from_json"
    by (simp add: test_deserialize_missing_bracket_def read plain_def TargetAddr_deserialize_def deserialize_ipv6_def)
  show "test_deserialize_invalid_format from_json"
    by (simp add: test_deserialize_invalid_format_def read plain_def TargetAddr_deserialize_def)
qed

section \<open>Crate names\<close>

text \<open>The module paths are those of the tests.\<close>

definition test_extract_crate_name :: bool where
  "test_extract_crate_name = (extract_crate_name (as_bytes ''wind_core::log::tests'') = as_bytes ''wind_core'')"

fun has_double_colon :: "bytes \<Rightarrow> bool" where
  "has_double_colon (b # c # bs) \<longleftrightarrow> b = 58 \<and> c = 58 \<or> has_double_colon (c # bs)"
| "has_double_colon _ \<longleftrightarrow> False"

definition test_extract_crate_name_with_logging :: bool where
  "test_extract_crate_name_with_logging =
     (let crate_name = extract_crate_name (as_bytes ''wind_core::log::tests'')
      in crate_name \<noteq> [] \<and> \<not> has_double_colon crate_name)"

definition test_extract_crate_name_nested :: bool where
  "test_extract_crate_name_nested = (extract_crate_name (as_bytes ''wind_core::log::tests::nested'') = as_bytes ''wind_core'')"

definition test_extract_crate_name_deeply_nested :: bool where
  "test_extract_crate_name_deeply_nested =
     (extract_crate_name (as_bytes ''wind_core::log::tests::deeply::nested::module'') = as_bytes ''wind_core'')"

text \<open>\<^verbatim>\<open>char::is_alphanumeric\<close> on ASCII characters, which these names consist of.\<close>

definition is_alphanumeric :: "u8 \<Rightarrow> bool" where
  "is_alphanumeric b \<longleftrightarrow> 48 \<le> b \<and> b \<le> 57 \<or> 65 \<le> b \<and> b \<le> 90 \<or> 97 \<le> b \<and> b \<le> 122"

definition test_crate_name_is_valid_identifier :: bool where
  "test_crate_name_is_valid_identifier =
     (let crate_name = extract_crate_name (as_bytes ''wind_core::log::tests'')
      in crate_name \<noteq> [] \<and> \<not> has_double_colon crate_name \<and> list_all (\<lambda>c. is_alphanumeric c \<or> c = 95) crate_name)"

lemma extract_crate_name_cut:
  assumes "58 \<notin> set name"
  shows "extract_crate_name (name @ 58 # 58 # rest) = name"
proof -
  let ?p = "name @ 58 # 58 # rest"
  have spec: "crate_name_end ?p 0 = length ?p \<or> double_colon_at ?p (crate_name_end ?p 0)" "\<forall>j < crate_name_end ?p 0. \<not> double_colon_at ?p j"
    using crate_name_end_spec [of 0 ?p] by auto
  have "double_colon_at ?p (length name)" by (simp add: double_colon_at_def nth_append)
  with spec(2) have le: "crate_name_end ?p 0 \<le> length name" by (meson not_less)
  moreover have "\<not> double_colon_at ?p j" if "j < length name" for j
  proof -
    have "name ! j \<noteq> 58" using assms nth_mem [OF that] by metis
    with that show ?thesis by (simp add: double_colon_at_def nth_append)
  qed
  ultimately have "crate_name_end ?p 0 = length name"
    using spec(1) le by (cases "crate_name_end ?p 0 < length name") auto
  then show ?thesis by (simp add: extract_crate_name_def)
qed

lemma crate_name_tests_pass:
  "test_extract_crate_name" "test_extract_crate_name_with_logging" "test_extract_crate_name_nested"
  "test_extract_crate_name_deeply_nested" "test_crate_name_is_valid_identifier"
proof -
  have name: "extract_crate_name (as_bytes (''wind_core::'' @ s)) = as_bytes ''wind_core''" for s
    using extract_crate_name_cut [of "as_bytes ''wind_core''" "as_bytes s"] by (simp add: as_bytes_def)
  show "test_extract_crate_name" "test_extract_crate_name_nested" "test_extract_crate_name_deeply_nested"
    using name [of "''log::tests''"] name [of "''log::tests::nested''"] name [of "''log::tests::deeply::nested::module''"]
    by (simp_all add: test_extract_crate_name_def test_extract_crate_name_nested_def test_extract_crate_name_deeply_nested_def)
  show "test_extract_crate_name_with_logging" "test_crate_name_is_valid_identifier"
    using name [of "''log::tests''"]
    by (simp_all add: test_extract_crate_name_with_logging_def test_crate_name_is_valid_identifier_def as_bytes_def is_alphanumeric_def Let_def)
qed

end
