(* ===== verification/Test_Packet.thy ===== *)
theory Test_Packet
  imports Prelude "HOL-Library.Sublist"
begin

unbundle bit_operations_syntax

text \<open>
  The large-packet test of \<^verbatim>\<open>crates/wind-test/src/socks5.rs\<close>: the packet it sends through the proxy, and the
  checks it makes on what comes back. Sockets and timing are not modelled; the model starts from
  the packet size and from the bytes received.
\<close>

section \<open>The packet\<close>

definition IPV4_HEADER_SIZE :: nat where "IPV4_HEADER_SIZE = 20"
definition UDP_HEADER_SIZE :: nat where "UDP_HEADER_SIZE = 8"
definition ETHERNET_MTU :: nat where "ETHERNET_MTU = 1500"

definition MAX_UDP_PAYLOAD_IPV4 :: nat where
  "MAX_UDP_PAYLOAD_IPV4 = ETHERNET_MTU - IPV4_HEADER_SIZE - UDP_HEADER_SIZE"

definition needs_fragmentation :: "nat \<Rightarrow> bool" where
  "needs_fragmentation packet_size \<longleftrightarrow> MAX_UDP_PAYLOAD_IPV4 < packet_size"

definition u32_to_be_bytes :: "u32 \<Rightarrow> bytes" where
  "u32_to_be_bytes w = [ucast (drop_bit 24 w), ucast (drop_bit 16 w), ucast (drop_bit 8 w), ucast w]"

definition test_header :: bytes where
  "test_header = as_bytes ''WIND_FRAG_TEST''"

definition pattern :: bytes where
  "pattern = as_bytes ''0123456789ABCDEF''"

lemma length_pattern [simp]: "length pattern = 16"
  by (simp add: pattern_def as_bytes_def)

lemma length_test_header [simp]: "length test_header = 14"
  by (simp add: test_header_def as_bytes_def)

lemma length_u32_to_be_bytes [simp]: "length (u32_to_be_bytes w) = 4"
  by (simp add: u32_to_be_bytes_def)

text \<open>
  The loop that fills the packet. The offset is a remainder modulo 16, so the second condition
  always holds; it lets the loop be defined for any start.
\<close>

function fill_pattern :: "nat \<Rightarrow> nat \<Rightarrow> bytes \<Rightarrow> bytes" where
  "fill_pattern packet_size pattern_offset large_packet =
     (if length large_packet < packet_size \<and> pattern_offset < 16 then
        let remaining = packet_size - length large_packet;
            copy_len = min remaining (length pattern - pattern_offset)
        in fill_pattern packet_size ((pattern_offset + copy_len) mod length pattern)
             (large_packet @ take copy_len (drop pattern_offset pattern))
      else large_packet)"
  by pat_completeness auto

termination
  by (relation "measure (\<lambda>(size, off, p). size - length p)") auto

declare fill_pattern.simps [simp del]

text \<open>\<^verbatim>\<open>wrapping_add\<close> over the bytes.\<close>

definition byte_sum :: "bytes \<Rightarrow> u32" where
  "byte_sum bs = foldl (\<lambda>checksum b. checksum + ucast b) 0 bs"

text \<open>The packet before and after its last four bytes are replaced by the sum.\<close>

definition raw_packet :: "nat \<Rightarrow> bytes" where
  "raw_packet packet_size = fill_pattern packet_size 0 (test_header @ u32_to_be_bytes (of_nat packet_size))"

definition large_packet :: "nat \<Rightarrow> bytes" where
  "large_packet packet_size =
     (let p = raw_packet packet_size; checksum = byte_sum p; len = length p
      in if 4 \<le> len then take (len - 4) p @ u32_to_be_bytes checksum else p)"

section \<open>Checking the answer\<close>

definition first_diff :: "bytes \<Rightarrow> bytes \<Rightarrow> nat option" where
  "first_diff xs ys = (case filter (\<lambda>(i, a, b). a \<noteq> b) (zip [0..<length xs] (zip xs ys)) of
     [] \<Rightarrow> None
   | (i, _, _) # _ \<Rightarrow> Some i)"

datatype test_error =
    HeaderMismatch
  | ChecksumMismatch u32
  | DataMismatch "nat option"
  | SizeMismatch nat nat

definition u32_from_be_bytes :: "bytes \<Rightarrow> u32" where
  "u32_from_be_bytes bs =
     push_bit 24 (ucast (bs ! 0)) OR push_bit 16 (ucast (bs ! 1)) OR push_bit 8 (ucast (bs ! 2)) OR ucast (bs ! 3)"

definition check_response :: "nat \<Rightarrow> bytes \<Rightarrow> test_error option" where
  "check_response packet_size received_data =
     (let p = large_packet packet_size; checksum = byte_sum (raw_packet packet_size); len = length received_data in
      if len = length p then
        if \<not> prefix test_header received_data then Some HeaderMismatch
        else if 4 \<le> len \<and> u32_from_be_bytes (drop (len - 4) received_data) \<noteq> checksum
             then Some (ChecksumMismatch (u32_from_be_bytes (drop (len - 4) received_data)))
        else if received_data = p then None
        else Some (DataMismatch (first_diff p received_data))
      else Some (SizeMismatch (length p) len))"

section \<open>The packet has the size asked for and the checks accept nothing else\<close>

lemma fill_pattern_step:
  assumes "length p < n" and "off < 16"
  shows "fill_pattern n off p = fill_pattern n ((off + min (n - length p) (16 - off)) mod 16)
    (p @ take (min (n - length p) (16 - off)) (drop off pattern))"
  using assms by (subst fill_pattern.simps) (simp add: Let_def)

lemma fill_pattern_done: "n \<le> length p \<Longrightarrow> fill_pattern n off p = p"
  by (simp add: fill_pattern.simps)

lemma fill_pattern_spec:
  assumes "off < 16"
  shows "length (fill_pattern n off p) = max (length p) n \<and> take (length p) (fill_pattern n off p) = p \<and>
    (\<forall>i. length p \<le> i \<longrightarrow> i < n \<longrightarrow> fill_pattern n off p ! i = pattern ! ((off + (i - length p)) mod 16))"
  using assms
proof (induction n off p rule: fill_pattern.induct)
  case (1 n off p)
  show ?case
  proof (cases "length p < n")
    case True
    let ?k = "min (n - length p) (16 - off)"
    let ?q = "p @ take ?k (drop off pattern)" and ?off = "(off + ?k) mod 16"
    have len: "length ?q = length p + ?k" by simp
    have IH: "length (fill_pattern n ?off ?q) = max (length ?q) n" "take (length ?q) (fill_pattern n ?off ?q) = ?q"
        "\<And>i. length ?q \<le> i \<Longrightarrow> i < n \<Longrightarrow> fill_pattern n ?off ?q ! i = pattern ! ((?off + (i - length ?q)) mod 16)"
      using "1.IH" [of "n - length p" ?k] True 1(2) by (simp_all add: length_pattern)
    have step: "fill_pattern n off p = fill_pattern n ?off ?q"
      using fill_pattern_step [OF True 1(2)] by simp
    have nth: "fill_pattern n ?off ?q ! i = pattern ! ((off + (i - length p)) mod 16)" if i: "length p \<le> i" "i < n" for i
    proof (cases "i < length ?q")
      case True
      have "fill_pattern n ?off ?q ! i = take (length ?q) (fill_pattern n ?off ?q) ! i" using True by simp
      also have "\<dots> = pattern ! (off + (i - length p))"
      proof -
        have "i - length p < ?k" using True i len by linarith
        with i 1(2) show ?thesis unfolding IH(2) by (simp add: nth_append)
      qed
      finally show ?thesis using True i len by simp
    next
      case False
      then have "off + ?k + (i - length ?q) = off + (i - length p)"
        using i len by linarith
      then have "(?off + (i - length ?q)) mod 16 = (off + (i - length p)) mod 16"
        by (metis mod_add_left_eq)
      moreover have "fill_pattern n ?off ?q ! i = pattern ! ((?off + (i - length ?q)) mod 16)"
        using False i by (intro IH(3)) (simp_all only: not_less)
      ultimately show ?thesis by (simp only:)
    qed
    have "take (length p) (fill_pattern n ?off ?q) = take (length p) (take (length ?q) (fill_pattern n ?off ?q))"
      using len by (simp add: min_def)
    also have "\<dots> = p" unfolding IH(2) by simp
    finally have front: "take (length p) (fill_pattern n ?off ?q) = p" .
    have "length (fill_pattern n ?off ?q) = max (length p) n"
      unfolding IH(1) len using True by simp
    with front nth show ?thesis unfolding step by blast
  next
    case False
    then show ?thesis by (simp add: fill_pattern_done)
  qed
qed

lemma u32_from_to_be_bytes: "u32_from_be_bytes (u32_to_be_bytes w) = w"
proof (rule bit_word_eqI)
  fix k assume "k < LENGTH(32)"
  then consider "k < 8" | "8 \<le> k" "k < 16" | "16 \<le> k" "k < 24" | "24 \<le> k" "k < 32" by fastforce
  then show "bit (u32_from_be_bytes (u32_to_be_bytes w)) k = bit w k"
    by cases (auto simp: u32_from_be_bytes_def u32_to_be_bytes_def bit_simps)
qed

lemma raw_packet_spec:
  "length (raw_packet n) = max 18 n"
  "take 18 (raw_packet n) = test_header @ u32_to_be_bytes (of_nat n)"
  "18 \<le> i \<Longrightarrow> i < n \<Longrightarrow> raw_packet n ! i = pattern ! ((i - 18) mod 16)"
  using fill_pattern_spec [of 0 n "test_header @ u32_to_be_bytes (of_nat n)"] by (simp_all add: raw_packet_def)

lemma large_packet_eq:
  "large_packet n = take (max 18 n - 4) (raw_packet n) @ u32_to_be_bytes (byte_sum (raw_packet n))"
  by (simp add: large_packet_def Let_def raw_packet_spec(1))

lemma length_large_packet: "length (large_packet n) = max 18 n"
  by (simp add: large_packet_eq raw_packet_spec(1))

lemma prefix_large_packet: "prefix test_header (large_packet n)"
proof -
  have "take 14 (take 18 (raw_packet n)) = test_header" by (simp add: raw_packet_spec(2))
  then have "take 14 (take (max 18 n - 4) (raw_packet n)) = test_header"
    by (simp add: min_def)
  then show ?thesis
    unfolding large_packet_eq by (metis append_take_drop_id prefixI prefix_prefix)
qed

lemma check_response_refl: "check_response n (large_packet n) = None"
proof -
  have "drop (length (large_packet n) - 4) (large_packet n) = u32_to_be_bytes (byte_sum (raw_packet n))"
    unfolding length_large_packet by (simp add: large_packet_eq raw_packet_spec(1))
  then show ?thesis
    by (simp add: check_response_def Let_def prefix_large_packet u32_from_to_be_bytes)
qed

lemma check_response_eq: "check_response n received = None \<longleftrightarrow> received = large_packet n"
  using check_response_refl [of n] by (auto simp: check_response_def Let_def split: if_splits)

text \<open>
  The large-packet test. The packet has the size asked for, but at least the 18 bytes of its header
  and size field; between them and its last four bytes it repeats the sixteen-byte pattern. The test
  passes exactly when the bytes received are the packet that was sent.
\<close>

theorem check_response_exact:
  "(check_response n received = None \<longleftrightarrow> received = large_packet n) \<and>
   length (large_packet n) = max 18 n \<and>
   (18 \<le> i \<and> i + 4 < n \<longrightarrow> large_packet n ! i = pattern ! ((i - 18) mod 16))"
proof -
  have "large_packet n ! i = pattern ! ((i - 18) mod 16)" if "18 \<le> i" "i + 4 < n"
  proof -
    have "i < max 18 n - 4" using that by simp
    with that raw_packet_spec(3) [of i n] show ?thesis
      by (simp add: large_packet_eq nth_append raw_packet_spec(1))
  qed
  then show ?thesis by (auto simp: length_large_packet check_response_eq)
qed

theorem check_response_exact_witness:
  "large_packet 40 ! 20 = pattern ! 2"
  using check_response_exact [of 40 "[]" 20] by simp

end
