(* ===== verification/Test_Client.thy ===== *)
theory Test_Client
  imports Test_Packet Addr_Text
begin

text \<open>
  The test clients of \<^verbatim>\<open>crates/wind-test/src/socks5.rs\<close>: requests over TCP and UDP, directly and through a SOCKS5
  proxy. The network and the client of \<^verbatim>\<open>fast_socks5\<close> are a parameter; what the tests print is not modelled,
  only what they send and what they return.
\<close>

section \<open>The network\<close>

text \<open>
  The calls in the order of the tests. Each says whether it fails; \<open>te_recv\<close> is what arrives in answer to
  the bytes sent, and nothing in time is \<open>None\<close>. A buffer keeps what fits.
\<close>

record test_env =
  te_connect :: "string \<Rightarrow> string option"
  te_bind :: "string option"
  te_local_addr :: "string option"
  te_send :: "bytes \<Rightarrow> string option"
  te_send_to :: "string \<times> u16 \<Rightarrow> bytes \<Rightarrow> string option"
  te_recv :: "bytes \<Rightarrow> (bytes, string) result option"

datatype client_error =
    ProxyConnect string
  | Association string
  | Transport string
  | ReceiveError string
  | TestTimeout
  | Check test_error

definition crlf :: string where
  "crlf = [CHR 0x0D, CHR 0x0A]"

definition addr_text :: "string \<Rightarrow> u16 \<Rightarrow> string" where
  "addr_text host p = host @ '':'' @ show_dec (unat p)"

text \<open>Waiting for an answer without and with a limit; \<open>None\<close> is waiting for ever.\<close>

definition recv_into :: "nat \<Rightarrow> (bytes, string) result \<Rightarrow> (bytes, string) result" where
  "recv_into room r = (case r of Ok bs \<Rightarrow> Ok (take room bs) | Err e \<Rightarrow> Err e | Panic \<Rightarrow> Panic)"

section \<open>Direct requests\<close>

definition direct_request :: "string \<Rightarrow> string" where
  "direct_request target_host =
     ''GET / HTTP/1.1'' @ crlf @ ''Host: '' @ target_host @ crlf @ ''Connection: close'' @ crlf @ crlf"

definition test_direct_tcp :: "test_env \<Rightarrow> string \<Rightarrow> u16 \<Rightarrow> (unit, client_error) result option" where
  "test_direct_tcp env target_host port_num =
     (case te_connect env (addr_text target_host port_num) of
        Some e \<Rightarrow> Some (Err (Transport e))
      | None \<Rightarrow>
          let request = as_bytes (direct_request target_host) in
          (case te_send env request of
             Some e \<Rightarrow> Some (Err (Transport e))
           | None \<Rightarrow>
               (case map_option (recv_into 1024) (te_recv env request) of
                  None \<Rightarrow> None
                | Some (Ok response) \<Rightarrow> Some (Ok ())
                | Some (Err e) \<Rightarrow> Some (Err (Transport e))
                | Some Panic \<Rightarrow> Some Panic)))"

definition direct_dns_query :: bytes where
  "direct_dns_query = [0x12, 0x34, 0x01, 0x00, 0x00, 0x01, 0x00, 0x00, 0x00, 0x00, 0x00, 0x00, 0x07, 0x65, 0x78, 0x61, 0x6d, 0x70,
     0x6c, 0x65, 0x03, 0x63, 0x6f, 0x6d, 0x00, 0x00, 0x01, 0x00, 0x01]"

definition test_direct_udp :: "test_env \<Rightarrow> string \<Rightarrow> u16 \<Rightarrow> (unit, client_error) result option" where
  "test_direct_udp env target_host port_num =
     (case te_bind env of
        Some e \<Rightarrow> Some (Err (Transport e))
      | None \<Rightarrow>
          (case te_connect env (addr_text target_host port_num) of
             Some e \<Rightarrow> Some (Err (Transport e))
           | None \<Rightarrow>
               (case te_send env direct_dns_query of
                  Some e \<Rightarrow> Some (Err (Transport e))
                | None \<Rightarrow>
                    (case map_option (recv_into 512) (te_recv env direct_dns_query) of
                       None \<Rightarrow> None
                     | Some (Ok _) \<Rightarrow> Some (Ok ())
                     | Some (Err e) \<Rightarrow> Some (Err (Transport e))
                     | Some Panic \<Rightarrow> Some Panic))))"

section \<open>Requests through the proxy\<close>

definition proxy_request :: "string \<Rightarrow> string" where
  "proxy_request target_host =
     ''GET / HTTP/1.1'' @ crlf @ ''Host: '' @ target_host @ crlf @ ''Connection: close'' @ crlf @
     ''User-Agent: wind-test/1.0'' @ crlf @ crlf"

text \<open>The request reads to the end of the stream.\<close>

definition test_socks5_tcp :: "test_env \<Rightarrow> string \<Rightarrow> string \<Rightarrow> u16 \<Rightarrow> (unit, client_error) result option" where
  "test_socks5_tcp env proxy_addr target_host port_num =
     (case te_connect env proxy_addr of
        Some e \<Rightarrow> Some (Err (ProxyConnect e))
      | None \<Rightarrow>
          let request = as_bytes (proxy_request target_host) in
          (case te_send env request of
             Some e \<Rightarrow> Some (Err (Transport e))
           | None \<Rightarrow>
               (case te_recv env request of
                  None \<Rightarrow> None
                | Some (Ok response) \<Rightarrow> Some (Ok ())
                | Some (Err e) \<Rightarrow> Some (Err (Transport e))
                | Some Panic \<Rightarrow> Some Panic)))"

definition dns_query :: bytes where
  "dns_query = [0xAB, 0xCD, 0x01, 0x00, 0x00, 0x01, 0x00, 0x00, 0x00, 0x00, 0x00, 0x00] @
     [0x07] @ as_bytes ''example'' @ [0x03] @ as_bytes ''com'' @ [0x00, 0x00, 0x01, 0x00, 0x01]"

record dns_details =
  dd_flags :: u16
  dd_questions :: u16
  dd_answers :: u16
  dd_authorities :: u16
  dd_additional :: u16

definition dns_response_details :: "bytes \<Rightarrow> dns_details option" where
  "dns_response_details r =
     (if 12 \<le> length r then
        Some \<lparr>dd_flags = u16_from_be_bytes (r ! 2) (r ! 3), dd_questions = u16_from_be_bytes (r ! 4) (r ! 5),
          dd_answers = u16_from_be_bytes (r ! 6) (r ! 7), dd_authorities = u16_from_be_bytes (r ! 8) (r ! 9),
          dd_additional = u16_from_be_bytes (r ! 10) (r ! 11)\<rparr>
      else None)"

definition dns_successful :: "bytes \<Rightarrow> bool" where
  "dns_successful r = (case dns_response_details r of
     Some d \<Rightarrow> dd_flags d AND 0x0F = 0 \<and> 0 < dd_answers d
   | None \<Rightarrow> False)"

text \<open>The common start of the UDP tests: the control connection, the association and its local address.\<close>

definition associate :: "test_env \<Rightarrow> string \<Rightarrow> client_error option" where
  "associate env proxy_addr =
     (case te_connect env proxy_addr of
        Some e \<Rightarrow> Some (ProxyConnect e)
      | None \<Rightarrow>
          (case te_bind env of
             Some e \<Rightarrow> Some (Association e)
           | None \<Rightarrow> map_option Transport (te_local_addr env)))"

text \<open>The test prints whether the query was successful, and returns success also when nothing came.\<close>

definition test_socks5_udp :: "test_env \<Rightarrow> string \<Rightarrow> string \<Rightarrow> u16 \<Rightarrow> (bool option, client_error) result" where
  "test_socks5_udp env proxy_addr target_host port_num =
     (case associate env proxy_addr of
        Some e \<Rightarrow> Err e
      | None \<Rightarrow>
          (case te_send_to env (target_host, port_num) dns_query of
             Some e \<Rightarrow> Err (Transport e)
           | None \<Rightarrow>
               (case map_option (recv_into 1024) (te_recv env dns_query) of
                  Some (Ok dns_response) \<Rightarrow> Ok (Some (dns_successful dns_response))
                | Some (Err e) \<Rightarrow> Err (ReceiveError e)
                | Some Panic \<Rightarrow> Panic
                | None \<Rightarrow> Ok None)))"

definition test_socks5_udp_large_packet :: "test_env \<Rightarrow> string \<Rightarrow> string \<Rightarrow> u16 \<Rightarrow> nat \<Rightarrow> (unit, client_error) result" where
  "test_socks5_udp_large_packet env proxy_addr target_host port_num packet_size =
     (case associate env proxy_addr of
        Some e \<Rightarrow> Err e
      | None \<Rightarrow>
          let packet = large_packet packet_size in
          (case te_send_to env (target_host, port_num) packet of
             Some e \<Rightarrow> Err (Transport e)
           | None \<Rightarrow>
               (case map_option (recv_into (packet_size + 1024)) (te_recv env packet) of
                  Some (Ok received) \<Rightarrow>
                    (case check_response packet_size received of None \<Rightarrow> Ok () | Some e \<Rightarrow> Err (Check e))
                | Some (Err e) \<Rightarrow> Err (ReceiveError e)
                | Some Panic \<Rightarrow> Panic
                | None \<Rightarrow> Err TestTimeout)))"

section \<open>What the tests accept\<close>

text \<open>
  The large-packet test passes exactly when the association can be made, the packet is sent, and what
  fits of the answer is the packet.
\<close>

lemma large_packet_test_passes:
  "test_socks5_udp_large_packet env proxy host p n = Ok () \<longleftrightarrow>
     associate env proxy = None \<and> te_send_to env (host, p) (large_packet n) = None \<and>
     (\<exists>bs. te_recv env (large_packet n) = Some (Ok bs) \<and> take (n + 1024) bs = large_packet n)"
  by (auto simp: test_socks5_udp_large_packet_def Let_def recv_into_def check_response_eq check_response_refl
      split: option.splits result.splits)

text \<open>An echo server passes at every size: the buffer has room for the packet, whose length is 18 at least.\<close>

lemma echo_passes:
  assumes "associate env proxy = None" and "\<And>bs. te_send_to env (host, p) bs = None" and "\<And>bs. te_recv env bs = Some (Ok bs)"
  shows "test_socks5_udp_large_packet env proxy host p n = Ok ()"
  using assms by (simp add: large_packet_test_passes length_large_packet)

text \<open>
  The DNS test fails only when a call fails: silence and any answer at all count as success. Its
  query has one question and no other section, and is not itself taken for a successful answer.
\<close>

lemma udp_test_lenient:
  assumes "associate env proxy = None" and "te_send_to env (host, p) dns_query = None" and "te_recv env dns_query \<in> {None} \<union> range (Some \<circ> Ok)"
  shows "\<exists>r. test_socks5_udp env proxy host p = Ok r"
  using assms by (auto simp: test_socks5_udp_def recv_into_def)

lemma dns_query_shape:
  "length dns_query = 29" "map_option dd_questions (dns_response_details dns_query) = Some 1"
  "map_option dd_answers (dns_response_details dns_query) = Some 0" "\<not> dns_successful dns_query"
proof -
  have len: "length dns_query = 29" by (simp add: dns_query_def as_bytes_def)
  then show "length dns_query = 29" .
  have "dns_query ! 4 = 0" "dns_query ! 5 = 1" "dns_query ! 6 = 0" "dns_query ! 7 = 0"
    by (simp_all add: dns_query_def as_bytes_def)
  then show q: "map_option dd_questions (dns_response_details dns_query) = Some 1"
    and a: "map_option dd_answers (dns_response_details dns_query) = Some 0"
    using len by (simp_all add: dns_response_details_def u16_from_be_bytes_def)
  from a show "\<not> dns_successful dns_query"
    by (auto simp: dns_successful_def split: option.splits)
qed

text \<open>Both queries ask the same question.\<close>

lemma dns_queries_agree: "drop 2 direct_dns_query = drop 2 dns_query"
  by (simp add: direct_dns_query_def dns_query_def as_bytes_def)

end
