(* ===== verification/Spec2Isabelle.thy ===== *)
theory Spec2Isabelle
  imports Udp_Delivery End_To_End Server_Typing Stream_Adapters Direct_Relay Direct_Tcp Udp_Api Log_Setup Reassembly_Tests Codec_Tests Text_Tests Test_Client
begin

text \<open>
  A verification library for the wind proxy, a SOCKS5 server whose traffic is carried over QUIC by
  the TUIC protocol.

  \<^bold>\<open>The program.\<close> A local application talks SOCKS5 to the client process. The SOCKS5 server
  (\<^verbatim>\<open>crates/wind-socks\<close>) accepts TCP requests and UDP associations and calls back into the program
  (\<^verbatim>\<open>crates/wind\<close>), which passes them to the TUIC client (\<^verbatim>\<open>crates/wind-tuic/src/outbound.rs\<close>). The TUIC client
  authenticates one QUIC connection, opens a stream per TCP request, and sends the packets of a UDP
  association in datagrams, in fragments when they are too long (\<^verbatim>\<open>proto/udp_stream.rs\<close>). The TUIC server
  (\<^verbatim>\<open>crates/wind-tuic/src/inbound.rs\<close>) checks the token and hands targets and packets to its own callback. Both
  sides share the codecs of \<^verbatim>\<open>crates/wind-tuic/src/proto\<close> and the sockets, relays and addresses of
  \<^verbatim>\<open>crates/wind-core\<close>.

  \<^bold>\<open>Conventions.\<close> A fallible operation returns \<open>Ok\<close>, \<open>Err\<close> or \<open>Panic\<close>; an operation with state
  is a function from the state to a result and a new state, composed as the \<^verbatim>\<open>?\<close> operator composes them
  (\<open>Prelude\<close>). Integers have their width, lengths are natural numbers, a \<^verbatim>\<open>String\<close> is a list of
  characters that stand for its bytes. A function of a build with overflow checks has a flag for
  them. Tasks that run side by side are step relations or runs over an explicit sequence of events,
  so that a theorem about all sequences is one about all interleavings.

  \<^bold>\<open>Theories and sources.\<close>
    \<^item> \<open>Prelude\<close>, \<open>Utf8\<close>, \<open>Net_Types\<close>: results, buffers, the string and address types of the
      standard library, and \<open>TargetAddr\<close> of \<^verbatim>\<open>wind-core/src/types.rs\<close>. \<open>Addr_Text\<close> has its text form with the
      printers and parsers of the standard library that it uses.
    \<^item> \<open>Codec\<close>, \<open>Header_Codec\<close>, \<open>Cmd_Codec\<close>, \<open>Addr_Codec\<close>, \<open>Proto\<close>: \<^verbatim>\<open>wind-tuic/src/proto\<close>, its error type,
      the three codecs and the operations of \<^verbatim>\<open>mod.rs\<close> on a connection. The contract of a codec is a
      locale, interpreted for each of the three.
    \<^item> \<open>Moka\<close>, \<open>Reassembly\<close>, \<open>Reassembly_Runs\<close>, \<open>Udp_Stream\<close>: \<^verbatim>\<open>proto/udp_stream.rs\<close>, the reassembly buffer
      with its shared metadata cells in an explicit store, and the stream of an association.
    \<^item> \<open>Tuic_Outbound\<close>, \<open>Tuic_Client_Tasks\<close>, \<open>Tuic_Association\<close>, \<open>Udp_Session\<close>, \<open>Udp_Delivery\<close>: the TUIC client,
      \<^verbatim>\<open>outbound.rs\<close>, \<^verbatim>\<open>task.rs\<close> and \<^verbatim>\<open>tls.rs\<close>: construction, polling task, the accepting tasks, the reader and the sender of an
      association, and all of them together as a step relation.
    \<^item> \<open>Tuic_Inbound\<close>, \<open>Tuic_Server\<close>, \<open>Server_Typing\<close>: the TUIC server, \<^verbatim>\<open>inbound.rs\<close>: the handlers, the loop of a
      connection, the accept loop, and what is true of every value it hands on.
    \<^item> \<open>Core_Udp\<close>, \<open>Socks_Udp\<close>, \<open>Udp_Api\<close>: \<^verbatim>\<open>wind-core/src/udp.rs\<close> and \<^verbatim>\<open>wind-socks/src/udp.rs\<close>, the two UDP sockets. Their
      contract is a locale with both sockets as interpretations, which the reader of an association
      relies on; a second locale extends it for the provided methods.
    \<^item> \<open>Socks_Inbound\<close>: \<^verbatim>\<open>wind-socks/src/inbound.rs\<close>, \<^verbatim>\<open>ext.rs\<close>, \<^verbatim>\<open>lib.rs\<close>. \<open>Wind_App\<close> and \<open>Log_Setup\<close>: \<^verbatim>\<open>crates/wind/src\<close>.
    \<^item> \<open>Copy_Io\<close>, \<open>Stream_Adapters\<close>, \<open>Core_Misc\<close>: \<^verbatim>\<open>io.rs\<close>, \<^verbatim>\<open>outbound.rs\<close>, \<^verbatim>\<open>interface.rs\<close> and \<^verbatim>\<open>log.rs\<close> of \<^verbatim>\<open>wind-core\<close>. The
      contract of a two-way stream is a locale, interpreted for both adapters.
    \<^item> \<open>Direct_Relay\<close>, \<open>Direct_Tcp\<close>, \<open>Test_Packet\<close>, \<open>Test_Client\<close>: proxy and clients of \<^verbatim>\<open>wind-test/src/socks5.rs\<close>.
      \<open>Codec_Tests\<close>, \<open>Reassembly_Tests\<close>, \<open>Text_Tests\<close>: the unit tests of the crates, each as a condition
      that is shown to hold.
    \<^item> \<open>End_To_End\<close> and this theory: properties of several components.

  \<^bold>\<open>What is shown.\<close>
    \<^item> Codecs: each decoder accepts exactly the output of its encoder, waits for more input on every
      proper prefix, and never panics; encoder and decoder are inverse. The same holds of the SOCKS5
      header parser and of the text form of addresses, with the exceptions stated there.
    \<^item> UDP: a packet is cut into datagrams within the limit of the connection that carry its bytes
      once, and the buffer puts them together in any order, repeated and mixed with other packets; it
      refines a map from packets to their missing pieces. Across a connection a packet arrives as it
      was sent. With all tasks of a client interleaved, what is on the connection for an association
      is what its sender took from its queue, in order.
    \<^item> Security: a stream reaches the callback of the server only on a connection whose token was
      right, the token of the client is the one the server computes, and a SOCKS5 client without the
      password has no effect.
    \<^item> Robustness: the places where a message from the network can panic a task are characterised
      by equivalences, as are the ends of the relay, of the heartbeats and of the accepting tasks.
    \<^item> Program: which source decides a setting, and that the configuration written by \<^verbatim>\<open>init\<close> is the
      one a later start uses.
    \<^item> Several theorems state behaviour that the documentation of the program does not have, such as
      the server taking a fragment for a packet; each says so.

  \<^bold>\<open>Parameters.\<close> Code outside the repository is a parameter: the QUIC connection (a record of answers; its
  state is the log of the operations that succeeded), the cache \<^verbatim>\<open>moka\<close>, receive streams, the SOCKS5
  handshake of \<^verbatim>\<open>fast_socks5\<close>, the readers of configuration formats, \<^verbatim>\<open>tokio_util\<close>'s framing, \<^verbatim>\<open>tracing_subscriber\<close>,
  and the operating system. Where a proof needs more than their types, a predicate states the
  documented behaviour (\<open>moka_ok\<close>, \<open>recv_ok\<close>, \<open>attempt_ok\<close>, \<open>framed_ok\<close>, \<open>targets_ok\<close>), and a concrete
  instance has it.

  \<^bold>\<open>Bounds.\<close> There is no fuel. Loops are structural recursions over their input or over the events of a
  run; the loop that fills a test packet and the printers of numbers have measures. A
  receive loop whose rounds are used up without a result returns \<open>None\<close>, which stands for a loop that
  is still running. Receive loops are given the rounds of one poll; theorems about them hold for
  every sequence of rounds.

  \<^bold>\<open>Not modelled.\<close> Cryptography, congestion control and everything else inside QUIC and TLS; time, apart
  from timers as events and the age of cached fragments; log output; memory limits of queues where
  the code waits. Traits without code appear as the parameters of their users. \<^verbatim>\<open>AppContext\<close> is a pair of a
  token and a task tracker, seen by the tasks as the event of a cancellation. The tests that start
  processes over the network (\<^verbatim>\<open>wind-core/src/udp_tests.rs\<close>, \<^verbatim>\<open>wind-tuic/tests\<close>, and the last part of
  \<^verbatim>\<open>wind-test/src/socks5.rs\<close>) call operations that are modelled in their own components, or only those of the
  operating system.
\<close>

section \<open>A packet from one side to the other\<close>


definition sample_udp_packet :: UdpPacket where
  "sample_udp_packet = \<lparr>pk_source = None, pk_target = TIPv4 (Ipv4Addr 1 2 3 4) 53, pk_payload = [1, 2, 3, 4, 5]\<rparr>"

definition sample_stream :: "((pkt_key, nat) alist_state, (u8, bytes) alist_state) UdpStream" where
  "sample_stream = UdpStream_new alist_cache [] 0"

definition sample_receiver :: "((pkt_key, nat) alist_state, (u8, bytes) alist_state, (u16, nat) alist_state) poll_task" where
  "sample_receiver = poll_start (snd (handle_udp_open alist_cache alist_cache sample_outbound))"

lemma sample_receiver_facts:
  "pt_status sample_receiver = Polling" "ob_streams (pt_outbound sample_receiver) = [sample_stream]"
  "snd (ob_udp_session (pt_outbound sample_receiver)) = [(0, 0)]"
  by (simp_all add: sample_receiver_def poll_start_def handle_udp_open_def sample_outbound_def sample_stream_def
      alist_cache_simps Let_def)


section \<open>Client and server\<close>

lemma TuicOutbound_new_connection:
  assumes "TuicOutbound_new q cu setup opts = Ok ob" and "oo_auth opts = (uuid, secret)"
  obtains token where "export_keying_material q 32 uuid secret = Some token"
    and "ob_connection ob = [OpenUni, WriteChunk 0 (message (Auth uuid token) None)]"
proof -
  have "fst (send_auth q uuid secret []) = Ok ()" and conn: "ob_connection ob = snd (send_auth q uuid secret [])"
    using assms by (auto simp: TuicOutbound_new_def split: result.splits prod.splits)
  then obtain token where t: "export_keying_material q 32 uuid secret = Some token"
    by (cases "export_keying_material q 32 uuid secret") (simp_all add: send_auth_def)
  have "outcome q [] OpenUni = None \<and> outcome q [OpenUni] (WriteChunk 0 (message (Auth uuid token) None)) = None"
    using \<open>fst (send_auth q uuid secret []) = Ok ()\<close> t
    by (auto simp: send_auth_def and_then_def message_def perform_def split: option.splits)
  with t conn send_auth_log [of q uuid secret token "[]"] show thesis
    by (intro that [of token]) simp_all
qed

text \<open>
  C4. A client is let in exactly with the right password. A client that has come up has opened one stream
  and written one authentication command on it. When the server reads that stream, over the same TLS
  session, so that both sides export the same keying material, it marks the connection as
  authenticated if and only if it knows the user and the keying material for its password equals that
  for the client's secret; otherwise its state is unchanged.
\<close>

theorem client_authenticates:
  fixes rops :: "'r recv_ops"
  assumes "TuicOutbound_new qc cu setup opts = Ok ob" and "oo_auth opts = (uuid, secret)" and "length uuid = 16"
    and "\<And>u p. export_keying_material qs 32 u p = export_keying_material qc 32 u p"
    and "\<And>u p t. export_keying_material qc 32 u p = Some t \<Longrightarrow> length t = 32"
    and "recv_ok rops content"
  shows "\<exists>d. ob_connection ob = [OpenUni, WriteChunk 0 d] \<and>
    (\<forall>recv s. content recv = Some d \<longrightarrow>
       (if \<exists>password. ic_users s uuid = Some password \<and>
           export_keying_material qc 32 uuid (as_bytes password) = export_keying_material qc 32 uuid secret
        then handle_uni_stream rops qs recv s = (Ok (), s\<lparr>ic_uuid := Some uuid\<rparr>)
        else \<exists>e. handle_uni_stream rops qs recv s = (Err (EMsg e), s)))"
proof -
  obtain token where t: "export_keying_material qc 32 uuid secret = Some token"
    and conn: "ob_connection ob = [OpenUni, WriteChunk 0 (message (Auth uuid token) None)]"
    using TuicOutbound_new_connection [OF assms(1,2)] by metis
  have wf: "command_wf (Auth uuid token)"
    using assms(3) assms(5) [OF t] by simp
  have len: "length (message (Auth uuid token) None) \<le> 65536"
    using assms(3) assms(5) [OF t] by (simp add: message_def)
  have valid: "token_valid qs (ic_users s) uuid token \<longleftrightarrow> (\<exists>password. ic_users s uuid = Some password \<and>
      export_keying_material qc 32 uuid (as_bytes password) = export_keying_material qc 32 uuid secret)" for s :: "'r InboundCtx"
    by (auto simp: token_valid_def assms(4) t split: option.split)
  have run: "handle_uni_stream rops qs recv s = handle_auth qs uuid token s"
    if c: "content recv = Some (message (Auth uuid token) None)" for recv and s :: "'r InboundCtx"
  proof -
    obtain recv' where "read_to_end rops 65536 recv = (Ok (message (Auth uuid token) None), recv')"
      by (rule recv_to_end [OF assms(6) c len])
    then have "fst (read_to_end rops 65536 recv) = Ok (message (Auth uuid token) None @ [])"
      by simp
    from handle_uni_stream_message [OF this wf] show ?thesis by simp
  qed
  have "if token_valid qs (ic_users s) uuid token then handle_uni_stream rops qs recv s = (Ok (), s\<lparr>ic_uuid := Some uuid\<rparr>)
      else \<exists>e. handle_uni_stream rops qs recv s = (Err (EMsg e), s)"
    if "content recv = Some (message (Auth uuid token) None)" for recv s
    unfolding run [OF that] using handle_auth_valid [of qs s uuid token] handle_auth_invalid [of qs s uuid token] by simp
  with conn show ?thesis
    unfolding valid by blast
qed

theorem client_authenticates_witness:
  "handle_uni_stream byte_stream (sample_quinn 1200) (message (Auth (replicate 16 1) (replicate 32 7)) None)
      (InboundCtx_new sample_users) = (Ok (), (InboundCtx_new sample_users)\<lparr>ic_uuid := Some (replicate 16 1)\<rparr>)"
proof -
  let ?opts = "(ob_opts sample_outbound)\<lparr>oo_auth := (replicate 16 1, as_bytes ''secret'')\<rparr>"
  let ?d = "message (Auth (replicate 16 1) (replicate 32 7)) None"
  let ?ob = "\<lparr>ob_opts = ?opts, ob_connection = [OpenUni, WriteChunk 0 ?d], ob_udp_assoc_counter = 0,
      ob_udp_session = cache_new alist_cache 65535, ob_streams = [] :: ((pkt_key, nat) alist_state, (u8, bytes) alist_state) UdpStream list\<rparr>"
  have new: "TuicOutbound_new (sample_quinn 1200) (alist_cache :: (u16, nat, (u16, nat) alist_state) cache_ops) [] ?opts = Ok ?ob"
    by (simp add: TuicOutbound_new_def send_auth_log [where token = "replicate 32 7"] sample_quinn_def)
  have ekm: "export_keying_material (sample_quinn 1200) n l c = Some (replicate n 7)" for n l c
    by (simp add: sample_quinn_def)
  have "oo_auth ?opts = (replicate 16 1, as_bytes ''secret'')" by simp
  note auth = client_authenticates [OF new this _ _ _ byte_stream_ok, of "sample_quinn 1200"]
  have "handle_uni_stream byte_stream (sample_quinn 1200) ?d s = (Ok (), s\<lparr>ic_uuid := Some (replicate 16 1)\<rparr>)"
    if "ic_users s (replicate 16 1) = Some ''secret''" for s
    using auth that by (simp add: ekm)
  then show ?thesis
    by (simp add: InboundCtx_new_def sample_users_def)
qed

text \<open>
  C35. A packet of a client at the server. A packet that fits into one datagram is reported once, with its
  association, target and payload. The server does not put fragments together: of a packet sent in
  several datagrams it reports the first piece as if it were a packet of its own, and the datagrams
  of all other pieces are refused, because they carry no address.
\<close>

theorem server_takes_datagrams:
  assumes "ic_uuid s \<noteq> None" and "target_ok (pk_target packet)" and "k < length (packet_pieces limit packet)"
    and "10 + target_addr_size (pk_target packet) \<le> limit" and "limit \<le> 65535"
  shows "if k = 0
    then handle_datagram (packet_datagrams limit a p packet ! k) s =
      (Ok (), s\<lparr>ic_udp := ic_udp s @ [(a, pk_target packet, packet_pieces limit packet ! 0)]\<rparr>)
    else \<exists>e. handle_datagram (packet_datagrams limit a p packet ! k) s = (Err e, s)"
proof -
  let ?cs = "packet_pieces limit packet" and ?addr = "if k = 0 then Address_from (pk_target packet) else NoAddr"
  note nth = packet_datagrams_nth [OF assms(4,5) refl assms(3)]
  have "packet_datagrams limit a p packet ! k =
      message (Packet a p (of_nat (length ?cs)) (of_nat k) (of_nat (length (?cs ! k)))) None @ addr_wire ?addr @ ?cs ! k"
    by (simp add: nth(1) fragment_datagram_def packet_datagram_def message_def)
  then have d: "handle_datagram (packet_datagrams limit a p packet ! k) s =
      handle_packet ''datagram packet'' a (of_nat (length (?cs ! k))) (addr_wire ?addr @ ?cs ! k) s"
    by (simp only: handle_datagram_packet [OF assms(1)])
  have len: "length (?cs ! k) < 65536" using nth(2) by simp
  show ?thesis
  proof (cases "k = 0")
    case True
    with d len handle_packet_payload(2) [OF assms(2), of "?cs ! k" "''datagram packet''" a s] show ?thesis
      by simp
  next
    case False
    have "decode_address ''datagram packet'' (addr_wire NoAddr @ ?cs ! k) = (Ok NoAddr, ?cs ! k)"
      by (rule decode_address_wire) simp
    with False d len show ?thesis
      by (simp add: handle_packet_def split_to_def unat_of_nat_u16)
  qed
qed

theorem server_takes_datagrams_witness:
  "fst (handle_datagram (packet_datagrams 20 0 0 sample_udp_packet ! 0) ((InboundCtx_new sample_users :: bytes InboundCtx)\<lparr>ic_uuid := Some (replicate 16 1)\<rparr>)) = Ok ()"
proof -
  have "0 < length (packet_pieces 20 sample_udp_packet)" "target_ok (pk_target sample_udp_packet)"
      "10 + target_addr_size (pk_target sample_udp_packet) \<le> 20"
    by (simp_all add: sample_udp_packet_def packet_pieces_def fragment_count_def div_ceil_def)
  then show ?thesis
    using server_takes_datagrams [of "(InboundCtx_new sample_users :: bytes InboundCtx)\<lparr>ic_uuid := Some (replicate 16 1)\<rparr>" sample_udp_packet 0 20 0 0]
    by simp
qed

end
